(* ===== verification/Py_Base.thy ===== *)
theory Py_Base
  imports Complex_Main "HOL-Library.Word" "HOL-Library.Sublist"
begin

text \<open>
  The prelude of the development: how values of the Python runtime are represented.

  \<^item> \<open>pystr\<close> is a Python \<^verbatim>\<open>str\<close>: a list of Unicode code points, so that \<open>length\<close> is
    \<^verbatim>\<open>len\<close>; \<open>lit\<close> embeds an ASCII literal.
  \<^item> \<open>clock\<close> is a reading of \<^verbatim>\<open>time.monotonic()\<close>, an integer number of nanoseconds;
    \<open>elapsed_ms\<close> is \<^verbatim>\<open>int((b - a) * 1000)\<close>.
  \<^item> \<open>pyval\<close> is a JSON-like value (what \<^verbatim>\<open>json.loads\<close> and a JSONB column yield); a
    dict is an association list in insertion order.
  \<^item> \<open>pyerr\<close> is the exception class that a call raises, \<open>'a res\<close> the result of a call
    that may raise.
  \<^item> \<open>pyenv\<close> collects the parts of the runtime that have no definition here: the regular
    expression engine, the Unicode general category, the JSON decoder (\<open>None\<close> for a
    \<^verbatim>\<open>ValueError\<close>) and the \<^verbatim>\<open>str()\<close> of containers.

  The lemmas are the generic facts on strings, substrings, association lists and
  clamped arithmetic that the component theories share.
\<close>

named_theorems strip_simps \<open>facts on stripping and substring tests\<close>

section \<open>Strings\<close>

type_synonym pystr = "nat list"

definition lit :: "string \<Rightarrow> pystr" where
  "lit s = map of_char s"

text \<open>White space of \<^verbatim>\<open>str.isspace\<close>, which \<^verbatim>\<open>str.strip()\<close> and \<^verbatim>\<open>str.split()\<close> use.\<close>

definition is_space :: "nat \<Rightarrow> bool" where
  "is_space c \<longleftrightarrow> (9 \<le> c \<and> c \<le> 13) \<or> (28 \<le> c \<and> c \<le> 32) \<or> c = 133 \<or> c = 160 \<or> c = 5760
     \<or> (8192 \<le> c \<and> c \<le> 8202) \<or> c = 8232 \<or> c = 8233 \<or> c = 8239 \<or> c = 8287 \<or> c = 12288"

definition lstrip_of :: "(nat \<Rightarrow> bool) \<Rightarrow> pystr \<Rightarrow> pystr" where
  "lstrip_of p s = dropWhile p s"

definition rstrip_of :: "(nat \<Rightarrow> bool) \<Rightarrow> pystr \<Rightarrow> pystr" where
  "rstrip_of p s = rev (dropWhile p (rev s))"

definition strip_of :: "(nat \<Rightarrow> bool) \<Rightarrow> pystr \<Rightarrow> pystr" where
  "strip_of p s = rstrip_of p (lstrip_of p s)"

abbreviation strip :: "pystr \<Rightarrow> pystr" where
  "strip \<equiv> strip_of is_space"

text \<open>\<^verbatim>\<open>sub in s\<close>, \<^verbatim>\<open>s.startswith(p)\<close>, \<^verbatim>\<open>s.endswith(p)\<close>.\<close>

fun is_sub :: "pystr \<Rightarrow> pystr \<Rightarrow> bool" where
  "is_sub p [] = (p = [])"
| "is_sub p (x # xs) = (prefix p (x # xs) \<or> is_sub p xs)"

definition startswith :: "pystr \<Rightarrow> pystr \<Rightarrow> bool" where
  "startswith s p = prefix p s"

definition endswith :: "pystr \<Rightarrow> pystr \<Rightarrow> bool" where
  "endswith s p = suffix p s"

text \<open>\<^verbatim>\<open>s.split()\<close>: the maximal runs of non-space characters; \<open>acc\<close> is the run being read.\<close>

fun split_acc :: "pystr \<Rightarrow> pystr \<Rightarrow> pystr list" where
  "split_acc acc [] = (if acc = [] then [] else [acc])"
| "split_acc acc (c # cs) =
     (if is_space c then (if acc = [] then split_acc [] cs else acc # split_acc [] cs)
      else split_acc (acc @ [c]) cs)"

definition py_split :: "pystr \<Rightarrow> pystr list" where
  "py_split s = split_acc [] s"

text \<open>\<^verbatim>\<open>sep.join(xs)\<close>.\<close>

fun py_join :: "pystr \<Rightarrow> pystr list \<Rightarrow> pystr" where
  "py_join sep [] = []"
| "py_join sep [x] = x"
| "py_join sep (x # y # ys) = x @ sep @ py_join sep (y # ys)"

text \<open>\<^verbatim>\<open>s.replace(old, new)\<close> for a non-empty \<open>old\<close>, left to right without overlaps.\<close>

function py_replace :: "pystr \<Rightarrow> pystr \<Rightarrow> pystr \<Rightarrow> pystr" where
  "py_replace old new [] = []"
| "py_replace old new (c # cs) =
     (if old \<noteq> [] \<and> prefix old (c # cs)
      then new @ py_replace old new (drop (length old) (c # cs))
      else c # py_replace old new cs)"
  by pat_completeness auto
termination
  by (relation "measure (\<lambda>(old, new, s). length s)") (auto simp: neq_Nil_conv)

declare py_replace.simps(2) [simp del]

section \<open>Numbers and time\<close>

fun show_nat :: "nat \<Rightarrow> pystr" where
  "show_nat n = (if n < 10 then [48 + n] else show_nat (n div 10) @ [48 + n mod 10])"

declare show_nat.simps [simp del]

definition show_int :: "int \<Rightarrow> pystr" where
  "show_int i = (if i < 0 then lit ''-'' @ show_nat (nat (- i)) else show_nat (nat i))"

text \<open>\<^verbatim>\<open>int(s)\<close> on a string: surrounding space, a sign, decimal digits with single
  underscores between them.\<close>

fun digits_val :: "nat \<Rightarrow> bool \<Rightarrow> pystr \<Rightarrow> nat option" where
  "digits_val acc ok [] = (if ok then Some acc else None)"
| "digits_val acc ok (c # cs) =
     (if 48 \<le> c \<and> c \<le> 57 then digits_val (10 * acc + (c - 48)) True cs
      else if c = 95 \<and> ok \<and> cs \<noteq> [] then digits_val acc False cs
      else None)"

definition parse_int :: "pystr \<Rightarrow> int option" where
  "parse_int s = (case strip s of
       [] \<Rightarrow> None
     | c # cs \<Rightarrow>
         if c = 45 then map_option (\<lambda>n. - int n) (digits_val 0 False cs)
         else if c = 43 then map_option int (digits_val 0 False cs)
         else map_option int (digits_val 0 False (c # cs)))"

text \<open>\<^verbatim>\<open>format(r, ".2f")\<close>: round half to even at two decimals.\<close>

definition round_half_even :: "rat \<Rightarrow> int" where
  "round_half_even r = (let f = \<lfloor>r\<rfloor>; d = r - of_int f in
     if d < 1 / 2 then f else if d > 1 / 2 then f + 1 else if even f then f else f + 1)"

definition format_2f :: "rat \<Rightarrow> pystr" where
  "format_2f r = (let n = nat (round_half_even (\<bar>r\<bar> * 100)) in
     (if r < 0 then lit ''-'' else []) @ show_nat (n div 100) @ lit ''.''
       @ [48 + (n div 10) mod 10, 48 + n mod 10])"

type_synonym clock = int

text \<open>\<^verbatim>\<open>int(x)\<close> on a float truncates toward zero.\<close>

definition trunc_rat :: "rat \<Rightarrow> int" where
  "trunc_rat r = (if r < 0 then - \<lfloor>- r\<rfloor> else \<lfloor>r\<rfloor>)"

definition trunc_div :: "int \<Rightarrow> int \<Rightarrow> int" where
  "trunc_div a b = (if a < 0 then - ((- a) div b) else a div b)"

definition elapsed_ms :: "clock \<Rightarrow> clock \<Rightarrow> int" where
  "elapsed_ms a b = trunc_div (b - a) 1000000"

definition to_ms :: "clock \<Rightarrow> int" where
  "to_ms t = trunc_div t 1000000"

text \<open>\<^verbatim>\<open>random.choice(xs)\<close> on a non-empty sequence: the environment supplies the draw.\<close>

definition py_choice :: "nat \<Rightarrow> 'a list \<Rightarrow> 'a" where
  "py_choice i xs = xs ! (i mod length xs)"

section \<open>JSON values, errors, environment\<close>

datatype pyval = PNone | PBool bool | PInt int | PFloat rat | PStr pystr
  | PList "pyval list" | PDict "(pystr \<times> pyval) list"

datatype pyerr = ValueError | KeyError | TypeError | AttributeError | RuntimeError
  | StructError | ReError | NotImplementedErr | OtherErr pystr

type_synonym 'a res = "pyerr + 'a"

text \<open>\<^verbatim>\<open>bool(v)\<close>, \<^verbatim>\<open>d.get(k)\<close> (with \<^verbatim>\<open>None\<close> for a missing key), \<^verbatim>\<open>d[k]\<close>.\<close>

fun truthy :: "pyval \<Rightarrow> bool" where
  "truthy PNone = False"
| "truthy (PBool b) = b"
| "truthy (PInt i) = (i \<noteq> 0)"
| "truthy (PFloat r) = (r \<noteq> 0)"
| "truthy (PStr s) = (s \<noteq> [])"
| "truthy (PList xs) = (xs \<noteq> [])"
| "truthy (PDict d) = (d \<noteq> [])"

definition dget :: "(pystr \<times> pyval) list \<Rightarrow> pystr \<Rightarrow> pyval" where
  "dget d k = (case map_of d k of None \<Rightarrow> PNone | Some v \<Rightarrow> v)"

definition ditem :: "(pystr \<times> pyval) list \<Rightarrow> pystr \<Rightarrow> pyval res" where
  "ditem d k = (case map_of d k of None \<Rightarrow> Inl KeyError | Some v \<Rightarrow> Inr v)"

text \<open>\<^verbatim>\<open>d[k] = v\<close> keeps the position of an existing key; \<^verbatim>\<open>{**a, **b}\<close> and \<^verbatim>\<open>d.update\<close>.\<close>

fun dset :: "'k \<Rightarrow> 'v \<Rightarrow> ('k \<times> 'v) list \<Rightarrow> ('k \<times> 'v) list" where
  "dset k v [] = [(k, v)]"
| "dset k v ((a, w) # d) = (if a = k then (k, v) # d else (a, w) # dset k v d)"

definition dmerge :: "('k \<times> 'v) list \<Rightarrow> ('k \<times> 'v) list \<Rightarrow> ('k \<times> 'v) list" where
  "dmerge d kvs = fold (\<lambda>(k, v). dset k v) kvs d"

text \<open>Results in sequence: the first error wins.\<close>

definition bind_res :: "'a res \<Rightarrow> ('a \<Rightarrow> 'b res) \<Rightarrow> 'b res" where
  "bind_res r f = (case r of Inl e \<Rightarrow> Inl e | Inr a \<Rightarrow> f a)"

fun map_res :: "('a \<Rightarrow> 'b res) \<Rightarrow> 'a list \<Rightarrow> 'b list res" where
  "map_res f [] = Inr []"
| "map_res f (x # xs) = (case f x of Inl e \<Rightarrow> Inl e
     | Inr y \<Rightarrow> (case map_res f xs of Inl e \<Rightarrow> Inl e | Inr ys \<Rightarrow> Inr (y # ys)))"

record pyenv =
  re_ok :: "pystr \<Rightarrow> bool"
  re_search :: "pystr \<Rightarrow> pystr \<Rightarrow> bool"
  letter_or_number :: "nat \<Rightarrow> bool"
  json_loads :: "pystr \<Rightarrow> pyval option"
  str_other :: "pyval \<Rightarrow> pystr"

text \<open>\<^verbatim>\<open>str(v)\<close>; the text of floats and containers is the environment's.\<close>

fun py_str :: "pyenv \<Rightarrow> pyval \<Rightarrow> pystr" where
  "py_str E (PStr s) = s"
| "py_str E (PInt i) = show_int i"
| "py_str E (PBool b) = (if b then lit ''True'' else lit ''False'')"
| "py_str E PNone = lit ''None''"
| "py_str E v = str_other E v"

text \<open>\<^verbatim>\<open>int(v)\<close>.\<close>

fun py_int :: "pyval \<Rightarrow> int res" where
  "py_int (PInt i) = Inr i"
| "py_int (PBool b) = Inr (if b then 1 else 0)"
| "py_int (PFloat r) = Inr (trunc_rat r)"
| "py_int (PStr s) = (case parse_int s of None \<Rightarrow> Inl ValueError | Some i \<Rightarrow> Inr i)"
| "py_int _ = Inl TypeError"

text \<open>\<^verbatim>\<open>tuple(v)\<close>: lists, the characters of a string, the keys of a dict.\<close>

fun py_tuple :: "pyval \<Rightarrow> pyval list res" where
  "py_tuple (PList xs) = Inr xs"
| "py_tuple (PStr s) = Inr (map (\<lambda>c. PStr [c]) s)"
| "py_tuple (PDict d) = Inr (map (PStr \<circ> fst) d)"
| "py_tuple _ = Inl TypeError"

text \<open>An environment for witnesses: ASCII letters, plain substring search, no JSON.\<close>

definition demo_env :: pyenv where
  "demo_env = \<lparr>re_ok = (\<lambda>p. True), re_search = is_sub, letter_or_number = (\<lambda>c. 65 \<le> c \<and> c \<le> 122),
     json_loads = (\<lambda>_. None), str_other = (\<lambda>_. [])\<rparr>"

section \<open>Generic lemmas\<close>

lemma is_sub_iff_sublist [strip_simps]: "is_sub p s \<longleftrightarrow> sublist p s"
  by (induction s) (auto simp: sublist_Cons_right)

lemma is_sub_trans: "is_sub p q \<Longrightarrow> is_sub q r \<Longrightarrow> is_sub p r"
  unfolding is_sub_iff_sublist using sublist_order.order_trans by blast

lemma is_sub_refl [simp]: "is_sub s s"
  by (simp add: is_sub_iff_sublist)

lemma strip_of_Nil [simp]: "strip_of p [] = []"
  by (simp add: strip_of_def lstrip_of_def rstrip_of_def)

lemma rstrip_of_prefix: "prefix (rstrip_of p s) s"
proof -
  have "suffix (dropWhile p (rev s)) (rev s)"
    by (rule suffix_dropWhile)
  then show ?thesis
    by (simp add: rstrip_of_def suffix_to_prefix)
qed

lemma lstrip_of_suffix: "suffix (lstrip_of p s) s"
  by (simp add: lstrip_of_def suffix_dropWhile)

lemma strip_of_sub: "is_sub (strip_of p s) s"
  unfolding is_sub_iff_sublist strip_of_def
  by (meson rstrip_of_prefix lstrip_of_suffix prefix_imp_sublist suffix_imp_sublist
      sublist_order.order_trans)

lemma set_strip_of: "set (strip_of p s) \<subseteq> set s"
  using strip_of_sub [of p s] unfolding is_sub_iff_sublist by (rule set_mono_sublist)

lemma length_strip_of: "length (strip_of p s) \<le> length s"
  using strip_of_sub [of p s] unfolding is_sub_iff_sublist by (rule sublist_length_le)

lemma rstrip_of_last: "rstrip_of p s \<noteq> [] \<Longrightarrow> \<not> p (last (rstrip_of p s))"
  using hd_dropWhile [of p "rev s"] by (auto simp: rstrip_of_def last_rev)

lemma strip_of_hd_last:
  assumes "strip_of p s \<noteq> []"
  shows "\<not> p (hd (strip_of p s))" and "\<not> p (last (strip_of p s))"
proof -
  show "\<not> p (last (strip_of p s))"
    using assms unfolding strip_of_def by (rule rstrip_of_last)
  have pre: "prefix (strip_of p s) (lstrip_of p s)"
    unfolding strip_of_def by (rule rstrip_of_prefix)
  with assms have "hd (strip_of p s) = hd (lstrip_of p s)" and "lstrip_of p s \<noteq> []"
    by (auto simp: prefix_def)
  then show "\<not> p (hd (strip_of p s))"
    using hd_dropWhile [of p s] by (simp add: lstrip_of_def)
qed

lemma strip_of_all: "(\<forall>c \<in> set s. p c) \<Longrightarrow> strip_of p s = []"
  by (simp add: strip_of_def lstrip_of_def rstrip_of_def dropWhile_eq_Nil_conv [THEN iffD2])

lemma rstrip_of_id: "s = [] \<or> \<not> p (last s) \<Longrightarrow> rstrip_of p s = s"
  by (cases s rule: rev_cases) (auto simp: rstrip_of_def)

lemma lstrip_of_id: "s = [] \<or> \<not> p (hd s) \<Longrightarrow> lstrip_of p s = s"
  by (cases s) (auto simp: lstrip_of_def)

lemma strip_of_idem [simp]: "strip_of p (strip_of p s) = strip_of p s"
proof (cases "strip_of p s = []")
  case False
  then show ?thesis
    by (metis strip_of_def strip_of_hd_last lstrip_of_id rstrip_of_id)
qed simp

lemma dget_Nil [simp]: "dget [] k = PNone"
  by (simp add: dget_def)

lemma dget_Cons [simp]: "dget ((a, v) # d) k = (if k = a then v else dget d k)"
  by (simp add: dget_def)

lemma map_of_dset [simp]: "map_of (dset k v d) = (map_of d)(k \<mapsto> v)"
  by (induction d) (auto simp: fun_eq_iff)

lemma dget_dset [simp]: "dget (dset k v d) k' = (if k' = k then v else dget d k')"
  by (simp add: dget_def)

lemma dget_dmerge_other: "k \<notin> fst ` set kvs \<Longrightarrow> dget (dmerge d kvs) k = dget d k"
  unfolding dmerge_def by (induction kvs arbitrary: d) auto

lemma dget_dmerge:
  "distinct (map fst kvs) \<Longrightarrow>
   dget (dmerge d kvs) k = (if k \<in> fst ` set kvs then dget kvs k else dget d k)"
  unfolding dmerge_def
  by (induction kvs arbitrary: d) (auto simp: image_iff)

lemma map_of_dmerge:
  "distinct (map fst kvs) \<Longrightarrow>
   map_of (dmerge d kvs) k = (if k \<in> fst ` set kvs then map_of kvs k else map_of d k)"
  unfolding dmerge_def
  by (induction kvs arbitrary: d) (auto simp: image_iff)

lemma py_choice_in: "xs \<noteq> [] \<Longrightarrow> py_choice i xs \<in> set xs"
  by (simp add: py_choice_def)

lemma trunc_div_nonneg: "0 \<le> a \<Longrightarrow> 0 < b \<Longrightarrow> 0 \<le> trunc_div a b"
  by (simp add: trunc_div_def pos_imp_zdiv_nonneg_iff)

lemma elapsed_ms_nonneg: "a \<le> b \<Longrightarrow> 0 \<le> elapsed_ms a b"
  by (simp add: elapsed_ms_def trunc_div_nonneg)

lemma elapsed_ms_ge: "a \<le> b \<Longrightarrow> elapsed_ms a b \<ge> m \<longleftrightarrow> b - a \<ge> m * 1000000"
  by (simp add: elapsed_ms_def trunc_div_def) linarith

lemma map_res_cong [fundef_cong]:
  "xs = ys \<Longrightarrow> (\<And>x. x \<in> set ys \<Longrightarrow> f x = g x) \<Longrightarrow> map_res f xs = map_res g ys"
  by (induction xs arbitrary: ys) (auto split: sum.splits)

lemma map_res_all: "(\<And>x. x \<in> set xs \<Longrightarrow> f x = Inr (g x)) \<Longrightarrow> map_res f xs = Inr (map g xs)"
  by (induction xs) auto

lemma map_res_Inr_length: "map_res f xs = Inr ys \<Longrightarrow> length ys = length xs"
  by (induction xs arbitrary: ys) (auto split: sum.splits)

lemma lit_inject [simp]: "lit a = lit b \<longleftrightarrow> a = b"
  by (auto simp: lit_def inj_map_eq_map inj_def)

lemma lit_Nil [simp]: "lit s = [] \<longleftrightarrow> s = []"
  by (simp add: lit_def)

end
