(* ===== verification/Py_Async.thy ===== *)
theory Py_Async
  imports Py_Base
begin

text \<open>
  The queue of Python's \<^verbatim>\<open>asyncio\<close>, which the event bus, the listening pumps, the
  playback pipeline and the transport share: \<open>aqueue\<close> with its non-blocking operations.
  \<open>maxsize <= 0\<close> means unbounded; \<open>unfinished\<close> is the counter behind \<^verbatim>\<open>task_done\<close>
  and \<^verbatim>\<open>join\<close>.

  The locale \<open>fifo_lane\<close> is what a client of an unbounded queue relies on; the
  interpretation at the end discharges it for \<open>aqueue\<close>.
\<close>

record 'a aqueue =
  maxsize :: int
  items :: "'a list"
  unfinished :: nat

definition new_queue :: "int \<Rightarrow> 'a aqueue" where
  "new_queue n = \<lparr>maxsize = n, items = [], unfinished = 0\<rparr>"

definition qfull :: "'a aqueue \<Rightarrow> bool" where
  "qfull q = (0 < maxsize q \<and> maxsize q \<le> int (length (items q)))"

definition qsize :: "'a aqueue \<Rightarrow> nat" where
  "qsize q = length (items q)"

text \<open>\<^verbatim>\<open>put_nowait\<close> raises \<^verbatim>\<open>QueueFull\<close> and \<^verbatim>\<open>get_nowait\<close> raises \<^verbatim>\<open>QueueEmpty\<close>: both are
  \<open>None\<close>. \<^verbatim>\<open>task_done\<close> raises \<^verbatim>\<open>ValueError\<close> when called too many times.\<close>

definition put_nowait :: "'a \<Rightarrow> 'a aqueue \<Rightarrow> 'a aqueue option" where
  "put_nowait x q = (if qfull q then None
     else Some (q\<lparr>items := items q @ [x], unfinished := Suc (unfinished q)\<rparr>))"

definition get_nowait :: "'a aqueue \<Rightarrow> ('a \<times> 'a aqueue) option" where
  "get_nowait q = (case items q of [] \<Rightarrow> None | x # xs \<Rightarrow> Some (x, q\<lparr>items := xs\<rparr>))"

definition task_done :: "'a aqueue \<Rightarrow> 'a aqueue res" where
  "task_done q = (if unfinished q = 0 then Inl ValueError
     else Inr (q\<lparr>unfinished := unfinished q - 1\<rparr>))"

section \<open>The contract of an unbounded queue\<close>

text \<open>What a client of a lane may be handed: elements to enqueue and attempts to dequeue.\<close>

datatype 'e lane_op = LPut 'e | LGet

fun puts_of :: "'e lane_op list \<Rightarrow> 'e list" where
  "puts_of [] = []"
| "puts_of (LPut e # ops) = e # puts_of ops"
| "puts_of (LGet # ops) = puts_of ops"

locale fifo_lane =
  fixes put :: "'e \<Rightarrow> 'q \<Rightarrow> 'q option"
    and get :: "'q \<Rightarrow> ('e \<times> 'q) option"
    and content :: "'q \<Rightarrow> 'e list"
    and invar :: "'q \<Rightarrow> bool"
  assumes put_accepts: "invar q \<Longrightarrow> \<exists>q'. put e q = Some q' \<and> content q' = content q @ [e] \<and> invar q'"
    and get_empty: "invar q \<Longrightarrow> get q = None \<longleftrightarrow> content q = []"
    and get_head: "invar q \<Longrightarrow> get q = Some (e, q') \<Longrightarrow> content q = e # content q' \<and> invar q'"
begin

text \<open>A client's view: run a script, collect what was dequeued.\<close>

fun lane_run :: "'e lane_op list \<Rightarrow> 'q \<Rightarrow> 'e list \<times> 'q" where
  "lane_run [] q = ([], q)"
| "lane_run (LPut e # ops) q = (case put e q of None \<Rightarrow> lane_run ops q | Some q' \<Rightarrow> lane_run ops q')"
| "lane_run (LGet # ops) q = (case get q of None \<Rightarrow> lane_run ops q
     | Some (e, q') \<Rightarrow> (let (out, q'') = lane_run ops q' in (e # out, q'')))"

lemma lane_run_fifo:
  "invar q \<Longrightarrow> lane_run ops q = (out, q') \<Longrightarrow>
   invar q' \<and> content q @ puts_of ops = out @ content q'"
proof (induction ops q arbitrary: out q' rule: lane_run.induct)
  case (2 e ops q)
  obtain q1 where "put e q = Some q1" "content q1 = content q @ [e]" "invar q1"
    using put_accepts [OF 2(3)] by blast
  have "invar q' \<and> content q1 @ puts_of ops = out @ content q'"
    using 2 \<open>put e q = Some q1\<close> \<open>invar q1\<close> by fastforce
  with \<open>content q1 = content q @ [e]\<close> show ?case by simp
next
  case (3 ops q)
  then show ?case
    by (cases "get q") (fastforce dest: get_head split: prod.splits)+
qed simp

text \<open>Dequeuing as many times as there are elements empties the lane, in order.\<close>

lemma lane_gets_length:
  "invar q \<Longrightarrow> lane_run (replicate n LGet) q = (out, q') \<Longrightarrow> length out = min n (length (content q))"
proof (induction n arbitrary: q out)
  case (Suc n)
  show ?case
  proof (cases "get q")
    case None
    with Suc show ?thesis using get_empty [of q] by auto
  next
    case (Some p)
    then obtain e q1 where p: "get q = Some (e, q1)" by (cases p) auto
    then obtain o1 where "lane_run (replicate n LGet) q1 = (o1, q')" "out = e # o1"
      using Suc.prems(2) by (auto split: prod.splits)
    then show ?thesis
      using Suc.IH [of q1 o1] get_head [OF Suc.prems(1) p] by simp
  qed
qed simp

lemma lane_drain:
  assumes "invar q" and "lane_run (replicate (length (content q)) LGet) q = (out, q')"
  shows "out = content q \<and> content q' = []"
proof -
  have no_puts: "puts_of (replicate n LGet) = []" for n :: nat
    by (induction n) auto
  have "content q @ [] = out @ content q'"
    using lane_run_fifo [OF assms] by (simp add: no_puts)
  moreover have "length out = length (content q)"
    using lane_gets_length [OF assms] by simp
  ultimately show ?thesis by (simp add: append_eq_append_conv)
qed

end

interpretation unbounded: fifo_lane put_nowait get_nowait items "\<lambda>q. maxsize q \<le> 0"
  by unfold_locales
    (auto simp: put_nowait_def get_nowait_def qfull_def split: list.splits)

section \<open>Bounded queues\<close>

lemma put_nowait_bounded:
  "put_nowait x q = Some q' \<Longrightarrow> 0 < maxsize q \<Longrightarrow> int (length (items q)) \<le> maxsize q \<Longrightarrow>
   int (length (items q')) \<le> maxsize q'"
  by (auto simp: put_nowait_def qfull_def split: if_splits)

lemma put_nowait_items:
  "put_nowait x q = Some q' \<Longrightarrow> items q' = items q @ [x] \<and> maxsize q' = maxsize q"
  by (auto simp: put_nowait_def split: if_splits)

lemma get_nowait_items:
  "get_nowait q = Some (x, q') \<Longrightarrow> items q = x # items q' \<and> maxsize q' = maxsize q
     \<and> unfinished q' = unfinished q"
  by (auto simp: get_nowait_def split: list.splits)

lemma put_nowait_unbounded [simp]:
  "maxsize q \<le> 0 \<Longrightarrow>
   put_nowait x q = Some (q\<lparr>items := items q @ [x], unfinished := Suc (unfinished q)\<rparr>)"
  by (simp add: put_nowait_def qfull_def)

section \<open>Transition systems\<close>

text \<open>Reachability for a system whose steps are labelled and may be disabled (\<open>None\<close>). The
  locale \<open>invariant_of\<close> is the contract of a component's step function: its invariant holds
  initially and every enabled step keeps it.\<close>

inductive reach :: "('s \<Rightarrow> bool) \<Rightarrow> ('a \<Rightarrow> 's \<Rightarrow> 's option) \<Rightarrow> 's \<Rightarrow> bool"
  for init :: "'s \<Rightarrow> bool" and step :: "'a \<Rightarrow> 's \<Rightarrow> 's option" where
  reach_init: "init s \<Longrightarrow> reach init step s"
| reach_step: "reach init step s \<Longrightarrow> step a s = Some s' \<Longrightarrow> reach init step s'"

fun run_acts :: "('a \<Rightarrow> 's \<Rightarrow> 's option) \<Rightarrow> 'a list \<Rightarrow> 's \<Rightarrow> 's option" where
  "run_acts step [] s = Some s"
| "run_acts step (a # as) s = (case step a s of None \<Rightarrow> None | Some s' \<Rightarrow> run_acts step as s')"

lemma reach_run_acts:
  "reach init step s \<Longrightarrow> run_acts step as s = Some s' \<Longrightarrow> reach init step s'"
  by (induction as arbitrary: s) (auto split: option.splits intro: reach_step)

lemma run_acts_append:
  "run_acts step (as @ bs) s = Option.bind (run_acts step as s) (run_acts step bs)"
  by (induction as arbitrary: s) (auto split: option.splits)

locale invariant_of =
  fixes init :: "'s \<Rightarrow> bool"
    and step :: "'a \<Rightarrow> 's \<Rightarrow> 's option"
    and inv :: "'s \<Rightarrow> bool"
  assumes init_inv: "init s \<Longrightarrow> inv s"
    and step_inv: "inv s \<Longrightarrow> step a s = Some s' \<Longrightarrow> inv s'"
begin

lemma reach_inv: "reach init step s \<Longrightarrow> inv s"
  by (induction rule: reach.induct) (auto intro: init_inv step_inv)

lemma run_inv: "inv s \<Longrightarrow> run_acts step as s = Some s' \<Longrightarrow> inv s'"
  by (induction as arbitrary: s) (auto split: option.splits intro: step_inv)

end

end
