(* ===== verification/Event_Bus.thy ===== *)
theory Event_Bus
  imports Py_Async
begin

text \<open>
  The per-call event bus (\<^verbatim>\<open>events.py\<close>, \<^verbatim>\<open>eventbus.py\<close>).

  \<open>bus\<close> is the \<^verbatim>\<open>EventBus\<close> object; \<open>post\<close>, \<open>subscribe\<close>, \<open>unsub\<close>, \<open>deliver\<close>, \<open>aclose\<close> and
  \<open>drain_inline\<close> are its methods, with a handler represented by its identity and a
  table \<open>hcall\<close> giving what the handler does to the bus and how it ends. \<open>bus_step\<close> is the
  interleaved system: the two dispatcher tasks, a closing task and arbitrary posters, at
  the granularity of one handler call, so every schedule of the event loop is a run.

  Shown: the lossless lane never drops or reorders in any schedule; the lossy lane is
  bounded, drops the oldest and counts every drop; a raising handler never stops its
  siblings; \<open>aclose\<close> delivers exactly what was pending and always returns.
\<close>

named_theorems bus_defs \<open>unfolding of the bus operations\<close>

section \<open>Events and lanes\<close>

datatype bus_event =
    AsrFinal pystr
  | AsrStreamEnded
  | Connected
  | HangupDetected pystr
  | InterruptRequested pystr "pystr option"
  | ManualHangupRequested "pystr option"
  | TransferRequested "pystr option"
  | AsrPartial pystr
  | VadFrame rat int

datatype event_type = TAsrFinal | TAsrStreamEnded | TConnected | THangupDetected
  | TInterruptRequested | TManualHangupRequested | TTransferRequested | TAsrPartial | TVadFrame

fun type_of :: "bus_event \<Rightarrow> event_type" where
  "type_of (AsrFinal _) = TAsrFinal"
| "type_of AsrStreamEnded = TAsrStreamEnded"
| "type_of Connected = TConnected"
| "type_of (HangupDetected _) = THangupDetected"
| "type_of (InterruptRequested _ _) = TInterruptRequested"
| "type_of (ManualHangupRequested _) = TManualHangupRequested"
| "type_of (TransferRequested _) = TTransferRequested"
| "type_of (AsrPartial _) = TAsrPartial"
| "type_of (VadFrame _ _) = TVadFrame"

fun class_name :: "event_type \<Rightarrow> pystr" where
  "class_name TAsrFinal = lit ''AsrFinal''"
| "class_name TAsrStreamEnded = lit ''AsrStreamEnded''"
| "class_name TConnected = lit ''Connected''"
| "class_name THangupDetected = lit ''HangupDetected''"
| "class_name TInterruptRequested = lit ''InterruptRequested''"
| "class_name TManualHangupRequested = lit ''ManualHangupRequested''"
| "class_name TTransferRequested = lit ''TransferRequested''"
| "class_name TAsrPartial = lit ''AsrPartial''"
| "class_name TVadFrame = lit ''VadFrame''"

datatype lane = LOSSLESS | LOSSY

definition lossless_default_suffixes :: "pystr list" where
  "lossless_default_suffixes = map lit
     [''Final'', ''Requested'', ''Detected'', ''Connected'', ''Ended'', ''Started'', ''Done'']"

type_synonym handler_id = nat

record bus =
  lossless :: "bus_event aqueue"
  lossy :: "bus_event aqueue"
  lanes :: "event_type \<rightharpoonup> lane"
  handlers :: "event_type \<rightharpoonup> handler_id list"
  started :: bool
  closed :: bool
  dropped :: nat

definition new_bus :: "int \<Rightarrow> bus" where
  "new_bus lossy_maxsize = \<lparr>lossless = new_queue 0, lossy = new_queue lossy_maxsize,
     lanes = Map.empty, handlers = Map.empty, started = False, closed = False, dropped = 0\<rparr>"

definition register_lane :: "event_type \<Rightarrow> lane \<Rightarrow> 'a bus_scheme \<Rightarrow> 'a bus_scheme" where
  "register_lane t l b = b\<lparr>lanes := (lanes b)(t \<mapsto> l)\<rparr>"

definition lane_for :: "'a bus_scheme \<Rightarrow> event_type \<Rightarrow> lane" where
  "lane_for b t = (case lanes b t of
       Some l \<Rightarrow> l
     | None \<Rightarrow> if list_ex (endswith (class_name t)) lossless_default_suffixes then LOSSLESS
               else LOSSLESS)"

definition handlers_of :: "'a bus_scheme \<Rightarrow> event_type \<Rightarrow> handler_id list" where
  "handlers_of b t = (case handlers b t of None \<Rightarrow> [] | Some hs \<Rightarrow> hs)"

definition subscribe :: "event_type \<Rightarrow> handler_id \<Rightarrow> 'a bus_scheme \<Rightarrow> 'a bus_scheme" where
  "subscribe t h b = b\<lparr>handlers := (handlers b)(t \<mapsto> handlers_of b t @ [h])\<rparr>"

text \<open>The callable that \<^verbatim>\<open>subscribe\<close> returns: remove the first registration of the handler.\<close>

definition unsub :: "event_type \<Rightarrow> handler_id \<Rightarrow> 'a bus_scheme \<Rightarrow> 'a bus_scheme" where
  "unsub t h b = (case handlers b t of
       Some hs \<Rightarrow> if h \<in> set hs then b\<lparr>handlers := (handlers b)(t \<mapsto> remove1 h hs)\<rparr> else b
     | None \<Rightarrow> b)"

text \<open>\<^verbatim>\<open>put_nowait\<close> on the lossless queue cannot raise (\<^verbatim>\<open>asyncio.Queue()\<close> is unbounded, see
  \<open>bus_wf\<close>); the branch is there because the queue's type allows it.\<close>

definition post :: "bus_event \<Rightarrow> 'a bus_scheme \<Rightarrow> 'a bus_scheme" where
  "post e b =
     (if closed b then b
      else if lane_for b (type_of e) = LOSSLESS then
        (case put_nowait e (lossless b) of Some q \<Rightarrow> b\<lparr>lossless := q\<rparr> | None \<Rightarrow> b)
      else (case put_nowait e (lossy b) of
          Some q \<Rightarrow> b\<lparr>lossy := q\<rparr>
        | None \<Rightarrow>
            (let b1 = (case get_nowait (lossy b) of
                   Some (_, q) \<Rightarrow> b\<lparr>lossy := q, dropped := dropped b + 1\<rparr>
                 | None \<Rightarrow> b)
             in (case put_nowait e (lossy b1) of
                   Some q \<Rightarrow> b1\<lparr>lossy := q\<rparr>
                 | None \<Rightarrow> b1\<lparr>dropped := dropped b1 + 1\<rparr>))))"

lemmas [bus_defs] = register_lane_def handlers_of_def subscribe_def unsub_def

section \<open>Delivery\<close>

text \<open>What a handler does: calls on the bus, in order, and how it ends.\<close>

datatype bus_call = BPost bus_event | BSubscribe event_type handler_id | BUnsub event_type handler_id

datatype hout = HOk | HRaise pyerr | HCancel

type_synonym hcall = "handler_id \<Rightarrow> bus_event \<Rightarrow> bus_call list \<times> hout"

fun apply_call :: "bus_call \<Rightarrow> 'a bus_scheme \<Rightarrow> 'a bus_scheme" where
  "apply_call (BPost e) b = post e b"
| "apply_call (BSubscribe t h) b = subscribe t h b"
| "apply_call (BUnsub t h) b = unsub t h b"

text \<open>\<open>deliver_to\<close> is the loop over the snapshot; it returns the calls made and whether a
  \<^verbatim>\<open>CancelledError\<close> left the loop.\<close>

fun deliver_to :: "hcall \<Rightarrow> bus_event \<Rightarrow> handler_id list \<Rightarrow> 'a bus_scheme
    \<Rightarrow> (handler_id \<times> bus_event) list \<times> bool \<times> 'a bus_scheme" where
  "deliver_to hc e [] b = ([], False, b)"
| "deliver_to hc e (h # hs) b =
     (let (calls, out) = hc h e; b1 = fold apply_call calls b in
      case out of
        HCancel \<Rightarrow> ([(h, e)], True, b1)
      | _ \<Rightarrow> (let (lg, c, b2) = deliver_to hc e hs b1 in ((h, e) # lg, c, b2)))"

definition deliver :: "hcall \<Rightarrow> bus_event \<Rightarrow> 'a bus_scheme
    \<Rightarrow> (handler_id \<times> bus_event) list \<times> bool \<times> 'a bus_scheme" where
  "deliver hc e b = deliver_to hc e (handlers_of b (type_of e)) b"

text \<open>\<^verbatim>\<open>task_done\<close> in a \<^verbatim>\<open>finally\<close>; more calls than puts would raise, which the counter
  invariant of \<open>bus_wf\<close> excludes.\<close>

definition done_on :: "'a aqueue \<Rightarrow> 'a aqueue" where
  "done_on q = (case task_done q of Inr q' \<Rightarrow> q' | Inl _ \<Rightarrow> q)"

text \<open>The drain loop of \<open>aclose\<close>: \<open>n\<close> iterations at most.\<close>

fun aclose_drain :: "hcall \<Rightarrow> nat \<Rightarrow> 'a bus_scheme
    \<Rightarrow> (bus_event \<times> (handler_id \<times> bus_event) list) list \<times> bool \<times> 'a bus_scheme" where
  "aclose_drain hc 0 b = ([], False, b)"
| "aclose_drain hc (Suc n) b =
     (case get_nowait (lossless b) of
        None \<Rightarrow> ([], False, b)
      | Some (e, q) \<Rightarrow>
          (let (lg, c, b1) = deliver hc e (b\<lparr>lossless := q\<rparr>);
               b2 = b1\<lparr>lossless := done_on (lossless b1)\<rparr>
           in if c then ([(e, lg)], True, b2)
              else (let (rest, c', b3) = aclose_drain hc n b2 in ((e, lg) # rest, c', b3))))"

definition aclose :: "hcall \<Rightarrow> 'a bus_scheme
    \<Rightarrow> (bus_event \<times> (handler_id \<times> bus_event) list) list \<times> bool \<times> 'a bus_scheme" where
  "aclose hc b =
     (if closed b then ([], False, b)
      else (let b0 = b\<lparr>closed := True\<rparr>;
                (lg, c, b1) = aclose_drain hc (qsize (lossless b0)) b0
            in (lg, c, if c then b1 else b1\<lparr>started := False\<rparr>)))"

definition start :: "'a bus_scheme \<Rightarrow> 'a bus_scheme" where
  "start b = (if started b then b else b\<lparr>started := True\<rparr>)"

text \<open>\<open>drain_inline\<close>: a handler may post to the lane being drained, so the loop need not end.\<close>

partial_function (option) drain_lossless :: "hcall \<Rightarrow> bus
    \<Rightarrow> ((handler_id \<times> bus_event) list \<times> bool \<times> bus) option" where
  "drain_lossless hc b =
     (case get_nowait (lossless b) of
        None \<Rightarrow> Some ([], False, b)
      | Some (e, q) \<Rightarrow>
          (let (lg, c, b1) = deliver hc e (b\<lparr>lossless := q\<rparr>);
               b2 = b1\<lparr>lossless := done_on (lossless b1)\<rparr>
           in if c then Some (lg, True, b2)
              else Option.bind (drain_lossless hc b2)
                     (\<lambda>(rest, c', b3). Some (lg @ rest, c', b3))))"

partial_function (option) drain_lossy :: "hcall \<Rightarrow> bus
    \<Rightarrow> ((handler_id \<times> bus_event) list \<times> bool \<times> bus) option" where
  "drain_lossy hc b =
     (case get_nowait (lossy b) of
        None \<Rightarrow> Some ([], False, b)
      | Some (e, q) \<Rightarrow>
          (let (lg, c, b1) = deliver hc e (b\<lparr>lossy := q\<rparr>);
               b2 = b1\<lparr>lossy := done_on (lossy b1)\<rparr>
           in if c then Some (lg, True, b2)
              else Option.bind (drain_lossy hc b2)
                     (\<lambda>(rest, c', b3). Some (lg @ rest, c', b3))))"

definition drain_inline :: "hcall \<Rightarrow> bus \<Rightarrow> ((handler_id \<times> bus_event) list \<times> bool \<times> bus) option" where
  "drain_inline hc b = Option.bind (drain_lossless hc b)
     (\<lambda>(l1, c, b1). if c then Some (l1, True, b1)
        else Option.bind (drain_lossy hc b1) (\<lambda>(l2, c', b2). Some (l1 @ l2, c', b2)))"

section \<open>The interleaved system\<close>

text \<open>\<open>fly\<close> is the event a dispatcher is delivering with the handlers still to call, \<open>closer\<close>
  the state of a running \<open>aclose\<close> (iterations left and the event it is delivering). The
  fields \<open>accepted\<close> and \<open>taken\<close> are history: lossless events the bus accepted, and those
  dequeued for delivery with the handlers found.\<close>

record bus_sys = bus +
  fly :: "lane \<Rightarrow> (bus_event \<times> handler_id list) option"
  alive :: "lane \<Rightarrow> bool"
  closer :: "(nat \<times> (bus_event \<times> handler_id list) option) option"
  drained :: bool
  accepted :: "bus_event list"
  taken :: "(bus_event \<times> handler_id list) list"

datatype bus_act = APost bus_event | ASubscribe event_type handler_id | AUnsub event_type handler_id
  | ARegister event_type lane | AStart | AGet lane | AHandle lane hout | ADone lane
  | AClose | ACloseGet | ACloseHandle hout | ACloseDone | ACloseEnd

fun queue_of :: "lane \<Rightarrow> 'a bus_scheme \<Rightarrow> bus_event aqueue" where
  "queue_of LOSSLESS s = lossless s"
| "queue_of LOSSY s = lossy s"

fun set_queue :: "lane \<Rightarrow> bus_event aqueue \<Rightarrow> 'a bus_scheme \<Rightarrow> 'a bus_scheme" where
  "set_queue LOSSLESS q s = s\<lparr>lossless := q\<rparr>"
| "set_queue LOSSY q s = s\<lparr>lossy := q\<rparr>"

definition finish :: "lane \<Rightarrow> 'a bus_scheme \<Rightarrow> 'a bus_scheme" where
  "finish l s = set_queue l (done_on (queue_of l s)) s"

fun bus_step :: "bus_act \<Rightarrow> bus_sys \<Rightarrow> bus_sys option" where
  "bus_step (APost e) s = Some ((post e s)\<lparr>accepted :=
     accepted s @ (if \<not> closed s \<and> lane_for s (type_of e) = LOSSLESS then [e] else [])\<rparr>)"
| "bus_step (ASubscribe t h) s = Some (subscribe t h s)"
| "bus_step (AUnsub t h) s = Some (unsub t h s)"
| "bus_step (ARegister t l) s = Some (register_lane t l s)"
| "bus_step AStart s = (if started s then Some s else Some ((start s)\<lparr>alive := \<lambda>_. True\<rparr>))"
| "bus_step (AGet l) s =
     (if \<not> alive s l \<or> fly s l \<noteq> None then None
      else case get_nowait (queue_of l s) of
        None \<Rightarrow> None
      | Some (e, q) \<Rightarrow>
          (let hs = handlers_of s (type_of e) in
           Some ((set_queue l q s)\<lparr>fly := (fly s)(l := Some (e, hs)),
             taken := taken s @ (if l = LOSSLESS then [(e, hs)] else [])\<rparr>)))"
| "bus_step (AHandle l out) s =
     (case fly s l of
        Some (e, h # hs) \<Rightarrow>
          (if out = HCancel
           then Some ((finish l s)\<lparr>fly := (fly s)(l := None), alive := (alive s)(l := False)\<rparr>)
           else Some (s\<lparr>fly := (fly s)(l := Some (e, hs))\<rparr>))
      | _ \<Rightarrow> None)"
| "bus_step (ADone l) s =
     (case fly s l of
        Some (e, []) \<Rightarrow> Some ((finish l s)\<lparr>fly := (fly s)(l := None)\<rparr>)
      | _ \<Rightarrow> None)"
| "bus_step AClose s =
     (if closed s then Some s
      else Some (s\<lparr>closed := True, closer := Some (qsize (lossless s), None)\<rparr>))"
| "bus_step ACloseGet s =
     (case closer s of
        Some (Suc n, None) \<Rightarrow>
          (case get_nowait (lossless s) of
             None \<Rightarrow> Some (s\<lparr>closer := Some (0, None)\<rparr>)
           | Some (e, q) \<Rightarrow>
               (let hs = handlers_of s (type_of e) in
                Some (s\<lparr>lossless := q, closer := Some (n, Some (e, hs)), taken := taken s @ [(e, hs)]\<rparr>)))
      | _ \<Rightarrow> None)"
| "bus_step (ACloseHandle out) s =
     (case closer s of
        Some (n, Some (e, h # hs)) \<Rightarrow>
          (if out = HCancel then Some ((finish LOSSLESS s)\<lparr>closer := None\<rparr>)
           else Some (s\<lparr>closer := Some (n, Some (e, hs))\<rparr>))
      | _ \<Rightarrow> None)"
| "bus_step ACloseDone s =
     (case closer s of
        Some (n, Some (e, [])) \<Rightarrow> Some ((finish LOSSLESS s)\<lparr>closer := Some (n, None)\<rparr>)
      | _ \<Rightarrow> None)"
| "bus_step ACloseEnd s =
     (if closer s = Some (0, None)
      then Some ((if fly s LOSSLESS \<noteq> None then finish LOSSLESS s else s)
             \<lparr>closer := None, drained := True, started := False, alive := \<lambda>_. False, fly := \<lambda>_. None\<rparr>)
      else None)"

definition new_sys :: "int \<Rightarrow> bus_sys" where
  "new_sys n = bus.extend (new_bus n) \<lparr>fly = \<lambda>_. None, alive = \<lambda>_. False, closer = None,
     drained = False, accepted = [], taken = []\<rparr>"

definition bus_init :: "int \<Rightarrow> bus_sys \<Rightarrow> bool" where
  "bus_init n s = (s = new_sys n)"

text \<open>Events of the lossless lane that are out of the queue but not yet marked done.\<close>

fun load :: "'x option \<Rightarrow> nat" where
  "load None = 0"
| "load (Some _) = 1"

fun closer_load :: "(nat \<times> 'x option) option \<Rightarrow> nat" where
  "closer_load None = 0"
| "closer_load (Some (_, f)) = load f"

fun closer_ok :: "(nat \<times> 'x option) option \<Rightarrow> bool \<Rightarrow> nat \<Rightarrow> bool" where
  "closer_ok None _ _ = True"
| "closer_ok (Some (n, _)) cl len = (cl \<and> len \<le> n)"

definition inflight :: "bus_sys \<Rightarrow> nat" where
  "inflight s = load (fly s LOSSLESS) + closer_load (closer s)"

section \<open>Invariants\<close>

text \<open>\<open>bus_wf\<close>: the lossless queue is unbounded, the lossy one within its bound.\<close>

definition bus_wf :: "'a bus_scheme \<Rightarrow> bool" where
  "bus_wf b \<longleftrightarrow> maxsize (lossless b) = 0 \<and>
     (0 < maxsize (lossy b) \<longrightarrow> int (length (items (lossy b))) \<le> maxsize (lossy b))"

definition sys_inv :: "bus_sys \<Rightarrow> bool" where
  "sys_inv s \<longleftrightarrow> bus_wf s
     \<and> accepted s = map fst (taken s) @ items (lossless s)
     \<and> unfinished (lossless s) = length (items (lossless s)) + inflight s
     \<and> closer_ok (closer s) (closed s) (length (items (lossless s)))
     \<and> (drained s \<longrightarrow> closed s \<and> items (lossless s) = [])"

lemma closer_ok_open [simp]: "closer_ok c False n \<longleftrightarrow> c = None"
  by (cases c) auto

lemma closer_ok_Suc: "closer_ok c b (Suc n) \<Longrightarrow> closer_ok c b n"
  by (cases c) auto

lemma post_wf [simp]: "bus_wf b \<Longrightarrow> bus_wf (post e b)"
  by (auto simp: bus_wf_def post_def put_nowait_def get_nowait_def qfull_def Let_def
      split: option.splits list.splits if_splits)

lemma post_fields [simp]:
  "closed (post e b) = closed b" "lanes (post e b) = lanes b" "handlers (post e b) = handlers b"
  "started (post e b) = started b" "lane_for (post e b) t = lane_for b t"
  by (auto simp: post_def Let_def lane_for_def split: option.splits)

lemma post_lossless:
  "bus_wf b \<Longrightarrow> lossless (post e b) =
     (if \<not> closed b \<and> lane_for b (type_of e) = LOSSLESS
      then (lossless b)\<lparr>items := items (lossless b) @ [e], unfinished := Suc (unfinished (lossless b))\<rparr>
      else lossless b)"
  by (auto simp: post_def bus_wf_def Let_def split: option.splits)

lemma post_closed [simp]: "closed b \<Longrightarrow> post e b = b"
  by (simp add: post_def)

lemma post_sys [simp]:
  "fly (post e s) = fly s" "alive (post e s) = alive s" "closer (post e s) = closer s"
  "drained (post e s) = drained s" "accepted (post e s) = accepted s" "taken (post e s) = taken s"
  by (auto simp: post_def Let_def split: option.splits)

lemma sub_wf [simp]:
  "bus_wf b \<Longrightarrow> bus_wf (subscribe t h b)" "bus_wf b \<Longrightarrow> bus_wf (unsub t h b)"
  by (auto simp: bus_defs bus_wf_def split: option.splits)

lemma apply_call_wf [simp]: "bus_wf b \<Longrightarrow> bus_wf (apply_call c b)"
  by (cases c) simp_all

lemma apply_call_closed [simp]: "closed (apply_call c b) = closed b"
  by (cases c) (simp_all add: bus_defs split: option.splits)

lemma apply_call_frozen [simp]: "closed b \<Longrightarrow> lossless (apply_call c b) = lossless b"
  by (cases c) (simp_all add: bus_defs split: option.splits)

lemma done_on_items [simp]:
  "items (done_on q) = items q" "maxsize (done_on q) = maxsize q" "unfinished (done_on q) = unfinished q - 1"
  by (auto simp: done_on_def task_done_def)

lemma set_queue_sys [simp]:
  "fly (set_queue l q s) = fly s" "alive (set_queue l q s) = alive s"
  "closer (set_queue l q s) = closer s" "drained (set_queue l q s) = drained s"
  "accepted (set_queue l q s) = accepted s" "taken (set_queue l q s) = taken s"
  "closed (set_queue l q s) = closed s"
  by (cases l; simp)+

lemma init_sys_inv: "bus_init n s \<Longrightarrow> sys_inv s"
  by (simp add: bus_init_def new_sys_def new_bus_def new_queue_def sys_inv_def bus_wf_def
      inflight_def bus.defs)

lemma post_step_inv:
  assumes inv: "sys_inv s"
  shows "sys_inv ((post e s)\<lparr>accepted :=
     accepted s @ (if \<not> closed s \<and> lane_for s (type_of e) = LOSSLESS then [e] else [])\<rparr>)"
proof (cases "closed s")
  case True
  with inv show ?thesis by (simp add: sys_inv_def bus_wf_def inflight_def)
next
  case False
  from inv have wf: "bus_wf s" by (simp add: sys_inv_def)
  from post_wf [OF wf, of e] inv False show ?thesis
    by (auto simp: sys_inv_def bus_wf_def inflight_def post_lossless [OF wf])
qed

lemma get_step_inv:
  assumes inv: "sys_inv s" and st: "bus_step (AGet l) s = Some s'"
  shows "sys_inv s'"
proof -
  from st obtain e q where f: "fly s l = None" and g: "get_nowait (queue_of l s) = Some (e, q)"
    by (cases "fly s l") (auto split: if_splits option.splits)
  note it = get_nowait_items [OF g]
  show ?thesis
    using inv st f g it
    by (cases l) (auto simp: sys_inv_def bus_wf_def inflight_def Let_def closer_ok_Suc split: if_splits)
qed

lemma handle_step_inv:
  assumes inv: "sys_inv s" and st: "bus_step (AHandle l out) s = Some s'"
  shows "sys_inv s'"
proof -
  from st obtain e h hs where "fly s l = Some (e, h # hs)"
    by (auto split: option.splits list.splits)
  with inv st show ?thesis
    by (cases l) (auto simp: sys_inv_def bus_wf_def inflight_def finish_def split: if_splits)
qed

lemma done_step_inv:
  assumes inv: "sys_inv s" and st: "bus_step (ADone l) s = Some s'"
  shows "sys_inv s'"
proof -
  from st obtain e where "fly s l = Some (e, [])"
    by (auto split: option.splits list.splits)
  with inv st show ?thesis
    by (cases l) (auto simp: sys_inv_def bus_wf_def inflight_def finish_def)
qed

lemma close_step_inv: "sys_inv s \<Longrightarrow> bus_step AClose s = Some s' \<Longrightarrow> sys_inv s'"
  by (auto simp: sys_inv_def bus_wf_def inflight_def qsize_def split: if_splits option.splits)

lemma close_get_step_inv:
  assumes inv: "sys_inv s" and st: "bus_step ACloseGet s = Some s'"
  shows "sys_inv s'"
proof -
  from st obtain n where c: "closer s = Some (Suc n, None)"
    by (auto split: option.splits prod.splits nat.splits)
  show ?thesis
  proof (cases "get_nowait (lossless s)")
    case None
    then have "items (lossless s) = []"
      by (auto simp: get_nowait_def split: list.splits)
    with inv st c None show ?thesis by (auto simp: sys_inv_def bus_wf_def inflight_def)
  next
    case (Some p)
    then obtain e q where g: "get_nowait (lossless s) = Some (e, q)" by (cases p) auto
    with inv st c show ?thesis
      by (auto simp: sys_inv_def bus_wf_def inflight_def Let_def dest!: get_nowait_items)
  qed
qed

lemma close_handle_step_inv:
  assumes inv: "sys_inv s" and st: "bus_step (ACloseHandle out) s = Some s'"
  shows "sys_inv s'"
proof -
  from st obtain n e h hs where "closer s = Some (n, Some (e, h # hs))"
    by (auto split: option.splits list.splits)
  with inv st show ?thesis
    by (auto simp: sys_inv_def bus_wf_def inflight_def finish_def split: if_splits)
qed

lemma close_done_step_inv:
  assumes inv: "sys_inv s" and st: "bus_step ACloseDone s = Some s'"
  shows "sys_inv s'"
proof -
  from st obtain n e where "closer s = Some (n, Some (e, []))"
    by (auto split: option.splits list.splits)
  with inv st show ?thesis
    by (auto simp: sys_inv_def bus_wf_def inflight_def finish_def)
qed

lemma close_end_step_inv:
  assumes inv: "sys_inv s" and st: "bus_step ACloseEnd s = Some s'"
  shows "sys_inv s'"
proof -
  from st have "closer s = Some (0, None)" by (auto split: if_splits)
  with inv st show ?thesis
    by (cases "fly s LOSSLESS") (auto simp: sys_inv_def bus_wf_def inflight_def finish_def)
qed

lemmas closing_step_invs = close_step_inv close_get_step_inv close_handle_step_inv
  close_done_step_inv close_end_step_inv

lemma registration_step_inv:
  "sys_inv s \<Longrightarrow> sys_inv (subscribe t h s)" "sys_inv s \<Longrightarrow> sys_inv (unsub t h s)"
  "sys_inv s \<Longrightarrow> sys_inv (register_lane t l s)" "sys_inv s \<Longrightarrow> sys_inv ((start s)\<lparr>alive := f\<rparr>)"
  by (auto simp: sys_inv_def bus_wf_def inflight_def bus_defs start_def split: option.splits)

lemma bus_step_inv:
  assumes inv: "sys_inv s" and st: "bus_step a s = Some s'"
  shows "sys_inv s'"
proof (cases a)
  case (APost e)
  with st post_step_inv [OF inv, of e] show ?thesis by simp
next
  case (AGet l)
  with st get_step_inv [OF inv] show ?thesis by blast
next
  case (AHandle l out)
  with st handle_step_inv [OF inv] show ?thesis by blast
next
  case (ADone l)
  with st done_step_inv [OF inv] show ?thesis by blast
next
  case AStart
  with st inv show ?thesis by (auto simp: registration_step_inv split: if_splits)
next
  case (ACloseHandle out)
  with st closing_step_invs [OF inv] show ?thesis by blast
next
  case (ASubscribe t h)
  with st registration_step_inv(1-3) [OF inv] show ?thesis by auto
next
  case (AUnsub t h)
  with st registration_step_inv(1-3) [OF inv] show ?thesis by auto
next
  case (ARegister t l)
  with st registration_step_inv(1-3) [OF inv] show ?thesis by auto
next
  case AClose
  with st closing_step_invs [OF inv] show ?thesis by blast
next
  case ACloseGet
  with st closing_step_invs [OF inv] show ?thesis by blast
next
  case ACloseDone
  with st closing_step_invs [OF inv] show ?thesis by blast
next
  case ACloseEnd
  with st closing_step_invs [OF inv] show ?thesis by blast
qed

interpretation bus_sys_inv: invariant_of "bus_init n" bus_step sys_inv
  by unfold_locales (auto intro: init_sys_inv bus_step_inv)

section \<open>The lossy lane\<close>

lemma post_lossy:
  assumes "bus_wf b" "\<not> closed b" "lane_for b (type_of e) = LOSSY" "0 < maxsize (lossy b)"
  shows "items (lossy (post e b)) =
           (if int (length (items (lossy b))) < maxsize (lossy b) then items (lossy b) @ [e]
            else tl (items (lossy b)) @ [e])
    \<and> dropped (post e b) =
           (if int (length (items (lossy b))) < maxsize (lossy b) then dropped b else dropped b + 1)
    \<and> maxsize (lossy (post e b)) = maxsize (lossy b)"
  using assms
  by (cases "items (lossy b)")
    (auto simp: post_def put_nowait_def get_nowait_def qfull_def bus_wf_def Let_def
      split: option.splits if_splits)

text \<open>Posting a burst: the lane keeps the newest \<open>maxsize\<close> events and counts the rest.\<close>

lemma burst_lossy:
  assumes "bus_wf b" "\<not> closed b" "\<forall>e \<in> set es. lane_for b (type_of e) = LOSSY"
    and "0 < maxsize (lossy b)"
  shows "let over = length (items (lossy b) @ es) - nat (maxsize (lossy b)) in
     items (lossy (fold post es b)) = drop over (items (lossy b) @ es)
   \<and> dropped (fold post es b) = dropped b + over"
  using assms
proof (induction es arbitrary: b)
  case Nil
  then have "length (items (lossy b)) \<le> nat (maxsize (lossy b))"
    by (simp add: bus_wf_def le_nat_iff)
  then show ?case by simp
next
  case (Cons e es)
  have p: "bus_wf (post e b)" "\<not> closed (post e b)"
    "\<forall>e' \<in> set es. lane_for (post e b) (type_of e') = LOSSY"
    using Cons.prems by auto
  note q = post_lossy [OF Cons.prems(1,2) _ Cons.prems(4), of e]
  have le: "int (length (items (lossy b))) \<le> maxsize (lossy b)"
    using Cons.prems by (simp add: bus_wf_def)
  show ?case
  proof (cases "int (length (items (lossy b))) < maxsize (lossy b)")
    case True
    then show ?thesis
      using Cons.IH [OF p] q Cons.prems by (simp add: Let_def)
  next
    case False
    then obtain x xs where it: "items (lossy b) = x # xs" "nat (maxsize (lossy b)) = Suc (length xs)"
      using le Cons.prems(4) by (cases "items (lossy b)") auto
    then show ?thesis
      using False Cons.IH [OF p] q Cons.prems by (simp add: Let_def)
  qed
qed

section \<open>Delivery and closing\<close>

lemma deliver_to_log:
  assumes "\<forall>h \<in> set hs. snd (hc h e) \<noteq> HCancel"
  shows "fst (deliver_to hc e hs b) = map (\<lambda>h. (h, e)) hs \<and> \<not> fst (snd (deliver_to hc e hs b))"
  using assms
proof (induction hs arbitrary: b)
  case (Cons h hs)
  obtain cs out where hc: "hc h e = (cs, out)" by fastforce
  obtain l1 c1 b1 where d: "deliver_to hc e hs (fold apply_call cs b) = (l1, c1, b1)"
    by (metis prod_cases3)
  with Cons.IH [of "fold apply_call cs b"] Cons.prems
  have "l1 = map (\<lambda>h. (h, e)) hs" "\<not> c1" by auto
  with Cons.prems hc d show ?case by (cases out) auto
qed simp

lemma fold_calls_frozen:
  "closed b \<Longrightarrow> lossless (fold apply_call cs b) = lossless b \<and> closed (fold apply_call cs b)"
  by (induction cs arbitrary: b) auto

lemma deliver_to_frozen:
  "closed b \<Longrightarrow> deliver_to hc e hs b = (lg, c, b') \<Longrightarrow> lossless b' = lossless b \<and> closed b'"
proof (induction hs arbitrary: b lg c b')
  case (Cons h hs)
  obtain cs out where hc: "hc h e = (cs, out)" by fastforce
  let ?b = "fold apply_call cs b"
  obtain l1 c1 b1 where d: "deliver_to hc e hs ?b = (l1, c1, b1)" by (metis prod_cases3)
  have f: "lossless ?b = lossless b" "closed ?b"
    using fold_calls_frozen [OF Cons.prems(1)] by auto
  have "b' = ?b \<or> b' = b1"
    using Cons.prems(2) hc d by (cases out) auto
  with f Cons.IH [OF f(2) d] show ?case by auto
qed simp

lemma aclose_drain_all:
  assumes "\<And>h e. snd (hc h e) \<noteq> HCancel" and "closed b" and "length (items (lossless b)) \<le> n"
    and "aclose_drain hc n b = (lg, c, b')"
  shows "\<not> c \<and> map fst lg = items (lossless b) \<and> items (lossless b') = [] \<and> closed b'"
  using assms(2-)
proof (induction n arbitrary: b lg c b')
  case (Suc n)
  show ?case
  proof (cases "items (lossless b)")
    case Nil
    with Suc.prems show ?thesis by (auto simp: get_nowait_def)
  next
    case (Cons e es)
    define b0 where "b0 = b\<lparr>lossless := (lossless b)\<lparr>items := es\<rparr>\<rparr>"
    have g: "get_nowait (lossless b) = Some (e, (lossless b)\<lparr>items := es\<rparr>)"
      using Cons by (simp add: get_nowait_def)
    obtain l1 c1 b1 where d: "deliver hc e b0 = (l1, c1, b1)" by (metis prod_cases3)
    have nc: "\<not> c1"
      using deliver_to_log [of "handlers_of b0 (type_of e)" hc e b0] assms(1) d
      by (auto simp: deliver_def)
    have b1: "lossless b1 = lossless b0" "closed b1"
      using deliver_to_frozen [of b0 hc e _ l1 c1 b1] d Suc.prems(1)
      by (auto simp: deliver_def b0_def)
    define b2 where "b2 = b1\<lparr>lossless := done_on (lossless b1)\<rparr>"
    obtain l2 c2 b3 where r: "aclose_drain hc n b2 = (l2, c2, b3)" by (metis prod_cases3)
    have "\<not> c2 \<and> map fst l2 = es \<and> items (lossless b3) = [] \<and> closed b3"
      using Suc.IH [of b2 l2 c2 b3] r b1 Suc.prems(2) Cons by (simp add: b2_def b0_def)
    moreover have "(lg, c, b') = ((e, l1) # l2, c2, b3)"
      using Suc.prems(3) g d nc r by (simp add: b0_def b2_def Let_def)
    ultimately show ?thesis using Cons by simp
  qed
qed auto

section \<open>Properties\<close>

text \<open>C3. In every schedule of the dispatchers, the closing task and any number of posters,
  the events accepted on the lossless lane are exactly those already dequeued for
  delivery, in the order posted, followed by those still queued: none is dropped,
  duplicated or reordered. Once \<open>aclose\<close> has finished, all of them have been dequeued; and
  \<^verbatim>\<open>task_done\<close> is never called more often than events were put.\<close>

theorem lossless_never_drops:
  assumes "reach (bus_init n) bus_step s"
  shows "accepted s = map fst (taken s) @ items (lossless s)
    \<and> (drained s \<longrightarrow> accepted s = map fst (taken s))
    \<and> length (items (lossless s)) \<le> unfinished (lossless s)"
  using bus_sys_inv.reach_inv [OF assms] by (auto simp: sys_inv_def)

theorem lossless_never_drops_witness:
  "\<exists>s. reach (bus_init 1) bus_step s \<and> drained s
     \<and> accepted s = [AsrFinal (lit ''hi''), Connected]
     \<and> accepted s = map fst (taken s) @ items (lossless s)"
proof -
  let ?acts = "[ASubscribe TAsrFinal 7, AStart, APost (AsrFinal (lit ''hi'')), APost Connected,
    AGet LOSSLESS, AHandle LOSSLESS (HRaise ValueError), ADone LOSSLESS, AClose,
    APost (AsrFinal (lit ''late'')), ACloseGet, ACloseDone, ACloseEnd]"
  obtain s where s: "run_acts bus_step ?acts (new_sys 1) = Some s" and d: "drained s"
    and a: "accepted s = [AsrFinal (lit ''hi''), Connected]"
    by (simp add: new_sys_def new_bus_def new_queue_def bus.defs bus_defs start_def post_def
        lane_for_def put_nowait_def get_nowait_def qfull_def qsize_def finish_def done_on_def
        task_done_def Let_def)
  have r: "reach (bus_init 1) bus_step s"
    by (rule reach_run_acts [OF reach_init s]) (simp add: bus_init_def)
  show ?thesis
    using lossless_never_drops [OF r] r d a by auto
qed

text \<open>On the lossy lane a burst of posts keeps exactly the newest \<open>maxsize\<close> events in
  order and adds one to \<open>dropped\<close> for each event discarded, so the lane is bounded and
  every loss is counted.\<close>

theorem lossy_keeps_newest:
  assumes "bus_wf b" "\<not> closed b" "\<forall>e \<in> set es. lane_for b (type_of e) = LOSSY"
    and "maxsize (lossy b) = int m" "0 < m" "items (lossy b) = []"
  shows "items (lossy (fold post es b)) = drop (length es - m) es
    \<and> length (items (lossy (fold post es b))) \<le> m
    \<and> dropped (fold post es b) = dropped b + (length es - m)"
  using burst_lossy [of b es] assms by (auto simp: Let_def)

theorem lossy_keeps_newest_witness:
  "let b = register_lane TAsrPartial LOSSY (new_bus 2);
       es = map (\<lambda>n. AsrPartial [n]) [1, 2, 3]
   in items (lossy (fold post es b)) = [AsrPartial [2], AsrPartial [3]]
      \<and> dropped (fold post es b) = 1"
  using lossy_keeps_newest
    [of "register_lane TAsrPartial LOSSY (new_bus 2)" "map (\<lambda>n. AsrPartial [n]) [1, 2, 3]" 2]
  by (simp add: new_bus_def new_queue_def bus_wf_def register_lane_def lane_for_def Let_def
      numeral_2_eq_2 del: fold_simps)

text \<open>A handler that raises never stops its siblings: unless a handler is cancelled,
  every handler registered when delivery starts is called exactly once, in registration
  order, whatever the earlier ones raised, subscribed or unsubscribed.\<close>

theorem deliver_isolates_handlers:
  assumes "\<forall>h \<in> set (handlers_of b (type_of e)). snd (hc h e) \<noteq> HCancel"
  shows "fst (deliver hc e b) = map (\<lambda>h. (h, e)) (handlers_of b (type_of e))
    \<and> \<not> fst (snd (deliver hc e b))"
  unfolding deliver_def using assms by (rule deliver_to_log)

theorem deliver_isolates_handlers_witness:
  "let b = subscribe TConnected 2 (subscribe TConnected 1 (new_bus 4));
       hc = (\<lambda>h e. ([BUnsub TConnected 2], HRaise ValueError))
   in fst (deliver hc Connected b) = [(1, Connected), (2, Connected)]"
  using deliver_isolates_handlers
    [of "subscribe TConnected 2 (subscribe TConnected 1 (new_bus 4))" Connected
      "\<lambda>h e. ([BUnsub TConnected 2], HRaise ValueError)"]
  by (simp add: bus_defs new_bus_def Let_def)

text \<open>Closing always returns, and delivers exactly the events that were pending on the
  lossless lane when it was called, in order: handlers that post while it drains cannot
  extend the drain, because the bus is already closed to posts.\<close>

theorem aclose_delivers_pending:
  assumes "\<And>h e. snd (hc h e) \<noteq> HCancel" and "\<not> closed b"
    and "aclose hc b = (lg, c, b')"
  shows "\<not> c \<and> map fst lg = items (lossless b) \<and> items (lossless b') = [] \<and> closed b'
    \<and> \<not> started b'"
proof -
  obtain l1 c1 b1 where d: "aclose_drain hc (qsize (lossless b)) (b\<lparr>closed := True\<rparr>) = (l1, c1, b1)"
    by (metis prod_cases3)
  have "\<not> c1 \<and> map fst l1 = items (lossless b) \<and> items (lossless b1) = [] \<and> closed b1"
    using aclose_drain_all [OF assms(1) _ _ d] by (simp add: qsize_def)
  with assms(2,3) d show ?thesis by (auto simp: aclose_def Let_def)
qed

theorem aclose_delivers_pending_witness:
  "let b = post (AsrFinal (lit ''a'')) (subscribe TAsrFinal 1 (new_bus 4));
       hc = (\<lambda>h e. ([BPost (AsrFinal (lit ''again''))], HOk))
   in map fst (fst (aclose hc b)) = [AsrFinal (lit ''a'')]"
proof -
  define b where "b = post (AsrFinal (lit ''a'')) (subscribe TAsrFinal 1 (new_bus 4))"
  define hc :: hcall where "hc = (\<lambda>h e. ([BPost (AsrFinal (lit ''again''))], HOk))"
  obtain lg c b' where r: "aclose hc b = (lg, c, b')" by (metis prod_cases3)
  have "\<not> closed b" "items (lossless b) = [AsrFinal (lit ''a'')]"
    by (simp_all add: b_def post_def bus_defs new_bus_def new_queue_def lane_for_def
        put_nowait_def qfull_def)
  then have "map fst lg = [AsrFinal (lit ''a'')]"
    using aclose_delivers_pending [OF _ _ r] by (simp add: hc_def)
  with r show ?thesis unfolding Let_def b_def [symmetric] hc_def [symmetric] by simp
qed

end
