(* ===== verification/Call_State.thy ===== *)
theory Call_State
  imports Event_Bus
begin

text \<open>
  The per-call session object and its state machine (\<^verbatim>\<open>call_session.py\<close>,
  \<^verbatim>\<open>state_machine.py\<close>).

  \<open>call_session\<close> has the fields of the dataclass \<^verbatim>\<open>CallSession\<close>; an \<^verbatim>\<open>asyncio.Task\<close> stored
  in it is represented by its status. \<open>append_event\<close> is the transcript writer with its
  schema check (the pydantic adapter is the parameter \<open>valid_event\<close>) in strict and in
  production mode; \<open>record_event\<close> is its production behaviour, which the call logic uses
  (\<open>append_event_production\<close> links the two). \<open>transition_to\<close> is the sole state writer.

  Shown: \<open>dialog_history\<close> is always the projection of \<open>full_transcript\<close>; the state history
  is a connected chain without self loops from \<open>INIT\<close> to the current state; a transition
  outside the legal table still happens and leaves exactly one warning.
\<close>

named_theorems session_defs \<open>unfolding of the session operations\<close>

section \<open>States\<close>

datatype call_status = INIT | IN_CALL | TRANSFERRING | END

fun status_value :: "call_status \<Rightarrow> pystr" where
  "status_value INIT = lit ''init''"
| "status_value IN_CALL = lit ''in_call''"
| "status_value TRANSFERRING = lit ''transferring''"
| "status_value END = lit ''end''"

fun legal_transitions :: "call_status \<Rightarrow> call_status list" where
  "legal_transitions INIT = [IN_CALL, END]"
| "legal_transitions IN_CALL = [TRANSFERRING, END]"
| "legal_transitions TRANSFERRING = [END]"
| "legal_transitions END = []"

section \<open>The session\<close>

definition transcript_event_types :: "pystr list" where
  "transcript_event_types = map lit [''greeting'', ''user_speech'', ''ai_reply'', ''interruption'',
     ''filler'', ''default_reply_used'', ''silence_activation'', ''transfer_initiated'',
     ''transfer_marked'', ''goal_achieved'', ''wrap_up_started'', ''wrap_up_completed'', ''hangup'',
     ''state_error'', ''state_warning'']"

definition dialog_event_types :: "pystr list" where
  "dialog_event_types = map lit [''greeting'', ''user_speech'', ''ai_reply'']"

record dialog_turn =
  role :: pystr
  turn_text :: pystr
  ts_ms :: int

type_synonym event = "(pystr \<times> pyval) list"

datatype task_status = TaskRunning | TaskDone | TaskCancelRequested

record call_session =
  call_record_id :: int
  campaign_id :: int
  lead_id :: int
  caller_id :: pystr
  prompt_versions_snapshot :: "(pystr \<times> pyval) list"
  device_id :: int
  extractor_role_config_id :: int
  extractor_prompt_version_id :: int
  state :: call_status
  previous_state :: "call_status option"
  state_history :: "(call_status \<times> call_status \<times> pystr option) list"
  dialog_history :: "dialog_turn list"
  full_transcript :: "event list"
  pipeline_trace_records :: "event list"
  used_filler_phrases :: "pystr set"
  silence_activation_count :: nat
  silence_started_at :: "clock option"
  consecutive_interruption_count :: int
  last_user_speech_end_at :: "clock option"
  last_tts_end_at :: "clock option"
  wrap_up_round_count :: int
  wrap_up_started_at_monotonic :: "clock option"
  in_wrap_up :: bool
  current_turn_id :: int
  hangup_cause :: "pystr option"
  transfer_status :: pystr
  transfer_reason :: "pystr option"
  wrap_up_started_at_wallclock :: "clock option"
  tasks :: "string \<rightharpoonup> task_status"
  session_bus :: bus
  current_speaking_task :: "task_status option"
  interruption_signaled :: bool
  in_processing_turn :: bool
  current_user_speech_started_ms :: "int option"
  interrupt_remaining_text :: "pystr option"
  consecutive_restructure_count :: int
  vad_voice_active_ms :: int
  total_tokens_in :: int
  total_tokens_out :: int
  token_budget_per_call :: int
  call_started_at_monotonic :: clock

text \<open>The dataclass defaults; the arguments are the fields without one, and the clock
  reading of the constructor.\<close>

definition new_session :: "int \<Rightarrow> int \<Rightarrow> int \<Rightarrow> pystr \<Rightarrow> (pystr \<times> pyval) list \<Rightarrow> clock \<Rightarrow> call_session" where
  "new_session cid camp lead caller snap t =
    \<lparr>call_record_id = cid, campaign_id = camp, lead_id = lead, caller_id = caller,
     prompt_versions_snapshot = snap, device_id = 0, extractor_role_config_id = 0,
     extractor_prompt_version_id = 0, state = INIT, previous_state = None, state_history = [],
     dialog_history = [], full_transcript = [], pipeline_trace_records = [],
     used_filler_phrases = {}, silence_activation_count = 0, silence_started_at = None,
     consecutive_interruption_count = 0, last_user_speech_end_at = None, last_tts_end_at = None,
     wrap_up_round_count = 0, wrap_up_started_at_monotonic = None, in_wrap_up = False,
     current_turn_id = 0, hangup_cause = None, transfer_status = lit ''none'',
     transfer_reason = None, wrap_up_started_at_wallclock = None, tasks = Map.empty,
     session_bus = new_bus 256, current_speaking_task = None, interruption_signaled = False,
     in_processing_turn = False, current_user_speech_started_ms = None,
     interrupt_remaining_text = None, consecutive_restructure_count = 0, vad_voice_active_ms = 0,
     total_tokens_in = 0, total_tokens_out = 0, token_budget_per_call = 0,
     call_started_at_monotonic = t\<rparr>"

section \<open>The transcript\<close>

text \<open>\<open>SchemaError\<close> is pydantic's \<^verbatim>\<open>ValidationError\<close>, re-raised in strict mode only.\<close>

abbreviation SchemaError :: pyerr where
  "SchemaError \<equiv> OtherErr (lit ''ValidationError'')"

definition event_dict :: "pystr \<Rightarrow> int \<Rightarrow> event \<Rightarrow> event" where
  "event_dict ty ts kvs = dmerge [(lit ''type'', PStr ty), (lit ''ts'', PInt ts)] kvs"

definition event_text :: "pyenv \<Rightarrow> event \<Rightarrow> pystr" where
  "event_text E kvs = (case map_of kvs (lit ''text'') of None \<Rightarrow> [] | Some v \<Rightarrow> py_str E v)"

definition event_role :: "pystr \<Rightarrow> pystr" where
  "event_role ty = (if ty = lit ''user_speech'' then lit ''user'' else lit ''assistant'')"

definition store_event :: "pyenv \<Rightarrow> clock \<Rightarrow> pystr \<Rightarrow> event \<Rightarrow> 'a call_session_scheme \<Rightarrow> 'a call_session_scheme" where
  "store_event E now ty kvs s =
     (let ts = elapsed_ms (call_started_at_monotonic s) now;
          s1 = s\<lparr>full_transcript := full_transcript s @ [event_dict ty ts kvs]\<rparr>
      in if ty \<in> set dialog_event_types
         then s1\<lparr>dialog_history := dialog_history s @
                [\<lparr>role = event_role ty, turn_text = event_text E kvs, ts_ms = ts\<rparr>]\<rparr>
         else s1)"

definition append_event :: "pyenv \<Rightarrow> bool \<Rightarrow> (event \<Rightarrow> bool) \<Rightarrow> clock \<Rightarrow> pystr \<Rightarrow> event
    \<Rightarrow> 'a call_session_scheme \<Rightarrow> 'a call_session_scheme res" where
  "append_event E strict valid_event now ty kvs s =
     (if ty \<notin> set transcript_event_types then Inl ValueError
      else if \<not> valid_event (event_dict ty (elapsed_ms (call_started_at_monotonic s) now) kvs) \<and> strict
      then Inl SchemaError
      else Inr (store_event E now ty kvs s))"

text \<open>Production mode for the known event types: the event is stored whatever the schema says.\<close>

definition record_event :: "pyenv \<Rightarrow> clock \<Rightarrow> string \<Rightarrow> event \<Rightarrow> 'a call_session_scheme \<Rightarrow> 'a call_session_scheme" where
  "record_event E now ty kvs s = store_event E now (lit ty) kvs s"

section \<open>The state machine\<close>

definition transition_to :: "pyenv \<Rightarrow> clock \<Rightarrow> call_status \<Rightarrow> pystr option
    \<Rightarrow> 'a call_session_scheme \<Rightarrow> 'a call_session_scheme" where
  "transition_to E now new_state reason s =
     (let current = state s in
      if new_state = current then s
      else (let s1 = (if new_state \<notin> set (legal_transitions current)
                then record_event E now ''state_warning''
                       [(lit ''attempted'', PStr (case reason of
                            Some r \<Rightarrow> if r = [] then lit ''transition'' else r
                          | None \<Rightarrow> lit ''transition'')),
                        (lit ''from_state'', PStr (status_value current)),
                        (lit ''to_state'', PStr (status_value new_state))] s
                else s)
            in s1\<lparr>previous_state := Some current, state := new_state,
                  state_history := state_history s1 @ [(current, new_state, reason)]\<rparr>))"

lemmas [session_defs] = store_event_def record_event_def transition_to_def Let_def

section \<open>The contract of an advisory state machine\<close>

text \<open>\<open>chain a h b\<close>: the history \<open>h\<close> leads from \<open>a\<close> to \<open>b\<close> without gaps or self loops.\<close>

fun chain :: "'st \<Rightarrow> ('st \<times> 'st \<times> 'r) list \<Rightarrow> 'st \<Rightarrow> bool" where
  "chain a [] b = (a = b)"
| "chain a ((x, y, r) # h) b = (x = a \<and> y \<noteq> x \<and> chain y h b)"

definition unusual :: "('st \<Rightarrow> 'st \<Rightarrow> bool) \<Rightarrow> ('st \<times> 'st \<times> 'r) list \<Rightarrow> nat" where
  "unusual legal h = length (filter (\<lambda>(x, y, r). \<not> legal x y) h)"

lemma chain_snoc: "chain a h b \<Longrightarrow> c \<noteq> b \<Longrightarrow> chain a (h @ [(b, c, r)]) c"
  by (induction a h b rule: chain.induct) auto

lemma unusual_snoc [simp]:
  "unusual legal (h @ [(x, y, r)]) = unusual legal h + (if legal x y then 0 else 1)"
  by (simp add: unusual_def)

locale advisory_fsm =
  fixes cur :: "'s \<Rightarrow> 'st"
    and hist :: "'s \<Rightarrow> ('st \<times> 'st \<times> 'r) list"
    and warned :: "'s \<Rightarrow> nat"
    and legal :: "'st \<Rightarrow> 'st \<Rightarrow> bool"
    and go :: "'st \<Rightarrow> 'r \<Rightarrow> 's \<Rightarrow> 's"
  assumes go_same: "cur s = st \<Longrightarrow> go st r s = s"
    and go_cur: "cur (go st r s) = st"
    and go_hist: "cur s \<noteq> st \<Longrightarrow> hist (go st r s) = hist s @ [(cur s, st, r)]"
    and go_warned: "cur s \<noteq> st \<Longrightarrow> warned (go st r s) = warned s + (if legal (cur s) st then 0 else 1)"
begin

definition consistent :: "'st \<Rightarrow> 's \<Rightarrow> bool" where
  "consistent a s \<longleftrightarrow> chain a (hist s) (cur s) \<and> warned s = unusual legal (hist s)"

lemma go_consistent: "consistent a s \<Longrightarrow> consistent a (go st r s)"
  unfolding consistent_def
  by (cases "cur s = st") (auto simp: go_same go_cur go_hist go_warned intro: chain_snoc)

lemma run_consistent: "consistent a s \<Longrightarrow> consistent a (fold (\<lambda>(st, r). go st r) reqs s)"
  by (induction reqs arbitrary: s) (auto intro: go_consistent)

lemma run_cur: "cur (fold (\<lambda>(st, r). go st r) reqs s) = (if reqs = [] then cur s else fst (last reqs))"
  by (induction reqs arbitrary: s) (auto simp: go_cur)

text \<open>With a rank that every legal step lowers, a run without warnings is short.\<close>

lemma legal_chain_length:
  fixes rank :: "'st \<Rightarrow> nat"
  assumes "\<And>x y. legal x y \<Longrightarrow> rank y < rank x"
  shows "chain a h b \<Longrightarrow> unusual legal h = 0 \<Longrightarrow> length h + rank b \<le> rank a"
proof (induction a h b rule: chain.induct)
  case (2 a x y r h b)
  then have "legal a y" by (auto simp: unusual_def split: if_splits)
  then have "rank y < rank a" by (rule assms)
  moreover have "length h + rank b \<le> rank y"
    using 2 by (auto simp: unusual_def split: if_splits)
  ultimately show ?case by simp
qed simp

end

definition event_is :: "string \<Rightarrow> event \<Rightarrow> bool" where
  "event_is ty ev = (dget ev (lit ''type'') = PStr (lit ty))"

definition warnings :: "'a call_session_scheme \<Rightarrow> nat" where
  "warnings s = length (filter (event_is ''state_warning'') (full_transcript s))"

definition legal_step :: "call_status \<Rightarrow> call_status \<Rightarrow> bool" where
  "legal_step x y = (y \<in> set (legal_transitions x))"

text \<open>Fields a caller of the transcript writer may pass: distinct keys, none of them \<open>type\<close> or
  \<open>ts\<close> (which a keyword argument of that name would overwrite).\<close>

definition plain_fields :: "event \<Rightarrow> bool" where
  "plain_fields kvs \<longleftrightarrow> distinct (map fst kvs) \<and> lit ''type'' \<notin> fst ` set kvs \<and> lit ''ts'' \<notin> fst ` set kvs"

lemma event_dict_type [simp]: "plain_fields kvs \<Longrightarrow> dget (event_dict ty ts kvs) (lit ''type'') = PStr ty"
  by (simp add: plain_fields_def event_dict_def dget_dmerge_other)

lemma event_dict_ts [simp]: "plain_fields kvs \<Longrightarrow> dget (event_dict ty ts kvs) (lit ''ts'') = PInt ts"
  by (simp add: plain_fields_def event_dict_def dget_dmerge_other)

lemma event_is_dict [simp]: "plain_fields kvs \<Longrightarrow> event_is t (event_dict (lit ty) ts kvs) \<longleftrightarrow> ty = t"
  by (auto simp: event_is_def)

lemma event_text_dict [simp]: "plain_fields kvs \<Longrightarrow> event_text E (event_dict ty ts kvs) = event_text E kvs"
  by (auto simp: plain_fields_def event_dict_def event_text_def map_of_dmerge image_iff map_of_eq_None_iff
      split: option.splits)

lemma record_event_fields [simp]:
  "state (record_event E now ty kvs s) = state s"
  "previous_state (record_event E now ty kvs s) = previous_state s"
  "state_history (record_event E now ty kvs s) = state_history s"
  "full_transcript (record_event E now ty kvs s) =
     full_transcript s @ [event_dict (lit ty) (elapsed_ms (call_started_at_monotonic s) now) kvs]"
  "call_started_at_monotonic (record_event E now ty kvs s) = call_started_at_monotonic s"
  by (simp_all add: session_defs)

lemma record_event_frame [simp]:
  "call_record_id (record_event E now ty kvs s) = call_record_id s"
  "campaign_id (record_event E now ty kvs s) = campaign_id s"
  "lead_id (record_event E now ty kvs s) = lead_id s"
  "caller_id (record_event E now ty kvs s) = caller_id s"
  "prompt_versions_snapshot (record_event E now ty kvs s) = prompt_versions_snapshot s"
  "device_id (record_event E now ty kvs s) = device_id s"
  "extractor_role_config_id (record_event E now ty kvs s) = extractor_role_config_id s"
  "extractor_prompt_version_id (record_event E now ty kvs s) = extractor_prompt_version_id s"
  "pipeline_trace_records (record_event E now ty kvs s) = pipeline_trace_records s"
  "used_filler_phrases (record_event E now ty kvs s) = used_filler_phrases s"
  "silence_activation_count (record_event E now ty kvs s) = silence_activation_count s"
  "silence_started_at (record_event E now ty kvs s) = silence_started_at s"
  "consecutive_interruption_count (record_event E now ty kvs s) = consecutive_interruption_count s"
  "last_user_speech_end_at (record_event E now ty kvs s) = last_user_speech_end_at s"
  "last_tts_end_at (record_event E now ty kvs s) = last_tts_end_at s"
  "wrap_up_round_count (record_event E now ty kvs s) = wrap_up_round_count s"
  "wrap_up_started_at_monotonic (record_event E now ty kvs s) = wrap_up_started_at_monotonic s"
  "in_wrap_up (record_event E now ty kvs s) = in_wrap_up s"
  "current_turn_id (record_event E now ty kvs s) = current_turn_id s"
  "hangup_cause (record_event E now ty kvs s) = hangup_cause s"
  "transfer_status (record_event E now ty kvs s) = transfer_status s"
  "transfer_reason (record_event E now ty kvs s) = transfer_reason s"
  "wrap_up_started_at_wallclock (record_event E now ty kvs s) = wrap_up_started_at_wallclock s"
  "tasks (record_event E now ty kvs s) = tasks s"
  "session_bus (record_event E now ty kvs s) = session_bus s"
  "current_speaking_task (record_event E now ty kvs s) = current_speaking_task s"
  "interruption_signaled (record_event E now ty kvs s) = interruption_signaled s"
  "in_processing_turn (record_event E now ty kvs s) = in_processing_turn s"
  "current_user_speech_started_ms (record_event E now ty kvs s) = current_user_speech_started_ms s"
  "interrupt_remaining_text (record_event E now ty kvs s) = interrupt_remaining_text s"
  "consecutive_restructure_count (record_event E now ty kvs s) = consecutive_restructure_count s"
  "vad_voice_active_ms (record_event E now ty kvs s) = vad_voice_active_ms s"
  "total_tokens_in (record_event E now ty kvs s) = total_tokens_in s"
  "total_tokens_out (record_event E now ty kvs s) = total_tokens_out s"
  "token_budget_per_call (record_event E now ty kvs s) = token_budget_per_call s"
  "call_session.more (record_event E now ty kvs s) = call_session.more s"
  by (simp_all add: session_defs)

lemma transition_frame [simp]:
  "call_record_id (transition_to E now st r s) = call_record_id s"
  "campaign_id (transition_to E now st r s) = campaign_id s"
  "lead_id (transition_to E now st r s) = lead_id s"
  "caller_id (transition_to E now st r s) = caller_id s"
  "prompt_versions_snapshot (transition_to E now st r s) = prompt_versions_snapshot s"
  "device_id (transition_to E now st r s) = device_id s"
  "extractor_role_config_id (transition_to E now st r s) = extractor_role_config_id s"
  "extractor_prompt_version_id (transition_to E now st r s) = extractor_prompt_version_id s"
  "pipeline_trace_records (transition_to E now st r s) = pipeline_trace_records s"
  "used_filler_phrases (transition_to E now st r s) = used_filler_phrases s"
  "silence_activation_count (transition_to E now st r s) = silence_activation_count s"
  "silence_started_at (transition_to E now st r s) = silence_started_at s"
  "consecutive_interruption_count (transition_to E now st r s) = consecutive_interruption_count s"
  "last_user_speech_end_at (transition_to E now st r s) = last_user_speech_end_at s"
  "last_tts_end_at (transition_to E now st r s) = last_tts_end_at s"
  "wrap_up_round_count (transition_to E now st r s) = wrap_up_round_count s"
  "wrap_up_started_at_monotonic (transition_to E now st r s) = wrap_up_started_at_monotonic s"
  "in_wrap_up (transition_to E now st r s) = in_wrap_up s"
  "current_turn_id (transition_to E now st r s) = current_turn_id s"
  "hangup_cause (transition_to E now st r s) = hangup_cause s"
  "transfer_status (transition_to E now st r s) = transfer_status s"
  "transfer_reason (transition_to E now st r s) = transfer_reason s"
  "wrap_up_started_at_wallclock (transition_to E now st r s) = wrap_up_started_at_wallclock s"
  "tasks (transition_to E now st r s) = tasks s"
  "session_bus (transition_to E now st r s) = session_bus s"
  "current_speaking_task (transition_to E now st r s) = current_speaking_task s"
  "interruption_signaled (transition_to E now st r s) = interruption_signaled s"
  "in_processing_turn (transition_to E now st r s) = in_processing_turn s"
  "current_user_speech_started_ms (transition_to E now st r s) = current_user_speech_started_ms s"
  "interrupt_remaining_text (transition_to E now st r s) = interrupt_remaining_text s"
  "consecutive_restructure_count (transition_to E now st r s) = consecutive_restructure_count s"
  "vad_voice_active_ms (transition_to E now st r s) = vad_voice_active_ms s"
  "total_tokens_in (transition_to E now st r s) = total_tokens_in s"
  "total_tokens_out (transition_to E now st r s) = total_tokens_out s"
  "token_budget_per_call (transition_to E now st r s) = token_budget_per_call s"
  "call_started_at_monotonic (transition_to E now st r s) = call_started_at_monotonic s"
  "call_session.more (transition_to E now st r s) = call_session.more s"
  by (simp_all add: transition_to_def Let_def)

lemma record_event_warnings:
  "plain_fields kvs \<Longrightarrow>
   warnings (record_event E now ty kvs s) = warnings s + (if ty = ''state_warning'' then 1 else 0)"
  by (simp add: warnings_def)

lemma transition_same [simp]: "transition_to E now (state s) r s = s"
  by (simp add: transition_to_def)

lemma transition_state [simp]: "state (transition_to E now st r s) = st"
  by (simp add: transition_to_def Let_def)

interpretation call_fsm: advisory_fsm state state_history warnings legal_step "transition_to E now"
  by unfold_locales
    (auto simp: transition_to_def Let_def warnings_def legal_step_def plain_fields_def)

section \<open>The session invariant\<close>

text \<open>The dialogue turn a transcript event stands for.\<close>

definition turn_of_event :: "pyenv \<Rightarrow> event \<Rightarrow> dialog_turn option" where
  "turn_of_event E ev = (case (dget ev (lit ''type''), dget ev (lit ''ts'')) of
       (PStr ty, PInt ts) \<Rightarrow>
         if ty \<in> set dialog_event_types
         then Some \<lparr>role = event_role ty, turn_text = event_text E ev, ts_ms = ts\<rparr> else None
     | _ \<Rightarrow> None)"

definition session_inv :: "pyenv \<Rightarrow> 'a call_session_scheme \<Rightarrow> bool" where
  "session_inv E s \<longleftrightarrow>
     dialog_history s = List.map_filter (turn_of_event E) (full_transcript s)
   \<and> chain INIT (state_history s) (state s)
   \<and> warnings s = unusual legal_step (state_history s)
   \<and> previous_state s = (if state_history s = [] then None else Some (fst (last (state_history s))))"

lemma new_session_inv: "session_inv E (new_session c p l k sn t)"
  by (simp add: session_inv_def new_session_def warnings_def unusual_def map_filter_simps)

lemma map_filter_snoc [simp]:
  "List.map_filter f (xs @ [x]) = List.map_filter f xs @ (case f x of None \<Rightarrow> [] | Some y \<Rightarrow> [y])"
  by (simp add: List.map_filter_def split: option.splits)

lemma turn_of_event_dict:
  "plain_fields kvs \<Longrightarrow> turn_of_event E (event_dict ty ts kvs) =
     (if ty \<in> set dialog_event_types
      then Some \<lparr>role = event_role ty, turn_text = event_text E kvs, ts_ms = ts\<rparr> else None)"
  by (simp add: turn_of_event_def)

lemma record_event_dialog:
  "plain_fields kvs \<Longrightarrow> dialog_history s = List.map_filter (turn_of_event E) (full_transcript s) \<Longrightarrow>
   dialog_history (record_event E now ty kvs s) =
     List.map_filter (turn_of_event E) (full_transcript (record_event E now ty kvs s))"
  by (simp add: record_event_def store_event_def Let_def turn_of_event_dict)

lemma record_event_inv:
  "session_inv E s \<Longrightarrow> plain_fields kvs \<Longrightarrow> ty \<noteq> ''state_warning'' \<Longrightarrow>
   session_inv E (record_event E now ty kvs s)"
  using record_event_dialog [of kvs s E now ty] record_event_warnings [of kvs E now ty s]
  unfolding session_inv_def by simp

lemma transition_fields:
  "state s \<noteq> st \<Longrightarrow> previous_state (transition_to E now st r s) = Some (state s)"
  "state s \<noteq> st \<Longrightarrow> state_history (transition_to E now st r s) = state_history s @ [(state s, st, r)]"
  by (simp_all add: transition_to_def Let_def)

lemma transition_dialog:
  assumes "dialog_history s = List.map_filter (turn_of_event E) (full_transcript s)"
  shows "dialog_history (transition_to E now st r s)
    = List.map_filter (turn_of_event E) (full_transcript (transition_to E now st r s))"
  using record_event_dialog [of "[(lit ''attempted'', v), (lit ''from_state'', w), (lit ''to_state'', u)]"
      s E now "''state_warning''" for v w u, OF _ assms] assms
  by (simp add: transition_to_def Let_def plain_fields_def)

lemma transition_inv:
  assumes "session_inv E s"
  shows "session_inv E (transition_to E now st r s)"
proof (cases "state s = st")
  case True
  with assms show ?thesis using transition_same [of E now s r] by simp
next
  case False
  have "call_fsm.consistent INIT (transition_to E now st r s)"
    using assms by (intro call_fsm.go_consistent) (simp add: session_inv_def call_fsm.consistent_def)
  with False assms show ?thesis
    by (simp add: session_inv_def call_fsm.consistent_def transition_fields transition_dialog)
qed

lemma transitions_inv:
  "session_inv E s \<Longrightarrow> session_inv E (fold (\<lambda>(t, st, r). transition_to E t st r) reqs s)"
  by (induction reqs arbitrary: s) (auto intro: transition_inv)

lemma transitions_state:
  "state (fold (\<lambda>(t, st, r). transition_to E t st r) reqs s) =
     (if reqs = [] then state s else fst (snd (last reqs)))"
  by (induction reqs arbitrary: s) auto

fun status_rank :: "call_status \<Rightarrow> nat" where
  "status_rank INIT = 3"
| "status_rank IN_CALL = 2"
| "status_rank TRANSFERRING = 1"
| "status_rank END = 0"

lemma legal_step_rank: "legal_step x y \<Longrightarrow> status_rank y < status_rank x"
  by (cases x) (auto simp: legal_step_def)

lemma append_event_production:
  "lit ty \<in> set transcript_event_types \<Longrightarrow>
   append_event E False v now (lit ty) kvs s = Inr (record_event E now ty kvs s)"
  by (simp add: append_event_def record_event_def)

section \<open>Properties\<close>

text \<open>Whatever sequence of transitions is requested on a new call, and whenever, the call
  ends in the state requested last; the recorded history is a gap-free chain without self
  loops from \<open>INIT\<close> to that state; and the transcript holds exactly one \<^verbatim>\<open>state_warning\<close> per
  recorded transition outside the legal table (the guard warns and never blocks).\<close>

theorem transitions_advisory:
  "let s = fold (\<lambda>(t, st, r). transition_to E t st r) reqs (new_session c p l k sn t0) in
     state s = (if reqs = [] then INIT else fst (snd (last reqs)))
   \<and> chain INIT (state_history s) (state s)
   \<and> warnings s = unusual legal_step (state_history s)"
  using transitions_inv [OF new_session_inv, of E reqs c p l k sn t0]
  by (simp add: Let_def session_inv_def transitions_state) (simp add: new_session_def)

text \<open>A call without warnings makes at most three transitions, and two at most once it is
  transferring: a legal call never returns to an earlier state.\<close>

theorem legal_call_is_short:
  assumes "session_inv E s" and "warnings s = 0"
  shows "length (state_history s) + status_rank (state s) \<le> 3"
proof -
  from assms have "chain INIT (state_history s) (state s)"
    and "unusual legal_step (state_history s) = 0"
    by (simp_all add: session_inv_def)
  from call_fsm.legal_chain_length [of status_rank, OF legal_step_rank this] show ?thesis by simp
qed

theorem legal_call_is_short_witness:
  "let s = fold (\<lambda>st. transition_to demo_env 0 st None) [IN_CALL, TRANSFERRING, END]
             (new_session 1 1 1 [] [] 0)
   in warnings s = 0 \<and> length (state_history s) + status_rank (state s) \<le> 3"
proof -
  let ?s = "fold (\<lambda>st. transition_to demo_env 0 st None) [IN_CALL, TRANSFERRING, END] (new_session 1 1 1 [] [] 0)"
  have "session_inv demo_env ?s"
    by (simp del: transition_state add: transition_inv new_session_inv)
  moreover have "warnings ?s = 0"
    by (simp add: transition_to_def warnings_def new_session_def)
  ultimately show ?thesis
    using legal_call_is_short [of demo_env ?s] by (simp only: Let_def)
qed

text \<open>The transcript writer: an unknown event type is refused without any change; in
  production a known type is always stored, whatever the schema check says; in strict mode
  exactly the events that fail the check are refused. A stored event keeps the dialogue
  history equal to the projection of the transcript.\<close>

theorem append_event_contract:
  assumes "session_inv E s" and "plain_fields kvs" and "ty \<noteq> lit ''state_warning''"
  shows "case append_event E strict v now ty kvs s of
      Inl ValueError \<Rightarrow> ty \<notin> set transcript_event_types
    | Inl e \<Rightarrow> e = SchemaError \<and> strict \<and> ty \<in> set transcript_event_types
        \<and> \<not> v (event_dict ty (elapsed_ms (call_started_at_monotonic s) now) kvs)
    | Inr s' \<Rightarrow> ty \<in> set transcript_event_types \<and> session_inv E s'
        \<and> full_transcript s' = full_transcript s
            @ [event_dict ty (elapsed_ms (call_started_at_monotonic s) now) kvs]
        \<and> (strict \<longrightarrow> v (last (full_transcript s')))"
proof (cases "ty \<in> set transcript_event_types")
  case True
  then obtain n where n: "ty = lit n" by (auto simp: transcript_event_types_def)
  with assms have "session_inv E (record_event E now n kvs s)"
    by (intro record_event_inv) auto
  with True n show ?thesis
    by (auto simp: append_event_def record_event_def [symmetric] n)
qed (simp add: append_event_def)

theorem append_event_contract_witness:
  "let s = new_session 1 1 1 [] [] 0; kvs = [(lit ''text'', PStr (lit ''hello''))] in
   (case append_event demo_env False (\<lambda>_. False) 5000000 (lit ''greeting'') kvs s of
      Inl ValueError \<Rightarrow> False | Inl _ \<Rightarrow> False
    | Inr s' \<Rightarrow> session_inv demo_env s' \<and> dialog_history s' =
        [\<lparr>role = lit ''assistant'', turn_text = lit ''hello'', ts_ms = 5\<rparr>])"
  using append_event_contract [of demo_env "new_session 1 1 1 [] [] 0"
      "[(lit ''text'', PStr (lit ''hello''))]" "lit ''greeting''" False "\<lambda>_. False" 5000000]
  by (simp add: new_session_inv plain_fields_def append_event_def transcript_event_types_def Let_def
      store_event_def dialog_event_types_def event_role_def event_text_def)
    (simp add: new_session_def elapsed_ms_def trunc_div_def)

end
