(* ===== verification/Pipeline_Config.thy ===== *)
theory Pipeline_Config
  imports Call_State
begin

text \<open>
  The value objects of the reply pipeline and what is built from them: the LLM slots and
  \<^verbatim>\<open>PipelineConfig\<close>, the prompt builder (\<^verbatim>\<open>pipeline/prompt_builder.py\<close>), the referee's prompt and
  answer (\<^verbatim>\<open>referee.py\<close>, \<^verbatim>\<open>streaming/types.py\<close>) and the greeting (\<^verbatim>\<open>pipeline/greeting.py\<close>).

  The slot classes of \<^verbatim>\<open>isales_common\<close> are represented by the single record \<open>slot_spec\<close>; a chat
  message is a pair of role and content.

  Shown: the shape of the prompt (one system message, then the dialogue; the wrap-up
  instruction is last), that a referee answer gives a bare category without white space or
  surrounding punctuation or fails open, and that a greeting is never blank.
\<close>

section \<open>Slots and configuration\<close>

record slot_spec =
  role_config_id :: int
  prompt_version_id :: int
  system_prompt :: pystr
  slot_provider :: "pystr option"
  slot_model :: pystr
  temperature :: rat
  top_p :: rat
  slot_label :: pystr

record lead_info =
  lead_name :: "pystr option"
  lead_phone :: pystr
  custom_data :: "(pystr \<times> pyval) list"

record pipeline_config =
  main_slot :: slot_spec
  referees :: "slot_spec list"
  extractor :: slot_spec
  default_replies :: "pystr list"
  lead :: lead_info
  restructure :: "slot_spec option"
  routing_rules :: "event list"
  max_continuous_restructure :: int
  auto_restructure_on_interrupt :: bool
  restructure_gate_category :: pystr
  last_call_summary :: "pystr option"
  follow_up_count :: int
  short_reply_active :: bool
  wrap_up_appended :: bool
  personas :: "slot_spec list"
  tools :: "(pystr \<times> pyval) list"
  persona_fanout_cap :: int
  referee_timeout_ms :: int
  referee_fail_open_route :: pystr

type_synonym message = "pystr \<times> pystr"

section \<open>Prompts\<close>

definition WRAP_UP_APPEND :: pystr where
  "WRAP_UP_APPEND = [10, 10, 45, 45, 45, 10, 12304, 24403, 21069, 29366, 24577, 65306, 25910, 23614, 23545,
     35805, 12305, 10, 30446, 26631, 24050, 36798, 25104, 12290, 35831, 31616, 30701, 30830, 35748, 25110,
     21578, 21035, 21518, 32467, 26463, 23545, 35805, 65292, 19981, 35201, 20877, 23581, 35797, 25512, 36827,
     26032, 35758, 39064, 12290, 10]"

definition FOLLOW_UP_APPEND :: "int \<Rightarrow> pystr" where
  "FOLLOW_UP_APPEND n = [10, 10, 12304, 36319, 36827, 19978, 19979, 25991, 12305, 10, 36825, 26159, 23545,
     35813, 29992, 25143, 30340, 31532, 32] @ show_int n @
     [32, 27425, 36319, 36827, 12290, 35831, 26681, 25454, 19978, 36848, 12304, 19978, 27425, 36890, 35805,
      32426, 35201, 12305, 35843, 25972, 24320, 22330, 21644, 21518, 32493, 35805, 26415, 65292, 36991,
      20813, 37325, 22797, 20869, 23481, 12290, 10]"

definition SHORT_REPLY_APPEND :: pystr where
  "SHORT_REPLY_APPEND = [10, 10, 12304, 25171, 26029, 20445, 25252, 12305, 35831, 29992, 19968, 21477, 35805,
     22238, 24212, 12290]"

definition lead_prefix :: pystr where
  "lead_prefix = [12304, 32447, 32034, 20449, 24687, 12305] @ lit ''name=''"

text \<open>\<^verbatim>\<open>lead.name or dash\<close>.\<close>

definition shown_name :: "lead_info \<Rightarrow> pystr" where
  "shown_name l = (case lead_name l of Some n \<Rightarrow> if n = [] then [8212] else n | None \<Rightarrow> [8212])"

definition render_lead_info :: "pyenv \<Rightarrow> lead_info \<Rightarrow> pystr" where
  "render_lead_info E l =
     (let custom = py_join (lit '', '') (map (\<lambda>(k, v). k @ lit ''='' @ py_str E v) (custom_data l));
          custom = (if custom = [] then [8212] else custom)
      in lead_prefix @ shown_name l @ lit '', phone='' @ lead_phone l @ lit '', custom_data='' @ custom)"

definition render_context :: "pyenv \<Rightarrow> pipeline_config \<Rightarrow> pystr" where
  "render_context E config =
     (let summary = (case last_call_summary config of
            Some sm \<Rightarrow> if sm \<noteq> [] \<and> follow_up_count config > 0
                       then [[12304, 19978, 27425, 36890, 35805, 32426, 35201, 12305, 10] @ sm] else []
          | None \<Rightarrow> [])
      in [10, 10, 45, 45, 45, 10] @ py_join [10, 10] (summary @ [render_lead_info E (lead config)]))"

definition build_main_messages :: "pyenv \<Rightarrow> 'a call_session_scheme \<Rightarrow> pipeline_config \<Rightarrow> bool \<Rightarrow> message list" where
  "build_main_messages E s config is_wrap_up =
     (let system = system_prompt (main_slot config) @ render_context E config;
          system = (if follow_up_count config > 0 then system @ FOLLOW_UP_APPEND (follow_up_count config) else system);
          system = (if short_reply_active config then system @ SHORT_REPLY_APPEND else system);
          system = (if is_wrap_up then system @ WRAP_UP_APPEND else system)
      in (lit ''system'', system) # map (\<lambda>t. (role t, turn_text t)) (dialog_history s))"

definition build_greeting_messages :: "pipeline_config \<Rightarrow> message list" where
  "build_greeting_messages config =
     [(lit ''system'', system_prompt (main_slot config)),
      (lit ''user'', lead_prefix @ shown_name (lead config) @ lit '', phone='' @ lead_phone (lead config) @
         [10, 12304, 20219, 21153, 12305, 35831, 29983, 25104, 24320, 22330, 30333, 65292, 30452, 25509, 36755,
          20986, 35201, 23545, 23458, 25143, 35828, 30340, 35805, 12290])]"

section \<open>Greeting\<close>

definition default_greeting :: pystr where
  "default_greeting = [24744, 22909, 12290]"

text \<open>The LLM call under its timeout: \<open>None\<close> for any exception, otherwise its content (\<^verbatim>\<open>None\<close> read
  as empty).\<close>

definition generate_greeting :: "pystr option \<Rightarrow> pystr option \<Rightarrow> pystr" where
  "generate_greeting fixed_template chat =
     (case fixed_template of
        Some (c # cs) \<Rightarrow> c # cs
      | _ \<Rightarrow> (case chat of
            None \<Rightarrow> default_greeting
          | Some content \<Rightarrow> (let t = strip content in if t \<noteq> [] then t else default_greeting)))"

section \<open>Referees\<close>

definition FAILOPEN_TIMEOUT :: pystr where "FAILOPEN_TIMEOUT = lit ''timeout''"

definition FAILOPEN_INVALID :: pystr where "FAILOPEN_INVALID = lit ''invalid''"

record referee_result =
  ref_label :: pystr
  category :: "pystr option"
  confidence :: rat
  ref_duration_ms :: int
  raw_output :: "pystr option"
  failopen_reason :: "pystr option"

definition fail_open :: "pystr \<Rightarrow> pystr \<Rightarrow> int \<Rightarrow> pystr option \<Rightarrow> referee_result" where
  "fail_open label why dur raw = \<lparr>ref_label = label, category = None, confidence = 0, ref_duration_ms = dur,
     raw_output = raw, failopen_reason = Some why\<rparr>"

definition effective_category :: "referee_result \<Rightarrow> pystr option" where
  "effective_category r = category r"

definition trace_category :: "referee_result \<Rightarrow> pystr" where
  "trace_category r = (case category r of
       Some c \<Rightarrow> c
     | None \<Rightarrow> (case failopen_reason r of
           Some why \<Rightarrow> if why = [] then FAILOPEN_INVALID else why
         | None \<Rightarrow> FAILOPEN_INVALID))"

definition as_trace :: "referee_result \<Rightarrow> pyval" where
  "as_trace r = PDict [(lit ''label'', PStr (ref_label r)), (lit ''category'', PStr (trace_category r)),
     (lit ''confidence'', PFloat (confidence r)), (lit ''duration_ms'', PInt (ref_duration_ms r))]"

definition render_dialog_history :: "dialog_turn list \<Rightarrow> pystr" where
  "render_dialog_history turns =
     (if turns = [] then [65288, 39318, 36718, 23545, 35805, 65292, 26080, 21382, 21490, 65289]
      else py_join [10] (map (\<lambda>t. (if role t = lit ''user'' then [29992, 25143] else lit ''AI'')
                                @ [65306] @ turn_text t) turns))"

definition RECENT_ROUNDS :: nat where "RECENT_ROUNDS = 3"

text \<open>\<^verbatim>\<open>history[-(rounds * 2):]\<close>.\<close>

definition recent_dialog_rounds :: "dialog_turn list \<Rightarrow> nat \<Rightarrow> dialog_turn list" where
  "recent_dialog_rounds h rounds =
     (if h = [] then [] else if rounds * 2 = 0 then h else drop (length h - rounds * 2) h)"

definition referee_messages :: "pystr option \<Rightarrow> pystr \<Rightarrow> dialog_turn list \<Rightarrow> slot_spec \<Rightarrow> message list" where
  "referee_messages remainder user_text recent spec =
     (let rem = (case remainder of Some r \<Rightarrow> r | None \<Rightarrow> []);
          system = py_replace (lit ''{{user_last_utterance}}'') user_text (system_prompt spec);
          system = py_replace (lit ''{{recent_dialog_history}}'') (render_dialog_history recent) system;
          system = py_replace (lit ''{{was_interrupted}}'') (if rem \<noteq> [] then [26159] else [21542]) system;
          system = py_replace (lit ''{{interrupted_reply}}'') rem system
      in [(lit ''system'', system),
          (lit ''user'', [35831, 25353, 31995, 32479, 25552, 31034, 21482, 36755, 20986, 19968, 20010, 20998, 31867,
             35789, 65292, 19981, 35201, 20219, 20309, 20854, 20182, 20869, 23481, 12289, 26631, 28857, 25110, 32,
             74, 83, 79, 78, 12290])])"

definition category_punct :: "nat \<Rightarrow> bool" where
  "category_punct c = (c \<in> {46, 44, 12290, 65292, 33, 65281, 63, 65311, 34, 39, 96, 65306, 58})"

definition parse_referee_output :: "pystr option \<Rightarrow> pystr \<Rightarrow> int \<Rightarrow> referee_result" where
  "parse_referee_output raw label dur =
     (let tokens = py_split (strip (case raw of Some r \<Rightarrow> r | None \<Rightarrow> []));
          cat = (case tokens of t # _ \<Rightarrow> strip_of category_punct t | [] \<Rightarrow> [])
      in if cat = [] then fail_open label FAILOPEN_INVALID dur raw
         else \<lparr>ref_label = label, category = Some cat, confidence = 1, ref_duration_ms = dur,
               raw_output = raw, failopen_reason = None\<rparr>)"

text \<open>A referee call: the chat either raises (\<open>Inl\<close>) or returns a content, after \<open>dur\<close> ms.\<close>

definition run_referee :: "pystr option res \<Rightarrow> slot_spec \<Rightarrow> int \<Rightarrow> referee_result" where
  "run_referee chat spec dur = (case chat of
       Inl _ \<Rightarrow> fail_open (slot_label spec) FAILOPEN_INVALID dur None
     | Inr raw \<Rightarrow> parse_referee_output raw (slot_label spec) dur)"

section \<open>A concrete configuration\<close>

text \<open>Used where a witness needs a configuration.\<close>

definition demo_slot :: "string \<Rightarrow> slot_spec" where
  "demo_slot l = \<lparr>role_config_id = 1, prompt_version_id = 1, system_prompt = lit ''be kind'', slot_provider = None,
     slot_model = lit ''mock'', temperature = 1, top_p = 1, slot_label = lit l\<rparr>"

definition demo_pipeline :: pipeline_config where
  "demo_pipeline = \<lparr>main_slot = demo_slot ''main'', referees = [demo_slot ''gate''], extractor = demo_slot ''x'',
     default_replies = [], lead = \<lparr>lead_name = None, lead_phone = lit ''123'', custom_data = []\<rparr>,
     restructure = None, routing_rules = [], max_continuous_restructure = 2, auto_restructure_on_interrupt = False,
     restructure_gate_category = lit ''FILLER'', last_call_summary = None, follow_up_count = 0,
     short_reply_active = False, wrap_up_appended = False, personas = [], tools = [], persona_fanout_cap = 1,
     referee_timeout_ms = 600, referee_fail_open_route = lit ''main''\<rparr>"

section \<open>Lemmas and properties\<close>

lemma split_acc_no_space:
  "(\<And>c. c \<in> set acc \<Longrightarrow> \<not> is_space c) \<Longrightarrow> t \<in> set (split_acc acc s) \<Longrightarrow> t \<noteq> [] \<and> (\<forall>c \<in> set t. \<not> is_space c)"
  by (induction acc s rule: split_acc.induct) (fastforce split: if_splits)+

lemma py_split_no_space: "t \<in> set (py_split s) \<Longrightarrow> t \<noteq> [] \<and> (\<forall>c \<in> set t. \<not> is_space c)"
  unfolding py_split_def by (rule split_acc_no_space) auto

lemma parse_referee_category:
  assumes "category (parse_referee_output raw l d) = Some c"
  shows "c \<noteq> [] \<and> (\<forall>x \<in> set c. \<not> is_space x) \<and> \<not> category_punct (hd c) \<and> \<not> category_punct (last c)"
proof -
  obtain t ts where ts: "py_split (strip (case raw of Some r \<Rightarrow> r | None \<Rightarrow> [])) = t # ts"
    and c: "c = strip_of category_punct t" "c \<noteq> []"
    using assms
    by (auto simp: parse_referee_output_def Let_def fail_open_def split: if_splits list.splits)
  have "\<forall>x \<in> set t. \<not> is_space x" using py_split_no_space [of t] ts by (metis list.set_intros(1))
  then have "\<forall>x \<in> set c. \<not> is_space x" using set_strip_of [of category_punct t] c by auto
  with strip_of_hd_last [of category_punct t] c show ?thesis by simp
qed

text \<open>A referee call always yields a result with the referee's label. Its category, when there
  is one, is a single non-empty word without white space and without surrounding
  punctuation; otherwise the result is a fail-open marked invalid, which matches no rule.\<close>

theorem run_referee_bare_category:
  "ref_label (run_referee chat spec d) = slot_label spec
   \<and> (case category (run_referee chat spec d) of
        Some c \<Rightarrow> c \<noteq> [] \<and> (\<forall>x \<in> set c. \<not> is_space x) \<and> \<not> category_punct (hd c) \<and> \<not> category_punct (last c)
      | None \<Rightarrow> trace_category (run_referee chat spec d) = FAILOPEN_INVALID)"
proof (cases chat)
  case (Inl e)
  then show ?thesis
    by (simp add: run_referee_def fail_open_def trace_category_def FAILOPEN_INVALID_def)
next
  case (Inr raw)
  let ?r = "parse_referee_output raw (slot_label spec) d"
  have r: "run_referee chat spec d = ?r" using Inr by (simp add: run_referee_def)
  have l: "ref_label ?r = slot_label spec"
    by (simp add: parse_referee_output_def Let_def fail_open_def)
  show ?thesis
  proof (cases "category ?r")
    case None
    then have "trace_category ?r = FAILOPEN_INVALID"
      by (auto simp: parse_referee_output_def Let_def fail_open_def trace_category_def FAILOPEN_INVALID_def
          split: if_splits)
    with None r l show ?thesis by simp
  next
    case (Some c)
    with parse_referee_category [OF Some] r l show ?thesis by simp
  qed
qed

theorem run_referee_bare_category_witness:
  "category (run_referee (Inr (Some (lit '' FILLER. x''))) (demo_slot ''gate'') 5) = Some (lit ''FILLER'')
   \<and> \<not> category_punct (last (lit ''FILLER''))"
  using run_referee_bare_category [of "Inr (Some (lit '' FILLER. x''))" "demo_slot ''gate''" 5]
  by (simp add: run_referee_def parse_referee_output_def lit_def strip_of_def lstrip_of_def rstrip_of_def
      is_space_def py_split_def category_punct_def Let_def)

text \<open>The main prompt is one system message followed by the dialogue turn by turn, in order; in
  wrap-up the closing instruction is the literal end of the system message, and the
  campaign's prompt is always its beginning.\<close>

theorem main_messages_shape:
  "\<exists>sys. build_main_messages E s config wrapping = (lit ''system'', sys) # map (\<lambda>t. (role t, turn_text t)) (dialog_history s)
     \<and> prefix (system_prompt (main_slot config)) sys
     \<and> (wrapping \<longrightarrow> suffix WRAP_UP_APPEND sys)"
  by (auto simp: build_main_messages_def Let_def intro!: suffix_appendI)

theorem main_messages_shape_witness:
  "\<exists>sys. fst (hd (build_main_messages demo_env (new_session 1 1 1 [] [] 0) demo_pipeline True)) = lit ''system''
     \<and> snd (hd (build_main_messages demo_env (new_session 1 1 1 [] [] 0) demo_pipeline True)) = sys \<and> suffix WRAP_UP_APPEND sys"
  using main_messages_shape [of demo_env "new_session 1 1 1 [] [] 0" demo_pipeline True] by auto

lemma greeting_nonblank: "generate_greeting t c \<noteq> []"
  by (auto simp: generate_greeting_def default_greeting_def Let_def split: option.splits list.splits)

end
