(* ===== verification/Py_Bytes.thy ===== *)
theory Py_Bytes
  imports Py_Base
begin

text \<open>
  Byte strings and the fixed-width integer fields of \<^verbatim>\<open>struct\<close>: \<open>bytes\<close> is a Python
  \<^verbatim>\<open>bytes\<close> object, \<open>be_nat\<close>/\<open>le_nat\<close> and \<open>to_be\<close>/\<open>to_le\<close> read and write unsigned fields of a
  given width, \<open>samples16\<close> the signed 16-bit little-endian samples of a PCM buffer.
  The lemmas are the round trips of these fields.
\<close>

type_synonym bytes = "8 word list"

definition byte_of :: "nat \<Rightarrow> 8 word" where
  "byte_of n = of_nat n"

fun le_nat :: "bytes \<Rightarrow> nat" where
  "le_nat [] = 0"
| "le_nat (b # bs) = unat b + 256 * le_nat bs"

definition be_nat :: "bytes \<Rightarrow> nat" where
  "be_nat bs = le_nat (rev bs)"

fun to_le :: "nat \<Rightarrow> nat \<Rightarrow> bytes" where
  "to_le 0 n = []"
| "to_le (Suc w) n = byte_of (n mod 256) # to_le w (n div 256)"

definition to_be :: "nat \<Rightarrow> nat \<Rightarrow> bytes" where
  "to_be w n = rev (to_le w n)"

lemma byte_lt [simp]: "unat (b :: 8 word) < 256"
  using unsigned_less [of b] by simp

lemma unat_byte_of [simp]: "unat (byte_of n) = n mod 256"
  by (simp add: byte_of_def unat_of_nat)

lemma byte_of_unat [simp]: "byte_of (unat b) = b"
  by (simp add: byte_of_def)

lemma length_to_le [simp]: "length (to_le w n) = w"
  by (induction w arbitrary: n) auto

lemma length_to_be [simp]: "length (to_be w n) = w"
  by (simp add: to_be_def)

lemma le_nat_to_le: "le_nat (to_le w n) = n mod 256 ^ w"
  by (induction w arbitrary: n) (auto simp: mod_mult2_eq [symmetric] ac_simps mod_mult2_eq)

lemma be_nat_to_be: "be_nat (to_be w n) = n mod 256 ^ w"
  by (simp add: be_nat_def to_be_def le_nat_to_le)

lemma to_le_le_nat: "to_le (length bs) (le_nat bs) = bs"
proof (induction bs)
  case (Cons b bs)
  have "unat b < 256" by simp
  then have "byte_of ((unat b + 256 * le_nat bs) mod 256) = b"
    and "(unat b + 256 * le_nat bs) div 256 = le_nat bs" by auto
  with Cons show ?case by simp
qed simp

lemma to_be_be_nat: "length bs = w \<Longrightarrow> to_be w (be_nat bs) = bs"
  using to_le_le_nat [of "rev bs"] by (simp add: to_be_def be_nat_def)

lemma le_nat_bound: "le_nat bs < 256 ^ length bs"
proof (induction bs)
  case (Cons b bs)
  have b: "unat b < 256" by simp
  have "256 * le_nat bs + 256 \<le> 256 * 256 ^ length bs"
    using Cons by (metis Suc_leI mult_Suc_right mult_le_mono2 add.commute)
  with b have "unat b + 256 * le_nat bs < 256 * 256 ^ length bs" by linarith
  then show ?case by simp
qed simp

lemma be_nat_bound: "be_nat bs < 256 ^ length bs"
  using le_nat_bound [of "rev bs"] by (simp add: be_nat_def)

section \<open>16-bit PCM\<close>

text \<open>Two's complement reading of an unsigned 16-bit value.\<close>

definition signed16 :: "nat \<Rightarrow> int" where
  "signed16 n = (if n < 32768 then int n else int n - 65536)"

definition unsigned16 :: "int \<Rightarrow> nat" where
  "unsigned16 i = nat (i mod 65536)"

fun samples16 :: "bytes \<Rightarrow> int list" where
  "samples16 (a # b # bs) = signed16 (le_nat [a, b]) # samples16 bs"
| "samples16 _ = []"

definition bytes16 :: "int list \<Rightarrow> bytes" where
  "bytes16 xs = concat (map (\<lambda>i. to_le 2 (unsigned16 i)) xs)"

lemma signed16_range: "n < 65536 \<Longrightarrow> - 32768 \<le> signed16 n \<and> signed16 n \<le> 32767"
  by (auto simp: signed16_def)

lemma signed_unsigned16:
  assumes "- 32768 \<le> i" and "i \<le> 32767"
  shows "signed16 (unsigned16 i) = i"
proof (cases "0 \<le> i")
  case True
  with assms show ?thesis by (simp add: signed16_def unsigned16_def)
next
  case False
  with assms have "(i + 65536) mod 65536 = i + 65536" by (intro mod_pos_pos_trivial) auto
  then have "i mod 65536 = i + 65536" by simp
  with False assms show ?thesis by (simp add: signed16_def unsigned16_def)
qed

lemma unsigned16_bound: "unsigned16 i < 65536"
  by (simp add: unsigned16_def nat_less_iff)

lemma samples16_bytes16:
  "(\<And>i. i \<in> set xs \<Longrightarrow> - 32768 \<le> i \<and> i \<le> 32767) \<Longrightarrow> samples16 (bytes16 xs) = xs"
proof (induction xs)
  case (Cons i xs)
  have "le_nat (to_le 2 (unsigned16 i)) = unsigned16 i"
    using unsigned16_bound [of i] by (simp add: le_nat_to_le)
  then have "samples16 (to_le 2 (unsigned16 i) @ bs) = i # samples16 bs" for bs
    using signed_unsigned16 [of i] Cons.prems by (simp add: numeral_2_eq_2)
  with Cons show ?case by (simp add: bytes16_def)
qed (simp add: bytes16_def)

lemma samples16_range: "x \<in> set (samples16 bs) \<Longrightarrow> - 32768 \<le> x \<and> x \<le> 32767"
proof (induction bs rule: samples16.induct)
  case (1 a b bs)
  have "le_nat [a, b] < 65536"
    using le_nat_bound [of "[a, b]"] by simp
  with 1 show ?case using signed16_range by auto
qed auto

lemma length_samples16: "length (samples16 bs) = length bs div 2"
  by (induction bs rule: samples16.induct) auto

section \<open>Fields of \<^verbatim>\<open>struct\<close>\<close>

text \<open>The big-endian formats \<^verbatim>\<open>>i\<close> and \<^verbatim>\<open>>I\<close>: a value out of range or a buffer of another length raises.\<close>

definition pack_i32 :: "int \<Rightarrow> bytes res" where
  "pack_i32 i = (if - 2147483648 \<le> i \<and> i < 2147483648 then Inr (to_be 4 (nat (i mod 4294967296))) else Inl StructError)"

definition pack_u32 :: "int \<Rightarrow> bytes res" where
  "pack_u32 i = (if 0 \<le> i \<and> i < 4294967296 then Inr (to_be 4 (nat i)) else Inl StructError)"

definition unpack_i32 :: "bytes \<Rightarrow> int res" where
  "unpack_i32 b = (if length b = 4 then
     Inr (let n = int (be_nat b) in if n < 2147483648 then n else n - 4294967296) else Inl StructError)"

definition unpack_u32 :: "bytes \<Rightarrow> nat res" where
  "unpack_u32 b = (if length b = 4 then Inr (be_nat b) else Inl StructError)"

lemma unpack_pack_i32: "pack_i32 i = Inr b \<Longrightarrow> length b = 4 \<and> unpack_i32 b = Inr i"
proof -
  assume a: "pack_i32 i = Inr b"
  then have r: "- 2147483648 \<le> i" "i < 2147483648" and b: "b = to_be 4 (nat (i mod 4294967296))"
    by (auto simp: pack_i32_def split: if_splits)
  have m: "i mod 4294967296 = (if 0 \<le> i then i else i + 4294967296)"
  proof (cases "0 \<le> i")
    case False
    have "(i + 4294967296) mod 4294967296 = i + 4294967296" using False r by (intro mod_pos_pos_trivial) auto
    with False show ?thesis by simp
  qed (use r in simp)
  have "int (be_nat b) = i mod 4294967296"
  proof -
    have "nat (i mod 4294967296) < 4294967296" by (simp add: nat_less_iff)
    then show ?thesis unfolding b by (simp add: be_nat_to_be)
  qed
  with m r b show "length b = 4 \<and> unpack_i32 b = Inr i"
    by (simp add: unpack_i32_def Let_def)
qed

lemma unpack_pack_u32: "pack_u32 i = Inr b \<Longrightarrow> length b = 4 \<and> unpack_u32 b = Inr (nat i)"
  by (auto simp: pack_u32_def unpack_u32_def be_nat_to_be nat_less_iff split: if_splits)

end
