(* ===== verification/Interruption.thy ===== *)
theory Interruption
  imports Call_State Py_Bytes
begin

text \<open>
  Barge-in detection: the rule tree (\<^verbatim>\<open>realtime/interruption_rules.py\<close>), the detector
  (\<^verbatim>\<open>realtime/interruption_detector.py\<close>) and the two monitor tasks of \<^verbatim>\<open>run_loop.py\<close>
  (\<^verbatim>\<open>_partial_monitor\<close>, \<^verbatim>\<open>_vad_monitor\<close>), each as the step it makes per partial or frame.

  \<open>rule\<close> has one constructor per rule class; a keyword or delimiter comes from a JSON column
  and is a \<open>pyval\<close>, since a non-string there makes the evaluation raise. \<open>build_rule\<close> is the
  factory with every exception it can raise, \<open>default_rule\<close> the synthesised tree.

  Shown: evaluation computes the Boolean meaning of the tree and never raises on a tree of
  strings; the default tree is the legacy whitelist, length, duration sequence; a tree
  survives the round trip through its configuration; the monitor latches at most one
  interruption; the voice-activity counter respects its hangover window.
\<close>

section \<open>Rules\<close>

record rule_input =
  in_text :: pystr
  elapsed :: int

record rule_verdict =
  interrupt :: bool
  reason :: string

datatype rule =
    KeywordRule "pyval list" pyval
  | LengthRule int
  | DurationRule int
  | RegexRule pystr
  | SplitByDelimiterRule "pyval list"
  | NoneRule
  | AndRule "rule list"
  | OrRule "rule list"
  | NotRule rule

definition trailing_punct :: "nat \<Rightarrow> bool" where
  "trailing_punct c = (c \<in> {12290, 65292, 65281, 65311, 12289, 65307, 44, 46, 33, 63, 59})"

text \<open>\<^verbatim>\<open>any(v in t for v in values)\<close>: stops at the first hit; a non-string \<open>v\<close> raises.\<close>

fun any_in :: "pyval list \<Rightarrow> pystr \<Rightarrow> bool res" where
  "any_in [] t = Inr False"
| "any_in (PStr v # vs) t = (if is_sub v t then Inr True else any_in vs t)"
| "any_in (_ # vs) t = Inl TypeError"

definition verdict :: "string \<Rightarrow> bool res \<Rightarrow> rule_verdict res" where
  "verdict why r = (case r of Inl e \<Rightarrow> Inl e | Inr b \<Rightarrow> Inr \<lparr>interrupt = b, reason = why\<rparr>)"

fun evaluate :: "pyenv \<Rightarrow> rule_input \<Rightarrow> rule \<Rightarrow> rule_verdict res"
  and evaluate_and :: "pyenv \<Rightarrow> rule_input \<Rightarrow> rule list \<Rightarrow> rule_verdict res"
  and evaluate_or :: "pyenv \<Rightarrow> rule_input \<Rightarrow> rule list \<Rightarrow> rule_verdict res" where
  "evaluate E ctx (KeywordRule vs m) = verdict ''keyword''
     (if m = PStr (lit ''exact'') then Inr (PStr (strip (in_text ctx)) \<in> set vs)
      else (let t = rstrip_of trailing_punct (strip (in_text ctx)) in
            if t = [] then Inr False else any_in vs t))"
| "evaluate E ctx (LengthRule n) = verdict ''length'' (Inr (int (length (strip (in_text ctx))) \<ge> n))"
| "evaluate E ctx (DurationRule n) = verdict ''duration'' (Inr (elapsed ctx \<ge> n))"
| "evaluate E ctx (RegexRule p) = verdict ''regex'' (Inr (re_search E p (in_text ctx)))"
| "evaluate E ctx (SplitByDelimiterRule ds) = verdict ''split_by_delimiter'' (any_in ds (in_text ctx))"
| "evaluate E ctx NoneRule = verdict ''none'' (Inr False)"
| "evaluate E ctx (AndRule rs) = evaluate_and E ctx rs"
| "evaluate E ctx (OrRule rs) = evaluate_or E ctx rs"
| "evaluate E ctx (NotRule r) = (case evaluate E ctx r of
     Inl e \<Rightarrow> Inl e
   | Inr v \<Rightarrow> Inr \<lparr>interrupt = \<not> interrupt v, reason = ''not('' @ reason v @ '')''\<rparr>)"
| "evaluate_and E ctx [] = Inr \<lparr>interrupt = True, reason = ''and''\<rparr>"
| "evaluate_and E ctx (r # rs) = (case evaluate E ctx r of
     Inl e \<Rightarrow> Inl e
   | Inr v \<Rightarrow> if \<not> interrupt v then Inr \<lparr>interrupt = False, reason = reason v\<rparr>
              else evaluate_and E ctx rs)"
| "evaluate_or E ctx [] = Inr \<lparr>interrupt = False, reason = ''or''\<rparr>"
| "evaluate_or E ctx (r # rs) = (case evaluate E ctx r of
     Inl e \<Rightarrow> Inl e
   | Inr v \<Rightarrow> if interrupt v then Inr \<lparr>interrupt = True, reason = reason v\<rparr>
              else evaluate_or E ctx rs)"

text \<open>The elements of \<^verbatim>\<open>config["rules"]\<close>: iterating a non-empty string or dict yields strings,
  which the recursive call refuses with \<^verbatim>\<open>ValueError\<close>.\<close>

fun rule_items :: "pyval \<Rightarrow> pyval list res" where
  "rule_items (PList xs) = Inr xs"
| "rule_items (PStr s) = (if s = [] then Inr [] else Inl ValueError)"
| "rule_items (PDict d) = (if d = [] then Inr [] else Inl ValueError)"
| "rule_items _ = Inl TypeError"

lemma dict_item_size: "map_of d k = Some v \<Longrightarrow> size v < size (PDict d)"
  by (induction d) (auto split: if_splits)

lemma rule_items_size: "rule_items v = Inr xs \<Longrightarrow> x \<in> set xs \<Longrightarrow> size x < size v"
  by (cases v) (auto split: if_splits dest: size_list_estimation' [of x xs "size x" size])

function build_rule :: "pyenv \<Rightarrow> pyval \<Rightarrow> rule res" where
  "build_rule E config = (case config of
       PNone \<Rightarrow> Inr NoneRule
     | PDict d \<Rightarrow>
        (case map_of d (lit ''type'') of
           None \<Rightarrow> Inl ValueError
         | Some rtype \<Rightarrow>
             if rtype = PStr (lit ''none'') then Inr NoneRule
             else if rtype = PStr (lit ''keyword'') then
               (case map_of d (lit ''values'') of None \<Rightarrow> Inl KeyError
                | Some v \<Rightarrow> (case py_tuple v of Inl e \<Rightarrow> Inl e
                   | Inr vs \<Rightarrow> Inr (KeywordRule vs (case map_of d (lit ''match'') of
                                 None \<Rightarrow> PStr (lit ''contains'') | Some m \<Rightarrow> m))))
             else if rtype = PStr (lit ''length'') then
               (case map_of d (lit ''value'') of None \<Rightarrow> Inl KeyError
                | Some v \<Rightarrow> (case py_int v of Inl e \<Rightarrow> Inl e | Inr n \<Rightarrow> Inr (LengthRule n)))
             else if rtype = PStr (lit ''duration'') then
               (case map_of d (lit ''value_ms'') of None \<Rightarrow> Inl KeyError
                | Some v \<Rightarrow> (case py_int v of Inl e \<Rightarrow> Inl e | Inr n \<Rightarrow> Inr (DurationRule n)))
             else if rtype = PStr (lit ''regex'') then
               (case map_of d (lit ''pattern'') of None \<Rightarrow> Inl KeyError
                | Some v \<Rightarrow> if re_ok E (py_str E v) then Inr (RegexRule (py_str E v)) else Inl ReError)
             else if rtype = PStr (lit ''split_by_delimiter'') then
               (case map_of d (lit ''delimiters'') of None \<Rightarrow> Inl KeyError
                | Some v \<Rightarrow> (case py_tuple v of Inl e \<Rightarrow> Inl e | Inr ds \<Rightarrow> Inr (SplitByDelimiterRule ds)))
             else if rtype = PStr (lit ''and'') then
               (case map_of d (lit ''rules'') of None \<Rightarrow> Inl KeyError
                | Some v \<Rightarrow> (case rule_items v of Inl e \<Rightarrow> Inl e
                   | Inr xs \<Rightarrow> (case map_res (build_rule E) xs of Inl e \<Rightarrow> Inl e | Inr rs \<Rightarrow> Inr (AndRule rs))))
             else if rtype = PStr (lit ''or'') then
               (case map_of d (lit ''rules'') of None \<Rightarrow> Inl KeyError
                | Some v \<Rightarrow> (case rule_items v of Inl e \<Rightarrow> Inl e
                   | Inr xs \<Rightarrow> (case map_res (build_rule E) xs of Inl e \<Rightarrow> Inl e | Inr rs \<Rightarrow> Inr (OrRule rs))))
             else if rtype = PStr (lit ''not'') then
               (case map_of d (lit ''rule'') of None \<Rightarrow> Inl KeyError
                | Some v \<Rightarrow> (case build_rule E v of Inl e \<Rightarrow> Inl e | Inr r \<Rightarrow> Inr (NotRule r)))
             else Inl ValueError)
     | _ \<Rightarrow> Inl ValueError)"
  by pat_completeness auto
termination
  by (relation "measure (\<lambda>(E, c). size c)")
    (auto dest!: dict_item_size rule_items_size intro: less_trans)

declare build_rule.simps [simp del]

definition default_rule :: "pystr list \<Rightarrow> int \<Rightarrow> int \<Rightarrow> rule" where
  "default_rule whitelist min_text_length min_duration_ms =
     AndRule ((if whitelist \<noteq> [] then [NotRule (KeywordRule (map PStr whitelist) (PStr (lit ''exact'')))] else [])
       @ [LengthRule min_text_length, DurationRule min_duration_ms])"

section \<open>The detector\<close>

record interruption_config =
  whitelist :: "pystr list"
  barge_rule :: rule

datatype partial_verdict = Ignored string | Triggered string

definition evaluate_partial :: "pyenv \<Rightarrow> pystr \<Rightarrow> int \<Rightarrow> int \<Rightarrow> interruption_config \<Rightarrow> partial_verdict res" where
  "evaluate_partial E txt speech_started_ts_ms now_ts_ms config =
     (case evaluate E \<lparr>in_text = txt, elapsed = now_ts_ms - speech_started_ts_ms\<rparr> (barge_rule config) of
        Inl e \<Rightarrow> Inl e
      | Inr v \<Rightarrow> Inr (if interrupt v then Triggered (reason v) else Ignored (reason v)))"

section \<open>The monitor tasks\<close>

text \<open>One iteration of the partial monitor. A raising rule ends the task (\<open>Inl\<close>). Cancelling the
  playback task leaves it cancelled at its next suspension.\<close>

definition cancel_task :: "task_status option \<Rightarrow> task_status option" where
  "cancel_task t = (case t of Some TaskRunning \<Rightarrow> Some TaskCancelRequested | _ \<Rightarrow> t)"

definition partial_step :: "pyenv \<Rightarrow> interruption_config \<Rightarrow> clock \<Rightarrow> pystr
    \<Rightarrow> 'a call_session_scheme \<Rightarrow> 'a call_session_scheme res" where
  "partial_step E cfg now partial s =
     (if (\<not> in_processing_turn s \<and> current_speaking_task s = None) \<or> interruption_signaled s then Inr s
      else (let txt = strip partial in
        if txt = [] then Inr s
        else (let now_ms = to_ms now;
                  s1 = (if current_user_speech_started_ms s = None
                        then s\<lparr>current_user_speech_started_ms := Some now_ms\<rparr> else s);
                  anchor = (case current_user_speech_started_ms s1 of Some a \<Rightarrow> a | None \<Rightarrow> now_ms)
              in (case evaluate_partial E txt anchor now_ms cfg of
                    Inl e \<Rightarrow> Inl e
                  | Inr (Ignored _) \<Rightarrow> Inr s1
                  | Inr (Triggered _) \<Rightarrow>
                      (let s2 = s1\<lparr>interruption_signaled := True\<rparr>;
                           s3 = record_event E now ''interruption''
                                  [(lit ''interrupted_event_id'', PInt (current_turn_id s2)),
                                   (lit ''user_text_at_interruption'', PStr txt)] s2
                       in Inr (s3\<lparr>current_speaking_task := cancel_task (current_speaking_task s3)\<rparr>))))))"

text \<open>\<^verbatim>\<open>audioop.rms(pcm, 2)\<close>: the truncated root mean square, or an error for a partial sample.\<close>

fun isqrt_below :: "nat \<Rightarrow> nat \<Rightarrow> nat" where
  "isqrt_below 0 n = 0"
| "isqrt_below (Suc m) n = (if Suc m * Suc m \<le> n then Suc m else isqrt_below m n)"

definition isqrt :: "nat \<Rightarrow> nat" where
  "isqrt n = isqrt_below n n"

definition audioop_rms :: "bytes \<Rightarrow> nat option" where
  "audioop_rms pcm =
     (if length pcm mod 2 \<noteq> 0 then None
      else if pcm = [] then Some 0
      else Some (isqrt (nat (sum_list (map (\<lambda>x. x * x) (samples16 pcm))) div (length pcm div 2))))"

definition bytes_per_ms :: int where
  "bytes_per_ms = 32"

definition voice_rms_threshold :: nat where
  "voice_rms_threshold = 1200"

definition silence_hangover_ms :: int where
  "silence_hangover_ms = 300"

definition frame_rms :: "bool \<Rightarrow> bytes \<Rightarrow> nat" where
  "frame_rms have_audioop pcm =
     (if have_audioop then (case audioop_rms pcm of Some r \<Rightarrow> r | None \<Rightarrow> 0) else 0)"

text \<open>One iteration of the VAD monitor on its two locals and the session's mirror.\<close>

definition vad_frame :: "nat \<Rightarrow> int \<Rightarrow> int \<times> int \<Rightarrow> int \<times> int" where
  "vad_frame rms frame_ms = (\<lambda>(voice_active_ms, silence_run_ms).
     if rms \<ge> voice_rms_threshold then (voice_active_ms + frame_ms, 0)
     else if voice_active_ms > 0 then
       (let silence_run_ms = silence_run_ms + frame_ms in
        if silence_run_ms \<ge> silence_hangover_ms then (0, 0) else (voice_active_ms, silence_run_ms))
     else (voice_active_ms, silence_run_ms))"

definition vad_step :: "bool \<Rightarrow> bytes \<Rightarrow> (int \<times> int) \<times> 'a call_session_scheme
    \<Rightarrow> (int \<times> int) \<times> 'a call_session_scheme" where
  "vad_step have_audioop pcm = (\<lambda>(v, s).
     if pcm = [] then (v, s)
     else (let frame_ms = max (int (length pcm) div bytes_per_ms) 1;
               v' = vad_frame (frame_rms have_audioop pcm) frame_ms v
           in (v', s\<lparr>vad_voice_active_ms := fst v'\<rparr>)))"

section \<open>Meaning of a rule tree\<close>

fun strings_only :: "pyval list \<Rightarrow> bool" where
  "strings_only [] = True"
| "strings_only (PStr _ # vs) = strings_only vs"
| "strings_only (_ # vs) = False"

text \<open>Trees whose keywords and delimiters are strings.\<close>

fun rule_wf :: "rule \<Rightarrow> bool" where
  "rule_wf (KeywordRule vs m) = (m = PStr (lit ''exact'') \<or> strings_only vs)"
| "rule_wf (SplitByDelimiterRule ds) = strings_only ds"
| "rule_wf (AndRule rs) = list_all rule_wf rs"
| "rule_wf (OrRule rs) = list_all rule_wf rs"
| "rule_wf (NotRule r) = rule_wf r"
| "rule_wf _ = True"

fun strings :: "pyval list \<Rightarrow> pystr list" where
  "strings [] = []"
| "strings (PStr s # vs) = s # strings vs"
| "strings (_ # vs) = strings vs"

text \<open>The Boolean function a tree denotes, without order of evaluation or reasons.\<close>

fun holds :: "pyenv \<Rightarrow> rule_input \<Rightarrow> rule \<Rightarrow> bool" where
  "holds E ctx (KeywordRule vs m) =
     (if m = PStr (lit ''exact'') then strip (in_text ctx) \<in> set (strings vs)
      else (let t = rstrip_of trailing_punct (strip (in_text ctx)) in
            t \<noteq> [] \<and> (\<exists>v \<in> set (strings vs). is_sub v t)))"
| "holds E ctx (LengthRule n) = (n \<le> int (length (strip (in_text ctx))))"
| "holds E ctx (DurationRule n) = (n \<le> elapsed ctx)"
| "holds E ctx (RegexRule p) = re_search E p (in_text ctx)"
| "holds E ctx (SplitByDelimiterRule ds) = (\<exists>d \<in> set (strings ds). is_sub d (in_text ctx))"
| "holds E ctx NoneRule = False"
| "holds E ctx (AndRule rs) = (\<forall>r \<in> set rs. holds E ctx r)"
| "holds E ctx (OrRule rs) = (\<exists>r \<in> set rs. holds E ctx r)"
| "holds E ctx (NotRule r) = (\<not> holds E ctx r)"

lemma PStr_in_strings [simp]: "PStr s \<in> set vs \<longleftrightarrow> s \<in> set (strings vs)"
  by (induction vs rule: strings.induct) auto

lemma strings_map [simp]: "strings (map PStr xs) = xs"
  by (induction xs) auto

lemma strings_only_map [simp]: "strings_only (map PStr xs)"
  by (induction xs) auto

lemma any_in_strings: "strings_only vs \<Longrightarrow> any_in vs t = Inr (\<exists>v \<in> set (strings vs). is_sub v t)"
  by (induction vs t rule: any_in.induct) auto

lemma verdict_interrupt [simp]:
  "verdict why (Inr b) = Inr \<lparr>interrupt = b, reason = why\<rparr>" "verdict why (Inl e) = Inl e"
  by (simp_all add: verdict_def)

lemma evaluate_holds:
  "rule_wf r \<Longrightarrow> \<exists>v. evaluate E ctx r = Inr v \<and> interrupt v = holds E ctx r"
  "list_all rule_wf rs \<Longrightarrow> \<exists>v. evaluate_and E ctx rs = Inr v \<and> interrupt v = (\<forall>r \<in> set rs. holds E ctx r)"
  "list_all rule_wf rs \<Longrightarrow> \<exists>v. evaluate_or E ctx rs = Inr v \<and> interrupt v = (\<exists>r \<in> set rs. holds E ctx r)"
proof (induction E ctx r and E ctx rs and E ctx rs rule: evaluate_evaluate_and_evaluate_or.induct)
  case (1 E ctx vs m)
  then show ?case by (auto simp: any_in_strings Let_def)
next
  case (5 E ctx ds)
  then show ?case by (auto simp: any_in_strings)
next
  case (11 E ctx r rs)
  then obtain v where "evaluate E ctx r = Inr v" "interrupt v = holds E ctx r" by auto
  with 11 show ?case by auto
next
  case (13 E ctx r rs)
  then obtain v where "evaluate E ctx r = Inr v" "interrupt v = holds E ctx r" by auto
  with 13 show ?case by auto
qed auto

section \<open>Configuration round trip\<close>

text \<open>The configuration dict of a tree, as the campaign column stores it.\<close>

fun rule_config :: "rule \<Rightarrow> pyval" where
  "rule_config (KeywordRule vs m) =
     PDict [(lit ''type'', PStr (lit ''keyword'')), (lit ''values'', PList vs), (lit ''match'', m)]"
| "rule_config (LengthRule n) = PDict [(lit ''type'', PStr (lit ''length'')), (lit ''value'', PInt n)]"
| "rule_config (DurationRule n) = PDict [(lit ''type'', PStr (lit ''duration'')), (lit ''value_ms'', PInt n)]"
| "rule_config (RegexRule p) = PDict [(lit ''type'', PStr (lit ''regex'')), (lit ''pattern'', PStr p)]"
| "rule_config (SplitByDelimiterRule ds) =
     PDict [(lit ''type'', PStr (lit ''split_by_delimiter'')), (lit ''delimiters'', PList ds)]"
| "rule_config NoneRule = PDict [(lit ''type'', PStr (lit ''none''))]"
| "rule_config (AndRule rs) = PDict [(lit ''type'', PStr (lit ''and'')), (lit ''rules'', PList (map rule_config rs))]"
| "rule_config (OrRule rs) = PDict [(lit ''type'', PStr (lit ''or'')), (lit ''rules'', PList (map rule_config rs))]"
| "rule_config (NotRule r) = PDict [(lit ''type'', PStr (lit ''not'')), (lit ''rule'', rule_config r)]"

fun patterns_ok :: "pyenv \<Rightarrow> rule \<Rightarrow> bool" where
  "patterns_ok E (RegexRule p) = re_ok E p"
| "patterns_ok E (AndRule rs) = list_all (patterns_ok E) rs"
| "patterns_ok E (OrRule rs) = list_all (patterns_ok E) rs"
| "patterns_ok E (NotRule r) = patterns_ok E r"
| "patterns_ok E _ = True"

lemma map_res_inverse:
  "(\<And>x. x \<in> set xs \<Longrightarrow> f (g x) = Inr x) \<Longrightarrow> map_res f (map g xs) = Inr xs"
  by (induction xs) auto

lemma build_rule_config: "patterns_ok E r \<Longrightarrow> build_rule E (rule_config r) = Inr r"
proof (induction r)
  case (AndRule rs)
  then have "map_res (build_rule E) (map rule_config rs) = Inr rs"
    by (intro map_res_inverse) (auto simp: list_all_iff)
  then show ?case by (subst build_rule.simps) simp
next
  case (OrRule rs)
  then have "map_res (build_rule E) (map rule_config rs) = Inr rs"
    by (intro map_res_inverse) (auto simp: list_all_iff)
  then show ?case by (subst build_rule.simps) simp
next
  case (NotRule r)
  then show ?case by (subst build_rule.simps) simp
qed (simp_all add: build_rule.simps)

section \<open>The monitors over time\<close>

fun partial_monitor :: "pyenv \<Rightarrow> interruption_config \<Rightarrow> (clock \<times> pystr) list
    \<Rightarrow> 'a call_session_scheme \<Rightarrow> 'a call_session_scheme res" where
  "partial_monitor E cfg [] s = Inr s"
| "partial_monitor E cfg ((now, p) # ps) s = (case partial_step E cfg now p s of
     Inl e \<Rightarrow> Inl e | Inr s' \<Rightarrow> partial_monitor E cfg ps s')"

definition interruptions :: "'a call_session_scheme \<Rightarrow> nat" where
  "interruptions s = length (filter (event_is ''interruption'') (full_transcript s))"

lemma plain_interruption [simp]:
  "plain_fields [(lit ''interrupted_event_id'', a), (lit ''user_text_at_interruption'', b)]"
  by (simp add: plain_fields_def)

lemma session_inv_irrelevant [simp]:
  "session_inv E (s\<lparr>current_user_speech_started_ms := a\<rparr>) = session_inv E s"
  "session_inv E (s\<lparr>interruption_signaled := b\<rparr>) = session_inv E s"
  "session_inv E (s\<lparr>current_speaking_task := c\<rparr>) = session_inv E s"
  by (simp_all add: session_inv_def warnings_def)

lemma partial_step_inv:
  "session_inv E s \<Longrightarrow> partial_step E cfg now p s = Inr s' \<Longrightarrow> session_inv E s'"
  by (auto simp: partial_step_def Let_def intro!: record_event_inv
      split: if_splits sum.splits partial_verdict.splits)

text \<open>What a step does to the latch, the cancelled playback and the transcript.\<close>

lemma partial_step_latch:
  assumes "partial_step E cfg now p s = Inr s'"
  shows "interruptions s' = interruptions s
           + (if interruption_signaled s' \<and> \<not> interruption_signaled s then 1 else 0)"
    and "interruption_signaled s \<Longrightarrow> s' = s"
    and "\<not> in_processing_turn s \<Longrightarrow> current_speaking_task s = None \<Longrightarrow> s' = s"
    and "interruption_signaled s' \<Longrightarrow> \<not> interruption_signaled s \<Longrightarrow>
         current_speaking_task s' = cancel_task (current_speaking_task s)"
    and "\<not> interruption_signaled s' \<Longrightarrow> current_speaking_task s' = current_speaking_task s"
  using assms
  by (auto simp: partial_step_def Let_def interruptions_def record_event_def store_event_def
      event_is_def dialog_event_types_def plain_fields_def
      split: if_splits sum.splits partial_verdict.splits)

definition speech_anchor :: "clock \<Rightarrow> 'a call_session_scheme \<Rightarrow> int" where
  "speech_anchor now s = (case current_user_speech_started_ms s of Some a \<Rightarrow> a | None \<Rightarrow> to_ms now)"

lemma partial_step_triggers:
  assumes "in_processing_turn s \<or> current_speaking_task s \<noteq> None" "\<not> interruption_signaled s"
    and "strip p \<noteq> []"
    and "evaluate_partial E (strip p) (speech_anchor now s) (to_ms now) cfg = Inr (Triggered w)"
  shows "\<exists>s'. partial_step E cfg now p s = Inr s' \<and> interruption_signaled s'"
  using assms
  by (cases "current_user_speech_started_ms s") (auto simp: partial_step_def Let_def speech_anchor_def)

lemma partial_monitor_frozen:
  "interruption_signaled s \<Longrightarrow> partial_monitor E cfg ps s = Inr s"
  by (induction E cfg ps s rule: partial_monitor.induct) (auto simp: partial_step_def)

lemma evaluate_partial_total:
  assumes "rule_wf (barge_rule cfg)"
  shows "evaluate_partial E t a n cfg \<noteq> Inl e"
  using evaluate_holds(1) [OF assms, of E "\<lparr>in_text = t, elapsed = n - a\<rparr>"]
  by (auto simp: evaluate_partial_def)

lemma partial_step_total:
  assumes "rule_wf (barge_rule cfg)"
  shows "\<exists>s'. partial_step E cfg now p s = Inr s'"
  using evaluate_partial_total [OF assms]
  by (auto simp: partial_step_def Let_def split: sum.split partial_verdict.split)

lemma partial_monitor_total:
  "rule_wf (barge_rule cfg) \<Longrightarrow> \<exists>s'. partial_monitor E cfg ps s = Inr s'"
proof (induction ps arbitrary: s)
  case (Cons a ps)
  obtain now p where a: "a = (now, p)" by (cases a)
  obtain s1 where "partial_step E cfg now p s = Inr s1"
    using partial_step_total [OF Cons.prems] by blast
  with Cons a show ?case by simp
qed simp

definition vad_inv :: "int \<times> int \<Rightarrow> bool" where
  "vad_inv v \<longleftrightarrow> 0 \<le> fst v \<and> 0 \<le> snd v \<and> snd v < silence_hangover_ms \<and> (fst v = 0 \<longrightarrow> snd v = 0)"

lemma vad_frame_inv: "vad_inv v \<Longrightarrow> 0 < ms \<Longrightarrow> vad_inv (vad_frame r ms v)"
  by (auto simp: vad_inv_def vad_frame_def silence_hangover_ms_def Let_def split: prod.splits if_splits)

lemma vad_silence:
  assumes "vad_inv v" and "\<forall>(r, ms) \<in> set fs. r < voice_rms_threshold \<and> 0 < ms"
  shows "fold (\<lambda>(r, ms). vad_frame r ms) fs v =
     (if 0 < fst v \<and> snd v + sum_list (map snd fs) < silence_hangover_ms
      then (fst v, snd v + sum_list (map snd fs)) else (0, 0))"
  using assms
proof (induction fs arbitrary: v)
  case Nil
  then show ?case by (cases v) (auto simp: vad_inv_def)
next
  case (Cons f fs)
  obtain r ms where f: "f = (r, ms)" by (cases f)
  have inv: "vad_inv (vad_frame r ms v)"
    using Cons.prems f by (intro vad_frame_inv) auto
  have nonneg: "0 \<le> sum_list (map snd fs)"
    using Cons.prems by (intro sum_list_nonneg) auto
  have fr: "vad_frame r ms v = (if 0 < fst v \<and> snd v + ms < silence_hangover_ms
      then (fst v, snd v + ms) else (0, 0))"
    using Cons.prems f by (cases v) (auto simp: vad_frame_def vad_inv_def Let_def)
  show ?case
    using Cons.IH [OF inv] Cons.prems f fr nonneg by (auto simp: algebra_simps)
qed

lemma isqrt_below_ge: "k \<le> isqrt_below m n \<longleftrightarrow> k \<le> m \<and> k * k \<le> n"
proof (induction m)
  case (Suc m)
  show ?case
  proof (cases "Suc m * Suc m \<le> n")
    case True
    have "k \<le> Suc m \<Longrightarrow> k * k \<le> n"
      using True by (meson mult_le_mono order_trans)
    with True show ?thesis by auto
  next
    case False
    then show ?thesis using Suc by (auto simp: le_Suc_eq)
  qed
qed auto

lemma isqrt_ge: "k \<le> isqrt n \<longleftrightarrow> k * k \<le> n"
  unfolding isqrt_def isqrt_below_ge by (cases k) (auto simp: algebra_simps)

lemma partial_monitor_Cons:
  assumes "partial_monitor E cfg ((now, p) # ps) s = Inr s'"
  obtains s1 where "partial_step E cfg now p s = Inr s1" "partial_monitor E cfg ps s1 = Inr s'"
  using assms by (cases "partial_step E cfg now p s") auto

lemma partial_monitor_latch:
  "partial_monitor E cfg ps s = Inr s' \<Longrightarrow>
   interruptions s' = interruptions s + (if interruption_signaled s' \<and> \<not> interruption_signaled s then 1 else 0)"
proof (induction ps arbitrary: s)
  case (Cons a ps)
  show ?case
  proof (cases "interruption_signaled s")
    case True
    with Cons.prems show ?thesis using partial_monitor_frozen [of s E cfg "a # ps"] by auto
  next
    case False
    obtain now p where a: "a = (now, p)" by (cases a)
    from Cons.prems [unfolded a] obtain s1
      where st: "partial_step E cfg now p s = Inr s1" and r: "partial_monitor E cfg ps s1 = Inr s'"
      by (rule partial_monitor_Cons)
    show ?thesis
    proof (cases "interruption_signaled s1")
      case True
      with r have "s' = s1" using partial_monitor_frozen [OF True, of E cfg ps] by simp
      with True False partial_step_latch(1) [OF st] show ?thesis by simp
    next
      case nsig: False
      with False partial_step_latch(1) [OF st] Cons.IH [OF r] show ?thesis by simp
    qed
  qed
qed simp

lemma partial_monitor_inv:
  "session_inv E s \<Longrightarrow> partial_monitor E cfg ps s = Inr s' \<Longrightarrow> session_inv E s'"
proof (induction ps arbitrary: s)
  case (Cons a ps)
  then show ?case
    by (metis surj_pair partial_monitor_Cons partial_step_inv)
qed simp

lemma partial_monitor_listening:
  "\<not> in_processing_turn s \<Longrightarrow> current_speaking_task s = None \<Longrightarrow> partial_monitor E cfg ps s = Inr s"
  by (induction E cfg ps s rule: partial_monitor.induct) (auto simp: partial_step_def)

section \<open>Properties\<close>

text \<open>A compiled rule tree whose keywords and delimiters are strings always evaluates, and
  its verdict is the Boolean meaning of the tree: short-circuiting changes the reported
  reason only.\<close>

theorem evaluate_is_boolean:
  assumes "rule_wf r"
  shows "\<exists>v. evaluate E ctx r = Inr v \<and> interrupt v = holds E ctx r"
  using assms by (rule evaluate_holds(1))

theorem evaluate_is_boolean_witness:
  "let r = OrRule [NoneRule, NotRule (KeywordRule [PStr (lit ''ok'')] (PStr (lit ''contains'')))];
       ctx = \<lparr>in_text = lit '' ok.'', elapsed = 0\<rparr>
   in rule_wf r \<and> (\<exists>v. evaluate demo_env ctx r = Inr v \<and> \<not> interrupt v)"
  using evaluate_is_boolean [of "OrRule [NoneRule, NotRule (KeywordRule [PStr (lit ''ok'')] (PStr (lit ''contains'')))]"
      demo_env "\<lparr>in_text = lit '' ok.'', elapsed = 0\<rparr>"]
  by (auto simp: Let_def lit_def is_space_def strip_of_def lstrip_of_def rstrip_of_def trailing_punct_def)

text \<open>The tree synthesised from the legacy columns decides exactly as the historical
  sequence: a whitelisted text never interrupts, then the length threshold, then the
  duration threshold; the reason names the first test that failed.\<close>

theorem default_rule_is_legacy:
  "evaluate E ctx (default_rule wl n d) =
     (if strip (in_text ctx) \<in> set wl then Inr \<lparr>interrupt = False, reason = ''not(keyword)''\<rparr>
      else if int (length (strip (in_text ctx))) < n then Inr \<lparr>interrupt = False, reason = ''length''\<rparr>
      else if elapsed ctx < d then Inr \<lparr>interrupt = False, reason = ''duration''\<rparr>
      else Inr \<lparr>interrupt = True, reason = ''and''\<rparr>)"
  by (auto simp: default_rule_def)

text \<open>Compiling the configuration of a rule tree gives the tree back, provided its regular
  expressions compile.\<close>

theorem build_rule_roundtrip:
  assumes "patterns_ok E r"
  shows "build_rule E (rule_config r) = Inr r"
  using assms by (rule build_rule_config)

theorem build_rule_roundtrip_witness:
  "let E = \<lparr>re_ok = (\<lambda>p. p \<noteq> []), re_search = is_sub, letter_or_number = (\<lambda>c. 48 \<le> c), json_loads = (\<lambda>_. None), str_other = (\<lambda>_. [])\<rparr>;
       r = AndRule [NotRule (RegexRule (lit ''a'')), LengthRule 2]
   in patterns_ok E r \<and> build_rule E (rule_config r) = Inr r"
  using build_rule_roundtrip [of "\<lparr>re_ok = (\<lambda>p. p \<noteq> []), re_search = is_sub,
      letter_or_number = (\<lambda>c. 48 \<le> c), json_loads = (\<lambda>_. None), str_other = (\<lambda>_. [])\<rparr>"
      "AndRule [NotRule (RegexRule (lit ''a'')), LengthRule 2]"]
  by (simp add: Let_def)

text \<open>A malformed rule dict is refused at assembly, but not always with the \<^verbatim>\<open>ValueError\<close>
  that \<^verbatim>\<open>build_rule\<close> documents: a missing member raises \<^verbatim>\<open>KeyError\<close>, a member of the wrong type
  \<^verbatim>\<open>TypeError\<close>, a bad pattern \<^verbatim>\<open>re.error\<close>.\<close>

theorem build_rule_other_errors:
  "build_rule E (PDict [(lit ''type'', PStr (lit ''keyword''))]) = Inl KeyError
   \<and> build_rule E (PDict [(lit ''type'', PStr (lit ''length'')), (lit ''value'', PNone)]) = Inl TypeError
   \<and> (\<not> re_ok E p \<longrightarrow>
        build_rule E (PDict [(lit ''type'', PStr (lit ''regex'')), (lit ''pattern'', PStr p)]) = Inl ReError)
   \<and> build_rule E (PDict [(lit ''type'', PStr (lit ''xor''))]) = Inl ValueError"
  by (simp add: build_rule.simps)

theorem build_rule_other_errors_witness:
  "build_rule \<lparr>re_ok = (\<lambda>p. False), re_search = is_sub, letter_or_number = (\<lambda>c. False), json_loads = (\<lambda>_. None), str_other = (\<lambda>_. [])\<rparr>
     (PDict [(lit ''type'', PStr (lit ''regex'')), (lit ''pattern'', PStr (lit ''(''))]) = Inl ReError"
  using build_rule_other_errors [of "\<lparr>re_ok = (\<lambda>p. False), re_search = is_sub,
      letter_or_number = (\<lambda>c. False), json_loads = (\<lambda>_. None), str_other = (\<lambda>_. [])\<rparr>" "lit ''(''"]
  by simp

text \<open>C28. Over any sequence of partials the monitor records at most one interruption until
  the signal is cleared, exactly when it raises the signal; a raised signal stays; outside a
  reply turn and without playback it does nothing; and it never corrupts the session.\<close>

theorem partial_monitor_latches_once:
  assumes "rule_wf (barge_rule cfg)" and "session_inv E s"
  shows "\<exists>s'. partial_monitor E cfg ps s = Inr s' \<and> session_inv E s'
    \<and> interruptions s' = interruptions s + (if interruption_signaled s' \<and> \<not> interruption_signaled s then 1 else 0)
    \<and> (interruption_signaled s \<longrightarrow> s' = s)
    \<and> (\<not> in_processing_turn s \<and> current_speaking_task s = None \<longrightarrow> s' = s)"
proof -
  obtain s' where r: "partial_monitor E cfg ps s = Inr s'"
    using partial_monitor_total [OF assms(1)] by blast
  with partial_monitor_inv [OF assms(2) r] partial_monitor_latch [OF r]
    partial_monitor_frozen [of s E cfg ps] partial_monitor_listening [of s E cfg ps]
  show ?thesis by auto
qed

theorem partial_monitor_latches_once_witness:
  "let s = (new_session 1 1 1 [] [] 0)\<lparr>in_processing_turn := True\<rparr>;
       cfg = \<lparr>whitelist = [], barge_rule = LengthRule 2\<rparr>
   in (\<exists>s'. partial_monitor demo_env cfg [(1, lit ''no''), (2, lit ''wait'')] s = Inr s'
         \<and> interruption_signaled s' \<and> interruptions s' = 1)"
proof -
  let ?s = "(new_session 1 1 1 [] [] 0)\<lparr>in_processing_turn := True\<rparr>"
  let ?cfg = "\<lparr>whitelist = [], barge_rule = LengthRule 2\<rparr>"
  have inv: "session_inv demo_env ?s"
    using new_session_inv [of demo_env 1 1 1 "[]" "[]" 0] by (simp add: session_inv_def warnings_def)
  obtain s' where r: "partial_monitor demo_env ?cfg [(1, lit ''no''), (2, lit ''wait'')] ?s = Inr s'"
    and n: "interruptions s' = interruptions ?s + (if interruption_signaled s' \<and> \<not> interruption_signaled ?s then 1 else 0)"
    using partial_monitor_latches_once [of ?cfg demo_env ?s "[(1, lit ''no''), (2, lit ''wait'')]"] inv by auto
  obtain s1 where st: "partial_step demo_env ?cfg 1 (lit ''no'') ?s = Inr s1" and sg: "interruption_signaled s1"
    using partial_step_triggers [of ?s "lit ''no''" demo_env 1 ?cfg "''length''"]
    by (auto simp: new_session_def evaluate_partial_def lit_def is_space_def strip_of_def
        lstrip_of_def rstrip_of_def)
  have "s' = s1"
    using r by (simp only: partial_monitor.simps(2) [of demo_env ?cfg 1] st sum.case
        partial_monitor_frozen [OF sg] sum.inject)
  with sg n have "interruption_signaled s'" "interruptions s' = 1"
    by (simp_all add: interruptions_def new_session_def)
  with r show ?thesis unfolding Let_def by blast
qed

text \<open>The voice-activity mirror: starting from a consistent state, contiguous silence keeps
  the active span only while it lasts less than the 300 ms hangover, and clears it from
  then on.\<close>

theorem vad_hangover:
  assumes "vad_inv v" and "\<forall>(r, ms) \<in> set fs. r < voice_rms_threshold \<and> 0 < ms"
  shows "fst (fold (\<lambda>(r, ms). vad_frame r ms) fs v) =
     (if snd v + sum_list (map snd fs) < 300 then fst v else 0)"
  using vad_silence [OF assms] assms(1)
  by (auto simp: vad_inv_def silence_hangover_ms_def)

theorem vad_hangover_witness:
  "fst (fold (\<lambda>(r, ms). vad_frame r ms) [(0, 200), (100, 150)] (500, 0)) = 0"
  using vad_hangover [of "(500, 0)" "[(0, 200), (100, 150)]"]
  by (simp add: vad_inv_def silence_hangover_ms_def voice_rms_threshold_def)

end
