(* ===== verification/Turn_Policy.thy ===== *)
theory Turn_Policy
  imports Call_State
begin

text \<open>
  The decisions taken between turns: silence (\<^verbatim>\<open>realtime/silence_detector.py\<close>), wrap-up
  (\<^verbatim>\<open>wrapup/manager.py\<close>), hand-off to a human (\<^verbatim>\<open>transfer/manager.py\<close>) and the filler
  phrases (\<^verbatim>\<open>realtime/filler_manager.py\<close>).

  A draw of \<^verbatim>\<open>random.choice\<close> is an argument of the definition that makes it; an LLM call is
  represented by its outcome \<open>chat_result\<close>, \<open>ChatFailed\<close> for a timeout or any exception.

  Shown: the silence ladder activates and then hangs up, and in wrap-up never activates;
  wrap-up ends at its round or time limit; the hand-off triggers in their order; fillers
  do not repeat before the pool is exhausted.
\<close>

section \<open>Silence\<close>

record silence_config =
  threshold_ms :: int
  max_activations :: int
  silence_phrases :: "pystr list"
  hangup_phrase :: pystr
  wrap_up_hangup_ms :: int

datatype silence_decision = SilenceWait | SilenceActivate pystr | SilenceHangup "pystr option"

definition silence_calc_origin_ts :: "int option \<Rightarrow> int option \<Rightarrow> int" where
  "silence_calc_origin_ts last_user_speech_end_ms last_tts_end_ms =
     (if last_user_speech_end_ms = None \<and> last_tts_end_ms = None then 0
      else max (case last_user_speech_end_ms of None \<Rightarrow> 0 | Some a \<Rightarrow> a)
               (case last_tts_end_ms of None \<Rightarrow> 0 | Some a \<Rightarrow> a))"

definition evaluate_silence :: "int \<Rightarrow> nat \<Rightarrow> silence_config \<Rightarrow> bool \<Rightarrow> silence_decision" where
  "evaluate_silence silence_elapsed_ms activations_so_far config wrapping =
     (if wrapping then
        (if silence_elapsed_ms \<ge> wrap_up_hangup_ms config then SilenceHangup None else SilenceWait)
      else if silence_elapsed_ms < threshold_ms config then SilenceWait
      else if int activations_so_far \<ge> max_activations config
      then SilenceHangup (Some (hangup_phrase config))
      else if silence_phrases config = [] then SilenceActivate []
      else SilenceActivate (silence_phrases config !
             (min activations_so_far (length (silence_phrases config) - 1))))"

section \<open>Wrap-up\<close>

record wrap_up_config =
  max_rounds :: int
  max_seconds :: int
  closing_phrases :: "pystr list"
  wrap_referee_enabled :: bool

record wrap_up_decision =
  proceed :: bool
  closing_phrase :: pystr
  wrap_reason :: string

definition default_closing :: pystr where
  "default_closing = [22909, 30340, 65292, 20877, 35265, 12290]"

definition pick_phrase :: "nat \<Rightarrow> wrap_up_config \<Rightarrow> pystr" where
  "pick_phrase draw config =
     (if closing_phrases config = [] then default_closing else py_choice draw (closing_phrases config))"

definition evaluate_wrap_up :: "nat \<Rightarrow> int \<Rightarrow> clock option \<Rightarrow> wrap_up_config \<Rightarrow> clock \<Rightarrow> wrap_up_decision" where
  "evaluate_wrap_up draw rounds_so_far started_at config now =
     (if rounds_so_far \<ge> max_rounds config
      then \<lparr>proceed = False, closing_phrase = pick_phrase draw config, wrap_reason = ''max_rounds''\<rparr>
      else case started_at of
        Some t \<Rightarrow>
          if now - t \<ge> max_seconds config * 1000000000
          then \<lparr>proceed = False, closing_phrase = pick_phrase draw config, wrap_reason = ''max_seconds''\<rparr>
          else \<lparr>proceed = True, closing_phrase = [], wrap_reason = ''ok''\<rparr>
      | None \<Rightarrow> \<lparr>proceed = True, closing_phrase = [], wrap_reason = ''ok''\<rparr>)"

section \<open>Hand-off\<close>

record transfer_config =
  keyword_enabled :: bool
  transfer_keywords :: "pystr list"
  intent_enabled :: bool
  intent_threshold :: "rat option"
  intent_system_prompt :: pystr
  round_enabled :: bool
  round_threshold :: "int option"
  llm_enabled :: bool
  llm_system_prompt :: pystr
  transfer_phrases :: "pystr list"

record transfer_decision =
  triggered :: bool
  trigger_type :: "string option"
  trigger_detail :: pystr
  transfer_phrase :: pystr

definition no_transfer :: transfer_decision where
  "no_transfer = \<lparr>triggered = False, trigger_type = None, trigger_detail = [], transfer_phrase = []\<rparr>"

definition hit :: "nat \<Rightarrow> string \<Rightarrow> pystr \<Rightarrow> transfer_config \<Rightarrow> transfer_decision" where
  "hit draw ty detail config =
     \<lparr>triggered = True, trigger_type = Some ty, trigger_detail = detail,
      transfer_phrase = (if transfer_phrases config \<noteq> [] then py_choice draw (transfer_phrases config) else [])\<rparr>"

definition evaluate_transfer_cheap :: "nat \<Rightarrow> pystr \<Rightarrow> int \<Rightarrow> bool \<Rightarrow> transfer_config \<Rightarrow> transfer_decision" where
  "evaluate_transfer_cheap draw user_text turn_count goal_achieved config =
     (case (if keyword_enabled config \<and> transfer_keywords config \<noteq> []
            then find (\<lambda>kw. kw \<noteq> [] \<and> is_sub kw user_text) (transfer_keywords config) else None) of
        Some kw \<Rightarrow> hit draw ''keyword'' kw config
      | None \<Rightarrow>
          (case round_threshold config of
             Some n \<Rightarrow> if round_enabled config \<and> turn_count \<ge> n \<and> \<not> goal_achieved
                       then hit draw ''round'' (lit ''turn_count='' @ show_int turn_count) config
                       else no_transfer
           | None \<Rightarrow> no_transfer))"

text \<open>The outcome of \<^verbatim>\<open>llm.chat\<close> under its timeout, and what is read from its JSON content. A
  decoded value that is not a dict has no \<^verbatim>\<open>get\<close>: \<^verbatim>\<open>AttributeError\<close>.\<close>

datatype chat_result = ChatFailed | ChatText pystr

definition call_intent :: "pyenv \<Rightarrow> chat_result \<Rightarrow> rat option res" where
  "call_intent E r = (case r of
       ChatFailed \<Rightarrow> Inr None
     | ChatText c \<Rightarrow> (case json_loads E c of
           None \<Rightarrow> Inr None
         | Some (PDict d) \<Rightarrow> (case dget d (lit ''probability'') of
               PInt i \<Rightarrow> Inr (Some (of_int i))
             | PBool b \<Rightarrow> Inr (Some (if b then 1 else 0))
             | PFloat x \<Rightarrow> Inr (Some x)
             | _ \<Rightarrow> Inr None)
         | Some _ \<Rightarrow> Inl AttributeError))"

definition call_independent_llm :: "pyenv \<Rightarrow> chat_result \<Rightarrow> bool res" where
  "call_independent_llm E r = (case r of
       ChatFailed \<Rightarrow> Inr False
     | ChatText c \<Rightarrow> (case json_loads E c of
           None \<Rightarrow> Inr False
         | Some (PDict d) \<Rightarrow> Inr (truthy (dget d (lit ''transfer'')))
         | Some _ \<Rightarrow> Inl AttributeError))"

text \<open>The two calls as the outcomes \<open>ri\<close> and \<open>rl\<close>; each is made only when reached.\<close>

definition evaluate_transfer_llm :: "pyenv \<Rightarrow> nat \<Rightarrow> chat_result \<Rightarrow> chat_result \<Rightarrow> transfer_config
    \<Rightarrow> transfer_decision res" where
  "evaluate_transfer_llm E draw ri rl config =
     (case (case intent_threshold config of
              Some th \<Rightarrow>
                if intent_enabled config then
                  (case call_intent E ri of
                     Inl e \<Rightarrow> Inl e
                   | Inr (Some p) \<Rightarrow>
                       if p \<ge> th
                       then Inr (Some (hit draw ''intent'' (lit ''probability='' @ format_2f p) config))
                       else Inr None
                   | Inr None \<Rightarrow> Inr None)
                else Inr None
            | None \<Rightarrow> Inr None) of
        Inl e \<Rightarrow> Inl e
      | Inr (Some d) \<Rightarrow> Inr d
      | Inr None \<Rightarrow>
          if llm_enabled config then
            (case call_independent_llm E rl of
               Inl e \<Rightarrow> Inl e
             | Inr flag \<Rightarrow> Inr (if flag then hit draw ''llm'' (lit ''transfer=true'') config else no_transfer))
          else Inr no_transfer)"

definition evaluate_transfer :: "pyenv \<Rightarrow> nat \<Rightarrow> pystr \<Rightarrow> int \<Rightarrow> bool \<Rightarrow> chat_result \<Rightarrow> chat_result
    \<Rightarrow> transfer_config \<Rightarrow> transfer_decision res" where
  "evaluate_transfer E draw user_text turn_count goal_achieved ri rl config =
     (let cheap = evaluate_transfer_cheap draw user_text turn_count goal_achieved config in
      if triggered cheap then Inr cheap else evaluate_transfer_llm E draw ri rl config)"

section \<open>Fillers\<close>

definition ready_phrases :: "pystr list \<Rightarrow> pystr list" where
  "ready_phrases phrases = filter (\<lambda>p. strip p \<noteq> []) phrases"

definition filler_pick :: "nat \<Rightarrow> pystr list \<Rightarrow> pystr set \<Rightarrow> pystr option \<times> pystr set" where
  "filler_pick draw phrases used =
     (let ready = ready_phrases phrases in
      if ready = [] then (None, used)
      else (let unused = filter (\<lambda>p. p \<notin> used) ready;
                used1 = (if unused = [] then {} else used);
                pool = (if unused = [] then ready else unused);
                phrase = py_choice draw pool
            in (Some phrase, insert phrase used1)))"

record filler_manager =
  filler_task :: "(pystr \<times> task_status) option"
  filler_stopped :: bool

definition new_filler :: filler_manager where
  "new_filler = \<lparr>filler_task = None, filler_stopped = False\<rparr>"

definition filler_running :: "filler_manager \<Rightarrow> bool" where
  "filler_running m = (case filler_task m of Some (_, TaskDone) \<Rightarrow> False | None \<Rightarrow> False | _ \<Rightarrow> True)"

definition filler_start :: "nat \<Rightarrow> pystr list \<Rightarrow> filler_manager \<times> 'a call_session_scheme
    \<Rightarrow> filler_manager \<times> 'a call_session_scheme" where
  "filler_start draw phrases = (\<lambda>(m, s).
     if filler_running m then (m, s)
     else (case filler_pick draw phrases (used_filler_phrases s) of
        (None, u) \<Rightarrow> (m, s\<lparr>used_filler_phrases := u\<rparr>)
      | (Some p, u) \<Rightarrow> (\<lparr>filler_task = Some (p, TaskRunning), filler_stopped = False\<rparr>,
                        s\<lparr>used_filler_phrases := u\<rparr>)))"

text \<open>How the streaming of a filler ends: played, failed, or cancelled (then nothing is recorded).\<close>

datatype filler_outcome = FillerPlayed | FillerFailed | FillerCancelled

definition filler_play_end :: "pyenv \<Rightarrow> clock \<Rightarrow> filler_outcome \<Rightarrow> filler_manager \<times> 'a call_session_scheme
    \<Rightarrow> filler_manager \<times> 'a call_session_scheme" where
  "filler_play_end E now out = (\<lambda>(m, s). case filler_task m of
       Some (p, TaskRunning) \<Rightarrow>
         (m\<lparr>filler_task := Some (p, TaskDone)\<rparr>,
          if out = FillerPlayed \<and> \<not> filler_stopped m
          then record_event E now ''filler''
                 [(lit ''text'', PStr p), (lit ''duration_ms'', PInt (max 50 (int (length p) * 20)))] s
          else s)
     | _ \<Rightarrow> (m, s))"

definition filler_stop :: "filler_manager \<Rightarrow> filler_manager" where
  "filler_stop m = \<lparr>filler_task = None, filler_stopped = True\<rparr>"

section \<open>Lemmas\<close>

lemma evaluate_silence_ladder:
  assumes "threshold_ms config \<le> ms"
  shows "evaluate_silence ms n config False =
    (if int n < max_activations config
     then SilenceActivate (if silence_phrases config = [] then []
            else silence_phrases config ! min n (length (silence_phrases config) - 1))
     else SilenceHangup (Some (hangup_phrase config)))"
  using assms by (auto simp: evaluate_silence_def)

lemma evaluate_silence_wrap: "evaluate_silence ms n config True \<noteq> SilenceActivate p"
  by (simp add: evaluate_silence_def)

lemma wrap_up_round_limit:
  "max_rounds config \<le> n \<Longrightarrow> \<not> proceed (evaluate_wrap_up i n t config now)"
  by (simp add: evaluate_wrap_up_def)

lemma pick_phrase_nonempty:
  "\<forall>p \<in> set (closing_phrases config). p \<noteq> [] \<Longrightarrow> pick_phrase i config \<noteq> []"
  using py_choice_in [of "closing_phrases config" i]
  by (auto simp: pick_phrase_def default_closing_def)

text \<open>The picks of successive turns.\<close>

fun filler_picks :: "nat list \<Rightarrow> pystr list \<Rightarrow> pystr set \<Rightarrow> pystr list" where
  "filler_picks [] phrases used = []"
| "filler_picks (d # ds) phrases used = (case filler_pick d phrases used of
     (None, u) \<Rightarrow> filler_picks ds phrases u
   | (Some p, u) \<Rightarrow> p # filler_picks ds phrases u)"

lemma filler_pick_fresh:
  assumes "\<exists>p \<in> set (ready_phrases ps). p \<notin> used"
  shows "\<exists>p. filler_pick d ps used = (Some p, insert p used) \<and> p \<in> set (ready_phrases ps) - used"
proof -
  let ?un = "filter (\<lambda>p. p \<notin> used) (ready_phrases ps)"
  have ne: "?un \<noteq> []" "ready_phrases ps \<noteq> []" using assms by (auto simp: filter_empty_conv)
  then have "py_choice d ?un \<in> set ?un" by (intro py_choice_in)
  with ne show ?thesis by (auto simp: filler_pick_def Let_def)
qed

lemma filler_picks_distinct:
  "length ds \<le> card (set (ready_phrases ps) - used) \<Longrightarrow>
   distinct (filler_picks ds ps used) \<and> length (filler_picks ds ps used) = length ds
     \<and> set (filler_picks ds ps used) \<subseteq> set (ready_phrases ps) - used"
proof (induction ds arbitrary: used)
  case (Cons d ds)
  then have "set (ready_phrases ps) - used \<noteq> {}" by (metis card.empty length_Cons not_less_eq_eq zero_le)
  then have "\<exists>p \<in> set (ready_phrases ps). p \<notin> used" by blast
  then obtain p where p: "filler_pick d ps used = (Some p, insert p used)"
    and pin: "p \<in> set (ready_phrases ps) - used"
    using filler_pick_fresh by blast
  have "card (set (ready_phrases ps) - insert p used) = card (set (ready_phrases ps) - used) - 1"
    using pin by (metis Diff_insert card_Diff_singleton)
  with Cons.prems have "length ds \<le> card (set (ready_phrases ps) - insert p used)" by simp
  from Cons.IH [OF this] p pin show ?case by auto
qed simp

text \<open>The four hand-off conditions.\<close>

definition keyword_hit :: "pystr \<Rightarrow> transfer_config \<Rightarrow> bool" where
  "keyword_hit user_text c \<longleftrightarrow> keyword_enabled c \<and> (\<exists>kw \<in> set (transfer_keywords c). kw \<noteq> [] \<and> is_sub kw user_text)"

definition round_hit :: "int \<Rightarrow> bool \<Rightarrow> transfer_config \<Rightarrow> bool" where
  "round_hit n goal c \<longleftrightarrow> round_enabled c \<and> \<not> goal \<and> (\<exists>th. round_threshold c = Some th \<and> th \<le> n)"

definition intent_hit :: "pyenv \<Rightarrow> chat_result \<Rightarrow> transfer_config \<Rightarrow> bool" where
  "intent_hit E r c \<longleftrightarrow> intent_enabled c
     \<and> (\<exists>th p. intent_threshold c = Some th \<and> call_intent E r = Inr (Some p) \<and> th \<le> p)"

definition llm_hit :: "pyenv \<Rightarrow> chat_result \<Rightarrow> transfer_config \<Rightarrow> bool" where
  "llm_hit E r c \<longleftrightarrow> llm_enabled c \<and> call_independent_llm E r = Inr True"

definition not_a_dict :: "pyenv \<Rightarrow> chat_result \<Rightarrow> bool" where
  "not_a_dict E r = (case r of ChatFailed \<Rightarrow> False
     | ChatText c \<Rightarrow> (case json_loads E c of None \<Rightarrow> False | Some (PDict _) \<Rightarrow> False | Some _ \<Rightarrow> True))"

lemma call_errors:
  "call_intent E r = Inl e \<longleftrightarrow> e = AttributeError \<and> not_a_dict E r"
  "call_independent_llm E r = Inl e \<longleftrightarrow> e = AttributeError \<and> not_a_dict E r"
  by (auto simp: call_intent_def call_independent_llm_def not_a_dict_def
      split: chat_result.splits option.splits pyval.splits)

lemma hit_simps [simp]:
  "triggered (hit i ty d c)" "trigger_type (hit i ty d c) = Some ty"
  "\<not> triggered no_transfer" "trigger_type no_transfer = None"
  by (simp_all add: hit_def no_transfer_def)

lemma evaluate_transfer_cheap_type:
  "triggered (evaluate_transfer_cheap i t n g c) \<longleftrightarrow> keyword_hit t c \<or> round_hit n g c"
  "trigger_type (evaluate_transfer_cheap i t n g c) =
     (if keyword_hit t c then Some ''keyword'' else if round_hit n g c then Some ''round'' else None)"
proof -
  let ?f = "if keyword_enabled c \<and> transfer_keywords c \<noteq> []
            then find (\<lambda>kw. kw \<noteq> [] \<and> is_sub kw t) (transfer_keywords c) else None"
  have kw: "keyword_hit t c \<longleftrightarrow> ?f \<noteq> None"
    using find_None_iff [of "\<lambda>kw. kw \<noteq> [] \<and> is_sub kw t" "transfer_keywords c"]
    by (auto simp: keyword_hit_def)
  show "triggered (evaluate_transfer_cheap i t n g c) \<longleftrightarrow> keyword_hit t c \<or> round_hit n g c"
    and "trigger_type (evaluate_transfer_cheap i t n g c) =
     (if keyword_hit t c then Some ''keyword'' else if round_hit n g c then Some ''round'' else None)"
    unfolding kw by (auto simp: evaluate_transfer_cheap_def round_hit_def split: option.splits)
qed

lemma evaluate_transfer_llm_type:
  assumes "evaluate_transfer_llm E i ri rl c = Inr d"
  shows "trigger_type d = (if intent_hit E ri c then Some ''intent''
       else if llm_hit E rl c then Some ''llm'' else None)
    \<and> triggered d = (intent_hit E ri c \<or> llm_hit E rl c)"
  using assms
  by (auto simp: evaluate_transfer_llm_def intent_hit_def llm_hit_def
      split: option.splits sum.splits if_splits)

section \<open>Properties\<close>

text \<open>Hand-off: the decision is triggered exactly when one of the four conditions holds, and
  names the first one in the order keyword, round, intent, llm. The evaluation raises only
  \<^verbatim>\<open>AttributeError\<close>, only when no cheap trigger fired and an LLM answered with JSON that is not
  an object.\<close>

theorem evaluate_transfer_first_trigger:
  "case evaluate_transfer E i t n g ri rl c of
     Inl e \<Rightarrow> e = AttributeError \<and> \<not> keyword_hit t c \<and> \<not> round_hit n g c
            \<and> (intent_enabled c \<and> not_a_dict E ri \<or> llm_enabled c \<and> not_a_dict E rl)
   | Inr d \<Rightarrow>
       trigger_type d = (if keyword_hit t c then Some ''keyword'' else if round_hit n g c then Some ''round''
         else if intent_hit E ri c then Some ''intent'' else if llm_hit E rl c then Some ''llm'' else None)
       \<and> triggered d = (trigger_type d \<noteq> None)"
proof (cases "evaluate_transfer E i t n g ri rl c")
  case (Inl e)
  then have nt: "\<not> triggered (evaluate_transfer_cheap i t n g c)"
    and ev: "evaluate_transfer_llm E i ri rl c = Inl e"
    by (auto simp: evaluate_transfer_def Let_def split: if_splits)
  from ev have "e = AttributeError \<and> (intent_enabled c \<and> not_a_dict E ri \<or> llm_enabled c \<and> not_a_dict E rl)"
    by (auto simp: evaluate_transfer_llm_def call_errors split: option.splits sum.splits if_splits)
  with Inl nt show ?thesis by (simp add: evaluate_transfer_cheap_type)
next
  case (Inr d)
  then show ?thesis
    using evaluate_transfer_cheap_type [of i t n g c] evaluate_transfer_llm_type [of E i ri rl c d]
    by (auto simp: evaluate_transfer_def Let_def split: if_splits)
qed

text \<open>Fillers do not repeat before the pool is exhausted: from an empty history, as many
  picks as there are distinct non-blank phrases are pairwise distinct and cover the pool,
  whatever the random draws.\<close>

theorem fillers_cover_pool:
  assumes "length ds = card (set (ready_phrases ps))"
  shows "distinct (filler_picks ds ps {}) \<and> set (filler_picks ds ps {}) = set (ready_phrases ps)"
proof -
  have *: "distinct (filler_picks ds ps {})" "length (filler_picks ds ps {}) = length ds"
    "set (filler_picks ds ps {}) \<subseteq> set (ready_phrases ps)"
    using filler_picks_distinct [of ds ps "{}"] assms by auto
  then have "card (set (filler_picks ds ps {})) = card (set (ready_phrases ps))"
    using assms by (simp add: distinct_card)
  with * show ?thesis by (simp add: card_subset_eq)
qed

theorem fillers_cover_pool_witness:
  "distinct (filler_picks [5, 0] [lit ''um'', lit '' '', lit ''well''] {})"
  using fillers_cover_pool [of "[5, 0]" "[lit ''um'', lit '' '', lit ''well'']"]
  by (simp add: ready_phrases_def lit_def is_space_def strip_of_def lstrip_of_def rstrip_of_def)

end
