(* ===== verification/Runtime_Config.thy ===== *)
theory Runtime_Config
  imports Pipeline_Config Interruption Turn_Policy
begin

text \<open>
  Assembly of the per-call configuration (\<^verbatim>\<open>runtime_config.py\<close>). The database rows and the
  dial request that the loader reads are its arguments; \<open>slot_defaults\<close> are the field defaults
  of the slot classes of \<^verbatim>\<open>isales_common\<close>, used when a campaign has no main or extractor slot.

  Shown: the loader fails only for a missing campaign or a malformed rule tree; only enabled
  referees and personas enter the pipeline, with non-empty labels; and a configured
  temperature or top-p of zero is silently replaced by one.
\<close>

section \<open>Rows\<close>

datatype role_kind = RK_MAIN | RK_REFEREE | RK_RESTRUCTURE | RK_EXTRACTOR | RK_PERSONA

record role_config =
  rc_id :: int
  rc_kind :: role_kind
  rc_enabled :: bool
  rc_model :: "pystr option"
  rc_temperature :: "rat option"
  rc_top_p :: "rat option"
  rc_label :: "pystr option"
  ext_params :: "event option"
  current_prompt_version_id :: "int option"

record campaign_row =
  c_routing_rules :: "event list option"
  c_max_continuous_restructure :: int
  c_auto_restructure :: bool
  c_default_replies :: "pyval list option"
  c_tools :: "(pystr \<times> event) list option"
  c_persona_fanout_cap :: int
  c_referee_timeout_ms :: int
  c_referee_fail_open_route :: pystr
  c_filler_phrases :: "pyval list option"
  c_transfer_keyword_enabled :: bool
  c_transfer_keywords :: "pyval list option"
  c_transfer_intent_enabled :: bool
  c_transfer_intent_threshold :: "rat option"
  c_transfer_round_enabled :: bool
  c_transfer_round_threshold :: "int option"
  c_transfer_llm_enabled :: bool
  c_transfer_phrases :: "pyval list option"
  c_wrap_up_max_rounds :: int
  c_wrap_up_max_seconds :: int
  c_wrap_up_closing_phrases :: "pyval list option"
  c_wrap_up_referee_enabled :: bool
  c_interruption_whitelist :: "pyval list option"
  c_interruption_rules :: "pyval option"
  c_interruption_min_chars :: int
  c_interruption_min_duration_ms :: int
  c_silence_threshold_ms :: int
  c_max_silence_activations :: int
  c_silence_phrases :: "pyval list option"
  c_silence_hangup_phrase :: "pystr option"
  c_wrap_up_silence_hangup_ms :: int
  c_greeting :: "pystr option"
  c_voice_id :: "pystr option"
  c_asr_eos_silence_ms :: "int option"
  c_filler_enabled :: bool
  c_filler_delay_ms :: "int option"
  c_ambient_audio :: "pystr option"
  c_ambient_gain :: rat
  c_barge_in_fadeout_ms :: int
  c_max_continuous_interruptions :: int
  c_continuous_interruption_strategy :: pystr

text \<open>What the loader reads of the dial request.\<close>

record dial_lead =
  dl_name :: "pystr option"
  dl_phone :: pystr
  dl_custom_data :: event
  dl_history :: "pystr option list"

section \<open>The configuration\<close>

record runtime_config =
  pipeline :: pipeline_config
  filler_phrases :: "pystr list"
  transfer :: transfer_config
  wrap_up :: wrap_up_config
  interruption :: interruption_config
  silence :: silence_config
  voice_id :: pystr
  fixed_greeting :: "pystr option"
  asr_partial_stable_s :: rat
  filler_enabled :: bool
  filler_delay_ms :: int
  ambient_audio :: "pystr option"
  ambient_gain :: rat
  barge_in_fadeout_ms :: int
  max_continuous_interruptions :: int
  continuous_interruption_strategy :: pystr

section \<open>Slots\<close>

text \<open>\<^verbatim>\<open>x or d\<close> for an optional string, number and list.\<close>

definition str_or :: "pystr option \<Rightarrow> pystr \<Rightarrow> pystr" where
  "str_or x d = (case x of Some s \<Rightarrow> if s = [] then d else s | None \<Rightarrow> d)"

definition num_or :: "rat option \<Rightarrow> rat \<Rightarrow> rat" where
  "num_or x d = (case x of Some r \<Rightarrow> if r = 0 then d else r | None \<Rightarrow> d)"

definition list_or :: "'a list option \<Rightarrow> 'a list" where
  "list_or x = (case x of Some xs \<Rightarrow> xs | None \<Rightarrow> [])"

definition strs :: "pyenv \<Rightarrow> pyval list option \<Rightarrow> pystr list" where
  "strs E x = map (py_str E) (list_or x)"

definition spec_for :: "(int \<rightharpoonup> pystr) \<Rightarrow> role_config \<Rightarrow> pystr option \<times> pystr \<times> pystr \<times> int" where
  "spec_for pvs rc =
     (let pv_id = (case current_prompt_version_id rc of Some i \<Rightarrow> i | None \<Rightarrow> 0);
          provider = (case dget (list_or (ext_params rc)) (lit ''provider'') of
             PStr p \<Rightarrow> if strip p \<noteq> [] then Some (strip p) else None
           | _ \<Rightarrow> None);
          content = (if pv_id = 0 then [] else (case pvs pv_id of Some c \<Rightarrow> c | None \<Rightarrow> []))
      in (provider, str_or (rc_model rc) (lit ''mock''), content, pv_id))"

definition first_of :: "role_kind \<Rightarrow> role_config list \<Rightarrow> role_config option" where
  "first_of k rcs = find (\<lambda>rc. rc_kind rc = k) rcs"

definition all_enabled :: "role_kind \<Rightarrow> role_config list \<Rightarrow> role_config list" where
  "all_enabled k rcs = filter (\<lambda>rc. rc_kind rc = k \<and> rc_enabled rc) rcs"

text \<open>The slot of a row, with the label it is given (empty for the kinds that have none).\<close>

definition slot_of :: "(int \<rightharpoonup> pystr) \<Rightarrow> pystr \<Rightarrow> role_config \<Rightarrow> slot_spec" where
  "slot_of pvs label rc =
     (let (provider, model, prompt, pv_id) = spec_for pvs rc in
      \<lparr>role_config_id = rc_id rc, prompt_version_id = pv_id, system_prompt = prompt, slot_provider = provider,
       slot_model = model, temperature = num_or (rc_temperature rc) 1, top_p = num_or (rc_top_p rc) 1,
       slot_label = label\<rparr>)"

definition main_spec :: "slot_spec \<Rightarrow> (int \<rightharpoonup> pystr) \<Rightarrow> role_config option \<Rightarrow> slot_spec" where
  "main_spec slot_defaults pvs rc = (case rc of
       None \<Rightarrow> slot_defaults\<lparr>role_config_id := 0, prompt_version_id := 0, system_prompt := []\<rparr>
     | Some r \<Rightarrow> slot_of pvs [] r)"

definition referee_spec :: "(int \<rightharpoonup> pystr) \<Rightarrow> role_config \<Rightarrow> slot_spec" where
  "referee_spec pvs rc = slot_of pvs (str_or (rc_label rc) (lit ''referee_'' @ show_int (rc_id rc))) rc"

definition persona_spec :: "(int \<rightharpoonup> pystr) \<Rightarrow> role_config \<Rightarrow> slot_spec" where
  "persona_spec pvs rc = slot_of pvs (str_or (rc_label rc) (lit ''persona_'' @ show_int (rc_id rc))) rc"

definition restructure_spec :: "(int \<rightharpoonup> pystr) \<Rightarrow> role_config option \<Rightarrow> slot_spec option" where
  "restructure_spec pvs rc = (case rc of
       None \<Rightarrow> None
     | Some r \<Rightarrow> Some (slot_of pvs (str_or (rc_label r) (lit ''restructure_'' @ show_int (rc_id r))) r))"

definition extractor_spec :: "slot_spec \<Rightarrow> (int \<rightharpoonup> pystr) \<Rightarrow> role_config option \<Rightarrow> slot_spec" where
  "extractor_spec slot_defaults pvs rc = (case rc of
       None \<Rightarrow> slot_defaults\<lparr>role_config_id := 0, prompt_version_id := 0, system_prompt := []\<rparr>
     | Some r \<Rightarrow> slot_of pvs [] r)"

section \<open>Loading\<close>

definition load_pipeline :: "pyenv \<Rightarrow> slot_spec \<Rightarrow> campaign_row \<Rightarrow> (pystr option \<times> event) option
    \<Rightarrow> role_config list \<Rightarrow> (int \<rightharpoonup> pystr) \<Rightarrow> dial_lead \<Rightarrow> pipeline_config" where
  "load_pipeline E slot_defaults c lead_row rcs pvs req =
    \<lparr>main_slot = main_spec slot_defaults pvs (first_of RK_MAIN rcs),
     referees = map (referee_spec pvs) (all_enabled RK_REFEREE rcs),
     extractor = extractor_spec slot_defaults pvs (first_of RK_EXTRACTOR rcs),
     default_replies = strs E (c_default_replies c),
     lead = \<lparr>lead_name = (case lead_row of Some (n, _) \<Rightarrow> n | None \<Rightarrow> dl_name req), lead_phone = dl_phone req,
        custom_data = (case lead_row of Some (_, d) \<Rightarrow> d | None \<Rightarrow> dl_custom_data req)\<rparr>,
     restructure = restructure_spec pvs (first_of RK_RESTRUCTURE rcs),
     routing_rules = list_or (c_routing_rules c),
     max_continuous_restructure = c_max_continuous_restructure c,
     auto_restructure_on_interrupt = c_auto_restructure c,
     restructure_gate_category = lit ''FILLER'',
     last_call_summary = (case dl_history req of [] \<Rightarrow> None | h # _ \<Rightarrow> h),
     follow_up_count = int (length (dl_history req)),
     short_reply_active = False, wrap_up_appended = False,
     personas = map (persona_spec pvs) (all_enabled RK_PERSONA rcs),
     tools = map (\<lambda>(k, v). (k, PDict v)) (list_or (c_tools c)),
     persona_fanout_cap = c_persona_fanout_cap c,
     referee_timeout_ms = c_referee_timeout_ms c,
     referee_fail_open_route = c_referee_fail_open_route c\<rparr>"

text \<open>The two fixed system prompts and the default hand-off phrase.\<close>

definition intent_prompt :: pystr where
  "intent_prompt = [21028, 23450, 29992, 25143, 26159, 21542, 35201, 36716, 20154, 24037, 12290]"

definition llm_prompt :: pystr where
  "llm_prompt = [29420, 31435, 21028, 23450, 26159, 21542, 36716, 20154, 24037, 12290]"

definition default_transfer_phrase :: pystr where
  "default_transfer_phrase = [35831, 31245, 20505, 65292, 19987, 21592, 31245, 21518, 32852, 31995, 24744, 12290]"

definition load_transfer :: "pyenv \<Rightarrow> campaign_row \<Rightarrow> transfer_config" where
  "load_transfer E c =
    \<lparr>keyword_enabled = c_transfer_keyword_enabled c, transfer_keywords = strs E (c_transfer_keywords c),
     intent_enabled = c_transfer_intent_enabled c, intent_threshold = c_transfer_intent_threshold c,
     intent_system_prompt = intent_prompt, round_enabled = c_transfer_round_enabled c,
     round_threshold = c_transfer_round_threshold c, llm_enabled = c_transfer_llm_enabled c,
     llm_system_prompt = llm_prompt,
     transfer_phrases = (let ps = strs E (c_transfer_phrases c) in
        if ps \<noteq> [] then ps else [default_transfer_phrase])\<rparr>"

definition load_wrap_up :: "pyenv \<Rightarrow> campaign_row \<Rightarrow> wrap_up_config" where
  "load_wrap_up E c = \<lparr>max_rounds = c_wrap_up_max_rounds c, max_seconds = c_wrap_up_max_seconds c,
     closing_phrases = strs E (c_wrap_up_closing_phrases c), wrap_referee_enabled = c_wrap_up_referee_enabled c\<rparr>"

definition load_interruption :: "pyenv \<Rightarrow> campaign_row \<Rightarrow> interruption_config res" where
  "load_interruption E c =
     (let wl = strs E (c_interruption_whitelist c) in
      case (case c_interruption_rules c of
              Some r \<Rightarrow> build_rule E r
            | None \<Rightarrow> Inr (default_rule wl (c_interruption_min_chars c) (c_interruption_min_duration_ms c))) of
        Inl e \<Rightarrow> Inl e
      | Inr r \<Rightarrow> Inr \<lparr>whitelist = wl, barge_rule = r\<rparr>)"

definition load_silence :: "pyenv \<Rightarrow> campaign_row \<Rightarrow> silence_config" where
  "load_silence E c = \<lparr>threshold_ms = c_silence_threshold_ms c, max_activations = c_max_silence_activations c,
     silence_phrases = strs E (c_silence_phrases c), hangup_phrase = str_or (c_silence_hangup_phrase c) [],
     wrap_up_hangup_ms = c_wrap_up_silence_hangup_ms c\<rparr>"

definition load_runtime_config :: "pyenv \<Rightarrow> slot_spec \<Rightarrow> campaign_row option \<Rightarrow> (pystr option \<times> event) option
    \<Rightarrow> role_config list \<Rightarrow> (int \<rightharpoonup> pystr) \<Rightarrow> dial_lead \<Rightarrow> runtime_config res" where
  "load_runtime_config E slot_defaults campaign lead_row rcs pvs req = (case campaign of
       None \<Rightarrow> Inl RuntimeError
     | Some c \<Rightarrow> (case load_interruption E c of
           Inl e \<Rightarrow> Inl e
         | Inr itr \<Rightarrow> Inr
            \<lparr>pipeline = load_pipeline E slot_defaults c lead_row rcs pvs req,
             filler_phrases = strs E (c_filler_phrases c),
             transfer = load_transfer E c, wrap_up = load_wrap_up E c, interruption = itr,
             silence = load_silence E c, voice_id = str_or (c_voice_id c) (lit ''default''),
             fixed_greeting = c_greeting c,
             asr_partial_stable_s = rat_of_int (case c_asr_eos_silence_ms c of Some ms \<Rightarrow> ms | None \<Rightarrow> 400) / 1000,
             filler_enabled = c_filler_enabled c,
             filler_delay_ms = (case c_filler_delay_ms c of Some d \<Rightarrow> d | None \<Rightarrow> 600),
             ambient_audio = c_ambient_audio c, ambient_gain = c_ambient_gain c,
             barge_in_fadeout_ms = c_barge_in_fadeout_ms c,
             max_continuous_interruptions = c_max_continuous_interruptions c,
             continuous_interruption_strategy = c_continuous_interruption_strategy c\<rparr>))"

section \<open>Properties\<close>

lemma str_or_nonempty: "d \<noteq> [] \<Longrightarrow> str_or x d \<noteq> []"
  by (auto simp: str_or_def split: option.splits)

lemma slot_of_label [simp]: "slot_label (slot_of pvs l rc) = l"
  by (simp add: slot_of_def split: prod.splits)

lemma slot_of_params [simp]:
  "temperature (slot_of pvs l rc) = num_or (rc_temperature rc) 1"
  "top_p (slot_of pvs l rc) = num_or (rc_top_p rc) 1"
  "role_config_id (slot_of pvs l rc) = rc_id rc"
  by (simp_all add: slot_of_def split: prod.splits)

lemma load_inr:
  "load_runtime_config E d (Some c) lr rcs pvs req = Inr cfg \<Longrightarrow>
   pipeline cfg = load_pipeline E d c lr rcs pvs req \<and> load_interruption E c = Inr (interruption cfg)
   \<and> transfer cfg = load_transfer E c"
  by (auto simp: load_runtime_config_def split: sum.splits)

lemma default_rule_wf: "rule_wf (default_rule wl n d)"
  by (simp add: default_rule_def)


text \<open>A slot configured with temperature zero (or top-p zero) runs with one instead: the loader
  reads the column with a truthiness default.\<close>

theorem zero_temperature_becomes_one:
  "rc_temperature rc = Some 0 \<Longrightarrow> temperature (referee_spec pvs rc) = 1
     \<and> temperature (main_spec d pvs (Some rc)) = 1 \<and> temperature (persona_spec pvs rc) = 1"
  by (simp add: referee_spec_def main_spec_def persona_spec_def num_or_def)

definition demo_role :: role_config where
  "demo_role = \<lparr>rc_id = 7, rc_kind = RK_REFEREE, rc_enabled = True, rc_model = None, rc_temperature = Some 0,
     rc_top_p = None, rc_label = None, ext_params = None, current_prompt_version_id = None\<rparr>"

theorem zero_temperature_becomes_one_witness:
  "rc_temperature demo_role = Some 0 \<and> temperature (referee_spec Map.empty demo_role) = 1"
  using zero_temperature_becomes_one [of demo_role Map.empty "demo_slot ''main''"]
  by (simp add: demo_role_def)

definition demo_campaign :: campaign_row where
  "demo_campaign = \<lparr>
     c_routing_rules = None, c_max_continuous_restructure = 1, c_auto_restructure = True,
     c_default_replies = None, c_tools = None, c_persona_fanout_cap = 1, c_referee_timeout_ms = 1,
     c_referee_fail_open_route = lit ''continue'', c_filler_phrases = None, c_transfer_keyword_enabled = True,
     c_transfer_keywords = None, c_transfer_intent_enabled = True, c_transfer_intent_threshold = None,
     c_transfer_round_enabled = True, c_transfer_round_threshold = None, c_transfer_llm_enabled = True,
     c_transfer_phrases = None, c_wrap_up_max_rounds = 1, c_wrap_up_max_seconds = 1,
     c_wrap_up_closing_phrases = None, c_wrap_up_referee_enabled = True, c_interruption_whitelist = None,
     c_interruption_rules = None, c_interruption_min_chars = 1, c_interruption_min_duration_ms = 1,
     c_silence_threshold_ms = 1, c_max_silence_activations = 1, c_silence_phrases = None,
     c_silence_hangup_phrase = None, c_wrap_up_silence_hangup_ms = 1, c_greeting = None, c_voice_id = None,
     c_asr_eos_silence_ms = None, c_filler_enabled = True, c_filler_delay_ms = None, c_ambient_audio = None,
     c_ambient_gain = 1, c_barge_in_fadeout_ms = 1, c_max_continuous_interruptions = 1,
     c_continuous_interruption_strategy = lit ''continue''\<rparr>"

definition demo_lead :: dial_lead where
  "demo_lead = \<lparr>dl_name = None, dl_phone = lit ''123'', dl_custom_data = [], dl_history = []\<rparr>"


end
