(* ===== verification/Sentence_Splitter.thy ===== *)
theory Sentence_Splitter
  imports Py_Base
begin

text \<open>
  The sentence splitter of the reply stream (\<^verbatim>\<open>streaming/sentence_splitter.py\<close>).

  \<open>split_char\<close> is one iteration of the inner loop on the buffer; \<open>split_tokens\<close> runs it over
  the token stream and \<open>split_sentences\<close> adds the flush at the end. The Unicode category test
  is \<open>letter_or_number\<close> of the environment.

  Shown: the result does not depend on how the text was cut into tokens; every sentence is
  stripped, readable and within the hard length; the cuts are exactly at the first position
  where the emit condition holds; and no readable character is ever lost.
\<close>

definition TERMINATORS :: "nat list" where
  "TERMINATORS = [12290, 65311, 65281, 63, 33, 46]"

definition SOFT_BOUNDARIES :: "nat list" where
  "SOFT_BOUNDARIES = [65292, 12289, 65307, 65306, 44, 59, 58]"

definition SOFT_SENTENCE_CHARS :: int where
  "SOFT_SENTENCE_CHARS = 60"

definition MAX_SENTENCE_CHARS :: int where
  "MAX_SENTENCE_CHARS = 120"

definition has_synthesizable_text :: "pyenv \<Rightarrow> pystr \<Rightarrow> bool" where
  "has_synthesizable_text E s = list_ex (letter_or_number E) s"

definition should_emit :: "int \<Rightarrow> int \<Rightarrow> pystr \<Rightarrow> nat \<Rightarrow> bool" where
  "should_emit soft_chars max_chars buf ch \<longleftrightarrow>
     ch \<in> set TERMINATORS
     \<or> endswith buf [10, 10]
     \<or> (int (length buf) \<ge> soft_chars \<and> ch \<in> set SOFT_BOUNDARIES)
     \<or> int (length buf) \<ge> max_chars"

definition voiced :: "pyenv \<Rightarrow> pystr \<Rightarrow> pystr list" where
  "voiced E buf = (let out = strip buf in
     if out \<noteq> [] \<and> has_synthesizable_text E out then [out] else [])"

definition split_char :: "pyenv \<Rightarrow> int \<Rightarrow> int \<Rightarrow> nat \<Rightarrow> pystr list \<times> pystr \<Rightarrow> pystr list \<times> pystr" where
  "split_char E soft_chars max_chars ch = (\<lambda>(out, buf).
     (let buf = buf @ [ch] in
      if should_emit soft_chars max_chars buf ch then (out @ voiced E buf, []) else (out, buf)))"

definition split_tokens :: "pyenv \<Rightarrow> int \<Rightarrow> int \<Rightarrow> pystr list \<Rightarrow> pystr list \<times> pystr \<Rightarrow> pystr list \<times> pystr" where
  "split_tokens E soft_chars max_chars tokens st =
     fold (\<lambda>token st. if token = [] then st else fold (split_char E soft_chars max_chars) token st) tokens st"

definition split_sentences :: "pyenv \<Rightarrow> int \<Rightarrow> int \<Rightarrow> pystr list \<Rightarrow> pystr list" where
  "split_sentences E soft_chars max_chars tokens =
     (let (out, buf) = split_tokens E soft_chars max_chars tokens ([], []) in out @ voiced E buf)"

section \<open>The pieces between cuts\<close>

text \<open>The raw pieces of a text: each ends where the emit condition first holds.\<close>

fun pieces :: "int \<Rightarrow> int \<Rightarrow> pystr \<Rightarrow> pystr \<Rightarrow> pystr list \<times> pystr" where
  "pieces soft mx buf [] = ([], buf)"
| "pieces soft mx buf (c # cs) =
     (if should_emit soft mx (buf @ [c]) c
      then (let (ps, r) = pieces soft mx [] cs in ((buf @ [c]) # ps, r))
      else pieces soft mx (buf @ [c]) cs)"

lemma fold_split_char_pieces:
  "fold (split_char E soft mx) cs (out, buf) =
     (out @ concat (map (voiced E) (fst (pieces soft mx buf cs))), snd (pieces soft mx buf cs))"
  by (induction soft mx buf cs arbitrary: out rule: pieces.induct)
    (auto simp: split_char_def Let_def split: prod.splits)

lemma split_tokens_concat:
  "split_tokens E soft mx tokens st = fold (split_char E soft mx) (concat tokens) st"
proof -
  have "(\<lambda>token st. if token = [] then st else fold (split_char E soft mx) token st)
      = fold (split_char E soft mx)" by (auto simp: fun_eq_iff)
  then show ?thesis
    by (induction tokens arbitrary: st) (simp_all add: split_tokens_def)
qed

lemma split_sentences_pieces:
  "split_sentences E soft mx tokens =
     (let (ps, r) = pieces soft mx [] (concat tokens) in concat (map (voiced E) (ps @ [r])))"
  by (simp add: split_sentences_def split_tokens_concat fold_split_char_pieces split: prod.splits)

lemma pieces_concat: "concat (fst (pieces soft mx buf cs)) @ snd (pieces soft mx buf cs) = buf @ cs"
  by (induction soft mx buf cs rule: pieces.induct) (auto simp: Let_def split: prod.splits)

text \<open>A buffer in which no cut was due.\<close>

definition uncut :: "int \<Rightarrow> int \<Rightarrow> pystr \<Rightarrow> bool" where
  "uncut soft mx buf \<longleftrightarrow> (\<forall>p c. prefix (p @ [c]) buf \<longrightarrow> \<not> should_emit soft mx (p @ [c]) c)"

lemma uncut_Nil [simp]: "uncut soft mx []"
  by (simp add: uncut_def)

lemma uncut_snoc: "uncut soft mx (buf @ [c]) \<longleftrightarrow> uncut soft mx buf \<and> \<not> should_emit soft mx (buf @ [c]) c"
  by (auto simp: uncut_def)

text \<open>Each complete piece is cut at the first due position, and none is overdue in the rest.\<close>

lemma pieces_greedy:
  "uncut soft mx buf \<Longrightarrow> pieces soft mx buf cs = (ps, r) \<Longrightarrow>
   (\<forall>q \<in> set ps. \<exists>p c. q = p @ [c] \<and> should_emit soft mx q c \<and> uncut soft mx p) \<and> uncut soft mx r"
proof (induction soft mx buf cs arbitrary: ps r rule: pieces.induct)
  case (2 soft mx buf c cs)
  show ?case
  proof (cases "should_emit soft mx (buf @ [c]) c")
    case True
    obtain ps' r' where "pieces soft mx [] cs = (ps', r')" by fastforce
    with 2 True show ?thesis by auto
  next
    case False
    with 2 show ?thesis by (simp add: uncut_snoc)
  qed
qed auto

lemma uncut_length:
  assumes "uncut soft mx p" shows "int (length p) \<le> max 0 (mx - 1)"
proof (cases p rule: rev_cases)
  case (snoc q c)
  with assms have "\<not> should_emit soft mx p c" by (auto simp: uncut_def)
  then show ?thesis by (simp add: should_emit_def)
qed simp

section \<open>Sentences\<close>

lemma voiced_in:
  "x \<in> set (voiced E b) \<Longrightarrow>
   x = strip b \<and> x \<noteq> [] \<and> strip x = x \<and> has_synthesizable_text E x \<and> length x \<le> length b"
  by (auto simp: voiced_def Let_def length_strip_of split: if_splits)

lemma filter_dropWhile:
  "(\<And>c. P c \<Longrightarrow> \<not> q c) \<Longrightarrow> filter P (dropWhile q s) = filter P s"
  by (induction s) auto

lemma filter_strip_of:
  assumes "\<And>c. P c \<Longrightarrow> \<not> q c"
  shows "filter P (strip_of q s) = filter P s"
  by (simp add: strip_of_def lstrip_of_def rstrip_of_def rev_filter [symmetric] filter_dropWhile [OF assms])

lemma voiced_readable:
  assumes "\<And>c. letter_or_number E c \<Longrightarrow> \<not> is_space c"
  shows "concat (map (filter (letter_or_number E)) (voiced E b)) = filter (letter_or_number E) b"
proof (cases "has_synthesizable_text E (strip b)")
  case True
  then have "strip b \<noteq> []" by (auto simp: has_synthesizable_text_def)
  with True show ?thesis by (simp add: voiced_def filter_strip_of [OF assms])
next
  case False
  then have "filter (letter_or_number E) (strip b) = []"
    by (simp add: has_synthesizable_text_def list_ex_iff filter_empty_conv)
  with False show ?thesis by (simp add: voiced_def filter_strip_of [OF assms])
qed

lemma concat_map_voiced:
  assumes "\<And>c. letter_or_number E c \<Longrightarrow> \<not> is_space c"
  shows "filter (letter_or_number E) (concat (concat (map (voiced E) bs))) = filter (letter_or_number E) (concat bs)"
  using voiced_readable [OF assms] by (induction bs) (simp_all add: filter_concat)

section \<open>Properties\<close>



text \<open>Every sentence given to synthesis is stripped, non-empty, has a readable character and is
  no longer than the hard limit.\<close>

theorem split_sentences_wellformed:
  assumes "x \<in> set (split_sentences E soft mx ts)" and "1 \<le> mx"
  shows "x \<noteq> [] \<and> strip x = x \<and> has_synthesizable_text E x \<and> int (length x) \<le> mx"
proof -
  obtain ps r where p: "pieces soft mx [] (concat ts) = (ps, r)" by fastforce
  with assms(1) obtain q where q: "q \<in> set ps \<or> q = r" "x \<in> set (voiced E q)"
    by (auto simp: split_sentences_pieces)
  have "int (length q) \<le> mx"
    using pieces_greedy [OF uncut_Nil p] q(1) uncut_length [of soft mx] assms(2) by fastforce
  with voiced_in [OF q(2)] show ?thesis by auto
qed

theorem split_sentences_wellformed_witness:
  "let E = \<lparr>re_ok = (\<lambda>p. True), re_search = is_sub, letter_or_number = (\<lambda>c. 65 \<le> c \<and> c \<le> 122),
        json_loads = (\<lambda>_. None), str_other = (\<lambda>_. [])\<rparr>;
       x = lit ''Hi.''
   in x \<in> set (split_sentences E 60 120 [lit ''Hi... ok'']) \<and> x \<noteq> [] \<and> has_synthesizable_text E x"
  using split_sentences_wellformed [of "lit ''Hi.''" "\<lparr>re_ok = (\<lambda>p. True), re_search = is_sub,
      letter_or_number = (\<lambda>c. 65 \<le> c \<and> c \<le> 122), json_loads = (\<lambda>_. None), str_other = (\<lambda>_. [])\<rparr>"
      60 120 "[lit ''Hi... ok'']"]
  by (simp add: Let_def split_sentences_pieces lit_def should_emit_def TERMINATORS_def SOFT_BOUNDARIES_def
      endswith_def voiced_def strip_of_def lstrip_of_def rstrip_of_def is_space_def has_synthesizable_text_def
      suffix_to_prefix)

text \<open>C22. No readable character is lost or reordered by the splitter: the letters and digits of the
  sentences are those of the reply, in order. (Letters and digits are not white space.)\<close>

theorem split_keeps_readable:
  assumes "\<And>c. letter_or_number E c \<Longrightarrow> \<not> is_space c"
  shows "filter (letter_or_number E) (concat (split_sentences E soft mx ts))
       = filter (letter_or_number E) (concat ts)"
proof -
  obtain ps r where p: "pieces soft mx [] (concat ts) = (ps, r)" by fastforce
  have "concat (ps @ [r]) = concat ts" using pieces_concat [of soft mx "[]" "concat ts"] p by simp
  then have "filter (letter_or_number E) (concat ts) = filter (letter_or_number E) (concat (ps @ [r]))"
    by (simp only:)
  also have "\<dots> = filter (letter_or_number E) (concat (split_sentences E soft mx ts))"
    using concat_map_voiced [of E "ps @ [r]"] assms p by (simp add: split_sentences_pieces)
  finally show ?thesis by simp
qed

theorem split_keeps_readable_witness:
  "let E = \<lparr>re_ok = (\<lambda>p. True), re_search = is_sub, letter_or_number = (\<lambda>c. 65 \<le> c \<and> c \<le> 122),
        json_loads = (\<lambda>_. None), str_other = (\<lambda>_. [])\<rparr>
   in filter (letter_or_number E) (concat (split_sentences E 60 120 [lit ''a b... ?!c''])) = lit ''abc''"
  using split_keeps_readable [of "\<lparr>re_ok = (\<lambda>p. True), re_search = is_sub,
      letter_or_number = (\<lambda>c. 65 \<le> c \<and> c \<le> 122), json_loads = (\<lambda>_. None), str_other = (\<lambda>_. [])\<rparr>"
      60 120 "[lit ''a b... ?!c'']"]
  by (simp add: Let_def lit_def is_space_def)

text \<open>Where the reply is cut: the raw pieces partition the text; every piece but the last ends at
  the first position where a terminator, a blank line, a long clause or the hard limit is
  reached; the sentences are the readable pieces, stripped.\<close>

theorem split_cuts_at_first_boundary:
  "\<exists>ps r. concat ps @ r = concat ts
     \<and> (\<forall>q \<in> set ps. \<exists>p c. q = p @ [c] \<and> should_emit soft mx q c \<and> uncut soft mx p) \<and> uncut soft mx r
     \<and> split_sentences E soft mx ts
         = map strip (filter (\<lambda>q. has_synthesizable_text E (strip q)) (ps @ [r]))"
proof -
  obtain ps r where p: "pieces soft mx [] (concat ts) = (ps, r)" by fastforce
  have v: "concat (map (voiced E) qs) = map strip (filter (\<lambda>q. has_synthesizable_text E (strip q)) qs)" for qs
    by (induction qs) (auto simp: voiced_def has_synthesizable_text_def Let_def)
  show ?thesis
    using pieces_greedy [OF uncut_Nil p] pieces_concat [of soft mx "[]" "concat ts"] p v [of "ps @ [r]"]
    by (intro exI [of _ ps] exI [of _ r]) (simp add: split_sentences_pieces)
qed

text \<open>A closing quotation mark after a terminator is not kept with the sentence it closes: it
  starts the next piece, or is dropped at the end of the reply.\<close>

theorem closing_quote_is_split_off:
  "let E = \<lparr>re_ok = (\<lambda>p. True), re_search = is_sub, letter_or_number = (\<lambda>c. 65 \<le> c \<and> c \<le> 122),
        json_loads = (\<lambda>_. None), str_other = (\<lambda>_. [])\<rparr>
   in split_sentences E 60 120 [lit ''a.'', [8221], lit ''b''] = [lit ''a.'', [8221] @ lit ''b'']
      \<and> split_sentences E 60 120 [lit ''a.'', [8221]] = [lit ''a.'']"
  by (simp add: Let_def split_sentences_pieces lit_def should_emit_def TERMINATORS_def SOFT_BOUNDARIES_def
      endswith_def voiced_def strip_of_def lstrip_of_def rstrip_of_def is_space_def has_synthesizable_text_def
      suffix_to_prefix)

end
