(* ===== verification/Reply_Stream.thy ===== *)
theory Reply_Stream
  imports Pipeline_Config Sentence_Splitter
begin

text \<open>
  One streaming reply (\<^verbatim>\<open>pipeline/orchestrator.py\<close>).

  The LLM is represented by a script of what it does for this turn: the tokens of
  \<^verbatim>\<open>chat_stream\<close>, whether the stream ends or raises, the outcome of the non-streaming \<^verbatim>\<open>chat\<close>
  that is tried once if the stream raised before any sentence, and the time stamps.
  \<open>generate_core\<close> and \<open>sentences\<close> are the two generators as the list of sentences they yield
  when consumed to the end. \<open>stream_step\<close> is the eager buffer with its generating task and its
  replaying consumer.

  Shown: a reply is never empty and its recorded text is what was yielded; the fallback is
  used only when nothing was yielded before; a default reply is recorded exactly when used;
  in every interleaving the replay yields the generated sentences in order, and what it has
  not yet yielded is exactly \<open>buffer_remainder\<close>.
\<close>

section \<open>Scripts and results\<close>

datatype chat_reply = ChatRaised pystr | ChatReply "pystr option"

record llm_script =
  stream_tokens :: "pystr list"
  stream_error :: "pystr option"
  chat_fallback_reply :: chat_reply
  script_tokens_in :: "int option"
  script_tokens_out :: "int option"
  stamp_first_token :: int
  stamp_first_sentence :: int
  stamp_duration :: int

record stream_result =
  reply_text :: pystr
  res_duration_ms :: int
  tokens_in :: int
  tokens_out :: int
  fallback_used :: bool
  used_default_reply :: bool
  stream_error_text :: "pystr option"
  first_token_ms :: "int option"
  first_sentence_ms :: "int option"

definition new_result :: stream_result where
  "new_result = \<lparr>reply_text = [], res_duration_ms = 0, tokens_in = 0, tokens_out = 0, fallback_used = False,
     used_default_reply = False, stream_error_text = None, first_token_ms = None, first_sentence_ms = None\<rparr>"

section \<open>Starting a stream\<close>

text \<open>A stream is a restructure when it has a text to re-voice.\<close>

record reply_stream =
  stream_config :: pipeline_config
  stream_wrap_up :: bool
  restructure_text :: "pystr option"
  referee_labels :: "pystr list"
  turn_id :: int

definition new_stream :: "pipeline_config \<Rightarrow> bool \<Rightarrow> pystr option \<Rightarrow> reply_stream" where
  "new_stream c w r = \<lparr>stream_config = c, stream_wrap_up = w, restructure_text = r, referee_labels = [], turn_id = 0\<rparr>"

definition is_restructure :: "reply_stream \<Rightarrow> bool" where
  "is_restructure st = (restructure_text st \<noteq> None)"

definition start_stream :: "reply_stream \<Rightarrow> 'a call_session_scheme \<Rightarrow> reply_stream \<times> 'a call_session_scheme" where
  "start_stream st s =
     (let s1 = s\<lparr>current_turn_id := current_turn_id s + 1\<rparr>;
          st1 = st\<lparr>turn_id := current_turn_id s1\<rparr>
      in if stream_wrap_up st \<or> is_restructure st then (st1, s1)
         else (st1\<lparr>referee_labels := referee_labels st @ map slot_label (referees (stream_config st))\<rparr>, s1))"

definition run_pipeline_stream :: "pipeline_config \<Rightarrow> bool \<Rightarrow> 'a call_session_scheme
    \<Rightarrow> reply_stream \<times> 'a call_session_scheme" where
  "run_pipeline_stream c is_wrap_up s = start_stream (new_stream c is_wrap_up None) s"

definition run_restructure_stream :: "pipeline_config \<Rightarrow> pystr \<Rightarrow> 'a call_session_scheme
    \<Rightarrow> reply_stream \<times> 'a call_session_scheme" where
  "run_restructure_stream c t s = start_stream (new_stream c False (Some t)) s"

text \<open>The slot whose client, temperature and top-p the stream uses, and its messages.\<close>

definition stream_slot :: "reply_stream \<Rightarrow> slot_spec" where
  "stream_slot st = (case restructure (stream_config st) of
       Some r \<Rightarrow> if is_restructure st then r else main_slot (stream_config st)
     | None \<Rightarrow> main_slot (stream_config st))"

definition stream_params :: "reply_stream \<Rightarrow> rat \<times> rat" where
  "stream_params st = (temperature (stream_slot st), top_p (stream_slot st))"

definition build_messages :: "pyenv \<Rightarrow> reply_stream \<Rightarrow> 'a call_session_scheme \<Rightarrow> message list" where
  "build_messages E st s = (case (restructure_text st, restructure (stream_config st)) of
       (Some t, Some r) \<Rightarrow> [(lit ''system'', system_prompt r), (lit ''user'', t)]
     | _ \<Rightarrow> build_main_messages E s (stream_config st) (stream_wrap_up st))"

section \<open>Generation\<close>

definition streamed :: "pyenv \<Rightarrow> llm_script \<Rightarrow> pystr list" where
  "streamed E sc = (case stream_error sc of
       None \<Rightarrow> split_sentences E SOFT_SENTENCE_CHARS MAX_SENTENCE_CHARS (stream_tokens sc)
     | Some _ \<Rightarrow> fst (split_tokens E SOFT_SENTENCE_CHARS MAX_SENTENCE_CHARS (stream_tokens sc) ([], [])))"

text \<open>The fallback: its sentences and the change to the result.\<close>

definition chat_fallback :: "pyenv \<Rightarrow> chat_reply \<Rightarrow> stream_result \<Rightarrow> pystr list \<times> stream_result" where
  "chat_fallback E r res = (case r of
       ChatRaised e \<Rightarrow> ([], res\<lparr>stream_error_text := Some (lit ''main_fallback: '' @ e)\<rparr>)
     | ChatReply c \<Rightarrow>
         (let t = strip (case c of Some x \<Rightarrow> x | None \<Rightarrow> []) in
          (if t \<noteq> [] then split_sentences E SOFT_SENTENCE_CHARS MAX_SENTENCE_CHARS [t] else [],
           res\<lparr>fallback_used := True\<rparr>)))"

definition generate_core :: "pyenv \<Rightarrow> llm_script \<Rightarrow> pystr list \<times> stream_result" where
  "generate_core E sc =
     (let ss = streamed E sc;
          res = new_result\<lparr>
            first_token_ms := (if stream_tokens sc = [] then None else Some (stamp_first_token sc)),
            first_sentence_ms := (if ss = [] then None else Some (stamp_first_sentence sc))\<rparr>;
          (out, res) = (case stream_error sc of
             None \<Rightarrow> (ss, res)
           | Some e \<Rightarrow>
               if ss \<noteq> [] then (ss, res\<lparr>stream_error_text := Some (lit ''main_stream_mid: '' @ e)\<rparr>)
               else chat_fallback E (chat_fallback_reply sc) res)
      in (out, res\<lparr>reply_text := concat out, res_duration_ms := stamp_duration sc,
               tokens_in := (case script_tokens_in sc of Some n \<Rightarrow> n | None \<Rightarrow> 0),
               tokens_out := (case script_tokens_out sc of Some n \<Rightarrow> n | None \<Rightarrow> 0)\<rparr>))"

definition stock_reply :: pystr where
  "stock_reply = [22909, 30340, 65292, 35831, 31245, 31561, 12290]"

definition default_reply :: "nat \<Rightarrow> pipeline_config \<Rightarrow> pystr" where
  "default_reply draw c = (if default_replies c \<noteq> [] then py_choice draw (default_replies c) else stock_reply)"

text \<open>What happens after the core is exhausted: a blank reply is replaced by a default one.\<close>

definition ensure_reply :: "pyenv \<Rightarrow> clock \<Rightarrow> nat \<Rightarrow> pipeline_config \<Rightarrow> pystr list \<times> stream_result
    \<Rightarrow> 'a call_session_scheme \<Rightarrow> (pystr list \<times> stream_result) \<times> 'a call_session_scheme" where
  "ensure_reply E now draw c = (\<lambda>(ss, res) s.
     if strip (reply_text res) \<noteq> [] then ((ss, res), s)
     else (let d = default_reply draw c;
               err = (case stream_error_text res of None \<Rightarrow> lit ''empty_reply_default_used'' | Some e \<Rightarrow> e)
           in ((ss @ [d], res\<lparr>reply_text := d, used_default_reply := True, stream_error_text := Some err\<rparr>),
               record_event E now ''default_reply_used'' [(lit ''text'', PStr d), (lit ''reason'', PStr err)] s)))"

definition sentences :: "pyenv \<Rightarrow> clock \<Rightarrow> nat \<Rightarrow> pipeline_config \<Rightarrow> llm_script \<Rightarrow> 'a call_session_scheme
    \<Rightarrow> (pystr list \<times> stream_result) \<times> 'a call_session_scheme" where
  "sentences E now draw c sc s = ensure_reply E now draw c (generate_core E sc) s"

section \<open>The eager buffer\<close>

text \<open>\<open>todo\<close> is what the generating task has still to yield; \<open>replayed\<close> is what the consumer got.\<close>

record eager =
  todo :: "pystr list"
  buffer :: "pystr list"
  eager_done :: bool
  replayed_count :: nat
  replayed :: "pystr list"
  replay_ended :: bool

datatype eager_act = GenNext | GenEnd | GenCancel | ReplayNext | ReplayEnd

definition start_eager :: "pystr list \<Rightarrow> eager" where
  "start_eager core = \<lparr>todo = core, buffer = [], eager_done = False, replayed_count = 0, replayed = [],
     replay_ended = False\<rparr>"

fun eager_step :: "eager_act \<Rightarrow> eager \<Rightarrow> eager option" where
  "eager_step GenNext e = (case todo e of
     x # xs \<Rightarrow> if eager_done e then None else Some (e\<lparr>todo := xs, buffer := buffer e @ [x]\<rparr>)
   | [] \<Rightarrow> None)"
| "eager_step GenEnd e = (if todo e = [] \<and> \<not> eager_done e then Some (e\<lparr>eager_done := True\<rparr>) else None)"
| "eager_step GenCancel e = (if \<not> eager_done e then Some (e\<lparr>eager_done := True\<rparr>) else None)"
| "eager_step ReplayNext e =
     (if replayed_count e < length (buffer e) \<and> \<not> replay_ended e
      then Some (e\<lparr>replayed := replayed e @ [buffer e ! replayed_count e],
                   replayed_count := replayed_count e + 1\<rparr>)
      else None)"
| "eager_step ReplayEnd e =
     (if replayed_count e \<ge> length (buffer e) \<and> eager_done e \<and> \<not> replay_ended e
      then Some (e\<lparr>replay_ended := True\<rparr>) else None)"

definition buffer_remainder :: "eager \<Rightarrow> pystr" where
  "buffer_remainder e = concat (drop (replayed_count e) (buffer e))"

definition eager_init :: "pystr list \<Rightarrow> eager \<Rightarrow> bool" where
  "eager_init core e = (e = start_eager core)"

definition eager_inv :: "pystr list \<Rightarrow> eager \<Rightarrow> bool" where
  "eager_inv core e \<longleftrightarrow> buffer e @ todo e = core \<and> replayed e = take (replayed_count e) (buffer e)
     \<and> replayed_count e \<le> length (buffer e)
     \<and> (replay_ended e \<longrightarrow> replayed e = buffer e \<and> eager_done e)"

lemma eager_step_inv: "eager_inv core e \<Longrightarrow> eager_step a e = Some e' \<Longrightarrow> eager_inv core e'"
  by (cases a) (auto simp: eager_inv_def take_Suc_conv_app_nth split: list.splits if_splits)

lemma eager_init_inv: "eager_init core e \<Longrightarrow> eager_inv core e"
  by (simp add: eager_init_def start_eager_def eager_inv_def)

interpretation eager_buf: invariant_of "eager_init core" eager_step "eager_inv core"
  by unfold_locales (fact eager_init_inv, fact eager_step_inv)

section \<open>Properties\<close>

lemma streamed_wellformed:
  assumes "x \<in> set (streamed E sc)"
  shows "x \<noteq> [] \<and> strip x = x \<and> has_synthesizable_text E x"
proof -
  obtain ps r where p: "pieces SOFT_SENTENCE_CHARS MAX_SENTENCE_CHARS [] (concat (stream_tokens sc)) = (ps, r)"
    by fastforce
  have "\<exists>q. x \<in> set (voiced E q)"
    using assms p
    by (auto simp: streamed_def split_sentences_pieces split_tokens_concat fold_split_char_pieces
        split: option.splits)
  then show ?thesis using voiced_in by blast
qed

lemma split_voiced: "x \<in> set (split_sentences E a b ts) \<Longrightarrow> x \<noteq> [] \<and> strip x = x \<and> has_synthesizable_text E x"
  by (auto simp: split_sentences_pieces split: prod.splits dest: voiced_in)

lemma core_wellformed:
  "x \<in> set (fst (generate_core E sc)) \<Longrightarrow> x \<noteq> [] \<and> strip x = x \<and> has_synthesizable_text E x"
  by (auto simp: generate_core_def chat_fallback_def Let_def streamed_wellformed
      split: option.splits if_splits chat_reply.splits dest: streamed_wellformed split_voiced)

lemma core_text: "reply_text (snd (generate_core E sc)) = concat (fst (generate_core E sc))"
  by (simp add: generate_core_def Let_def split: prod.splits)

lemma strip_nonempty:
  assumes "c \<in> set s" and "\<not> is_space c"
  shows "strip s \<noteq> []"
proof
  assume "strip s = []"
  moreover have "filter (\<lambda>x. \<not> is_space x) (strip s) = filter (\<lambda>x. \<not> is_space x) s"
    by (rule filter_strip_of) simp
  ultimately have "filter (\<lambda>x. \<not> is_space x) s = []" by simp
  with assms show False by (auto simp: filter_empty_conv)
qed

lemma core_blank_iff:
  assumes "\<And>c. letter_or_number E c \<Longrightarrow> \<not> is_space c"
  shows "strip (reply_text (snd (generate_core E sc))) = [] \<longleftrightarrow> fst (generate_core E sc) = []"
proof
  assume b: "strip (reply_text (snd (generate_core E sc))) = []"
  show "fst (generate_core E sc) = []"
  proof (rule ccontr)
    assume "fst (generate_core E sc) \<noteq> []"
    then obtain x where x: "x \<in> set (fst (generate_core E sc))" by (meson last_in_set)
    from core_wellformed [OF x] obtain c where "c \<in> set x" "letter_or_number E c"
      by (auto simp: has_synthesizable_text_def list_ex_iff)
    with x assms have "strip (concat (fst (generate_core E sc))) \<noteq> []"
      by (intro strip_nonempty [of c]) auto
    with b show False by (simp add: core_text)
  qed
qed (simp add: core_text)

text \<open>C9. A turn never goes silent: whatever the LLM does, the selected stream yields at least one
  non-blank sentence, the recorded reply text is the text yielded, and a default reply is
  used, and recorded in the transcript, exactly when the model produced nothing readable.
  (Configured default replies must not be blank; letters and digits are not white space.)\<close>

theorem reply_never_silent:
  assumes "\<And>c. letter_or_number E c \<Longrightarrow> \<not> is_space c"
    and "\<forall>d \<in> set (default_replies c). strip d \<noteq> []"
    and "sentences E now draw c sc s = ((ss, res), s')"
  shows "ss \<noteq> [] \<and> (\<forall>x \<in> set ss. strip x \<noteq> []) \<and> reply_text res = concat ss
    \<and> used_default_reply res = (fst (generate_core E sc) = [])
    \<and> (used_default_reply res \<longrightarrow> event_is ''default_reply_used'' (last (full_transcript s')))
    \<and> (\<not> used_default_reply res \<longrightarrow> s' = s)"
proof (cases "fst (generate_core E sc) = []")
  case True
  then have b: "strip (reply_text (snd (generate_core E sc))) = []" by (simp add: core_text)
  have "strip (default_reply draw c) \<noteq> []"
    using assms(2) py_choice_in [of "default_replies c" draw]
    by (auto simp: default_reply_def stock_reply_def strip_of_def lstrip_of_def rstrip_of_def is_space_def)
  with True b assms(3) show ?thesis
    by (cases "generate_core E sc") (auto simp: sentences_def ensure_reply_def Let_def plain_fields_def)
next
  case False
  then have b: "strip (reply_text (snd (generate_core E sc))) \<noteq> []"
    using core_blank_iff [OF assms(1)] by simp
  have u: "\<not> used_default_reply (snd (generate_core E sc))"
    by (auto simp: generate_core_def new_result_def chat_fallback_def Let_def
        split: option.splits chat_reply.splits)
  have "\<forall>x \<in> set (fst (generate_core E sc)). strip x \<noteq> []"
    using core_wellformed by fastforce
  with False b u core_text [of E sc] assms(3) show ?thesis
    by (cases "generate_core E sc") (auto simp: sentences_def ensure_reply_def)
qed

definition failing_llm :: llm_script where
  "failing_llm = \<lparr>stream_tokens = [], stream_error = Some (lit ''503''), chat_fallback_reply = ChatRaised (lit ''503''),
     script_tokens_in = None, script_tokens_out = None, stamp_first_token = 0, stamp_first_sentence = 0,
     stamp_duration = 10\<rparr>"

theorem reply_never_silent_witness:
  "used_default_reply (snd (fst (sentences demo_env 0 0 demo_pipeline failing_llm (new_session 1 1 1 [] [] 0))))"
proof -
  obtain ss res s' where r: "sentences demo_env 0 0 demo_pipeline failing_llm (new_session 1 1 1 [] [] 0) = ((ss, res), s')"
    by (metis surj_pair)
  have "used_default_reply res = (fst (generate_core demo_env failing_llm) = [])"
    using reply_never_silent [OF _ _ r] by (simp add: demo_env_def demo_pipeline_def is_space_def)
  with r show ?thesis
    by (simp add: generate_core_def failing_llm_def streamed_def split_tokens_def chat_fallback_def)
qed

text \<open>In every interleaving of the generating task (which may be cancelled) and the playback
  consumer, the replay has yielded exactly a prefix of the model's sentences, in order and
  without duplicates; the sentences generated but not yet replayed are the text of
  \<open>buffer_remainder\<close>; and when the replay has ended without cancellation everything was
  replayed.\<close>

theorem eager_replay_in_order:
  assumes "reach (eager_init core) eager_step e"
  shows "replayed e @ drop (replayed_count e) (buffer e) @ todo e = core
    \<and> buffer_remainder e @ concat (todo e) = concat (drop (length (replayed e)) core)
    \<and> (replay_ended e \<and> todo e = [] \<longrightarrow> replayed e = core)"
proof -
  from eager_buf.reach_inv [OF assms] have inv: "eager_inv core e" .
  then have "replayed e @ drop (replayed_count e) (buffer e) @ todo e = core"
    unfolding eager_inv_def by (metis append.assoc append_take_drop_id)
  moreover from this have "drop (length (replayed e)) core = drop (replayed_count e) (buffer e) @ todo e"
    by (metis append_eq_conv_conj)
  moreover have "replay_ended e \<Longrightarrow> replayed e = buffer e" "buffer e @ todo e = core"
    using inv unfolding eager_inv_def by blast+
  ultimately show ?thesis by (auto simp: buffer_remainder_def)
qed

theorem eager_replay_in_order_witness:
  "\<exists>e. reach (eager_init [lit ''a'', lit ''b'']) eager_step e \<and> replayed e = [lit ''a''] \<and> buffer_remainder e = lit ''b''
     \<and> replayed e @ drop (replayed_count e) (buffer e) @ todo e = [lit ''a'', lit ''b'']"
proof -
  obtain e where e: "run_acts eager_step [GenNext, GenNext, ReplayNext] (start_eager [lit ''a'', lit ''b'']) = Some e"
    and p: "replayed e = [lit ''a'']" "buffer_remainder e = lit ''b''"
    by (simp add: start_eager_def buffer_remainder_def)
  have r: "reach (eager_init [lit ''a'', lit ''b'']) eager_step e"
    by (rule reach_run_acts [OF reach_init e]) (simp add: eager_init_def)
  with p eager_replay_in_order [OF r] show ?thesis by blast
qed

end
