(* ===== verification/Gate_Decider.thy ===== *)
theory Gate_Decider
  imports Pipeline_Config
begin

text \<open>
  From referee categories to one route: the routing-rule decider (\<^verbatim>\<open>pipeline/decider.py\<close>), the
  collection of the referees' answers under their time budget and the mapping of an action
  to a route (\<^verbatim>\<open>_await_referees\<close>, \<^verbatim>\<open>_select_gated_route\<close>, \<^verbatim>\<open>_persona_main_spec\<close> of \<^verbatim>\<open>run_loop.py\<close>).

  Routing rules and tools are raw JSON dicts, as the campaign stores them, so the definitions
  read them with the dynamic tests of the code and raise where Python raises.

  Shown: the first rule whose referee answered with a listed category decides; a referee that
  failed open can never match; on validated rules the decider and the selection never raise
  and every misconfigured target falls back to the fail-open route.
\<close>

section \<open>The decider\<close>

record decider_action =
  kind :: string
  route_to :: pyval
  goal_type :: pyval
  source :: "string option"
  restructure_trigger :: "string option"
  tool :: pyval
  then_state :: pyval
  closing_phrase_of :: pyval
  matched_rule :: "event option"

definition action_of :: "string \<Rightarrow> decider_action" where
  "action_of k = \<lparr>kind = k, route_to = PNone, goal_type = PNone, source = None, restructure_trigger = None,
     tool = PNone, then_state = PNone, closing_phrase_of = PNone, matched_rule = None\<rparr>"

text \<open>\<^verbatim>\<open>{r.label: r.effective_category() for r in results}\<close>: the last result of a label wins.\<close>

definition categories :: "referee_result list \<Rightarrow> pystr \<rightharpoonup> pystr option" where
  "categories rs = map_of (rev (map (\<lambda>r. (ref_label r, effective_category r)) rs))"

text \<open>\<^verbatim>\<open>categories.get(ref)\<close> for a value read from JSON: lists and dicts are unhashable.\<close>

fun category_for :: "(pystr \<rightharpoonup> pystr option) \<Rightarrow> pyval \<Rightarrow> pystr option res" where
  "category_for cs (PStr l) = Inr (case cs l of Some c \<Rightarrow> c | None \<Rightarrow> None)"
| "category_for cs (PList _) = Inl TypeError"
| "category_for cs (PDict _) = Inl TypeError"
| "category_for cs _ = Inr None"

text \<open>\<^verbatim>\<open>cat in (match or [])\<close>.\<close>

definition cat_in :: "pystr \<Rightarrow> pyval \<Rightarrow> bool res" where
  "cat_in cat m = (if \<not> truthy m then Inr False else case m of
       PList xs \<Rightarrow> Inr (PStr cat \<in> set xs)
     | PStr s \<Rightarrow> Inr (is_sub cat s)
     | PDict d \<Rightarrow> Inr (cat \<in> fst ` set d)
     | _ \<Rightarrow> Inl TypeError)"

text \<open>\<^verbatim>\<open>rule.get("action") or {}\<close>, which must be a dict to be read.\<close>

definition rule_action :: "event \<Rightarrow> event res" where
  "rule_action rule = (let a = dget rule (lit ''action'') in
     if \<not> truthy a then Inr [] else case a of PDict d \<Rightarrow> Inr d | _ \<Rightarrow> Inl AttributeError)"

definition action_from :: "event \<Rightarrow> event \<Rightarrow> decider_action" where
  "action_from rule action =
     (let atype = dget action (lit ''type'') in
      if atype = PStr (lit ''transition'') then
        (action_of ''transition'')\<lparr>route_to := dget action (lit ''to''), goal_type := dget action (lit ''goal_type''),
           matched_rule := Some rule\<rparr>
      else if atype = PStr (lit ''route'') then
        (action_of ''route'')\<lparr>route_to := dget action (lit ''to''), goal_type := dget action (lit ''goal_type''),
           then_state := dget action (lit ''then_state''), matched_rule := Some rule\<rparr>
      else if atype = PStr (lit ''tool'') then
        (action_of ''tool'')\<lparr>tool := dget action (lit ''tool''), then_state := dget action (lit ''then_state''),
           closing_phrase_of := dget action (lit ''closing_phrase''), matched_rule := Some rule\<rparr>
      else (action_of ''continue'')\<lparr>matched_rule := Some rule\<rparr>)"

fun decide_rules :: "(pystr \<rightharpoonup> pystr option) \<Rightarrow> event list \<Rightarrow> decider_action res" where
  "decide_rules cs [] = Inr (action_of ''continue'')"
| "decide_rules cs (rule # rules) =
     (case category_for cs (dget rule (lit ''referee'')) of
        Inl e \<Rightarrow> Inl e
      | Inr None \<Rightarrow> decide_rules cs rules
      | Inr (Some cat) \<Rightarrow>
          (case cat_in cat (dget rule (lit ''match'')) of
             Inl e \<Rightarrow> Inl e
           | Inr False \<Rightarrow> decide_rules cs rules
           | Inr True \<Rightarrow> (case rule_action rule of Inl e \<Rightarrow> Inl e | Inr a \<Rightarrow> Inr (action_from rule a))))"

definition decide :: "referee_result list \<Rightarrow> event list \<Rightarrow> decider_action res" where
  "decide results rules = decide_rules (categories results) rules"

section \<open>Awaiting the referees\<close>

text \<open>What awaiting one shielded referee task within the budget gives.\<close>

datatype referee_wait = RefDone referee_result | RefTimeout | RefError

fun await_one :: "referee_wait \<Rightarrow> pystr \<Rightarrow> referee_result" where
  "await_one (RefDone r) l = r"
| "await_one RefTimeout l = fail_open l (lit ''timeout'') 0 None"
| "await_one RefError l = fail_open l (lit ''invalid'') 0 None"

definition await_referees :: "referee_wait list \<Rightarrow> pystr list \<Rightarrow> referee_result list" where
  "await_referees waits labels = map (\<lambda>(t, l). await_one t l) (zip waits labels)"

section \<open>Route selection\<close>

record gated_selection =
  route_id :: pystr
  sel_kind :: string
  sel_then_state :: pyval
  sel_goal_type :: pyval
  sel_source :: "string option"
  sel_trigger :: "string option"
  tool_type :: "pystr option"
  tool_config :: "event option"
  sel_closing_phrase :: pyval

definition dialogue_route :: "pystr \<Rightarrow> gated_selection" where
  "dialogue_route r = \<lparr>route_id = r, sel_kind = ''dialogue'', sel_then_state = PNone, sel_goal_type = PStr [],
     sel_source = None, sel_trigger = None, tool_type = None, tool_config = None, sel_closing_phrase = PNone\<rparr>"

text \<open>\<^verbatim>\<open>v or d\<close>.\<close>

definition py_or :: "pyval \<Rightarrow> pyval \<Rightarrow> pyval" where
  "py_or v d = (if truthy v then v else d)"

definition fail_open_route :: "pipeline_config \<Rightarrow> pystr" where
  "fail_open_route c = (if referee_fail_open_route c = [] then lit ''main'' else referee_fail_open_route c)"

fun hashable :: "pyval \<Rightarrow> bool" where
  "hashable (PList _) = False"
| "hashable (PDict _) = False"
| "hashable _ = True"

definition select_tool :: "pipeline_config \<Rightarrow> pyval \<Rightarrow> pyval \<Rightarrow> pyval \<Rightarrow> gated_selection res" where
  "select_tool c alias th phrase =
     (if \<not> hashable alias then Inl TypeError
      else case (case alias of PStr a \<Rightarrow> map_option (Pair a) (map_of (tools c) a) | _ \<Rightarrow> None) of
        Some (a, PDict tc) \<Rightarrow>
          (let ttype = dget tc (lit ''type'') in
           if ttype \<noteq> PStr (lit ''hangup'') \<and> ttype \<noteq> PStr (lit ''transfer'')
           then Inr (dialogue_route (fail_open_route c))
           else Inr ((dialogue_route (lit ''tool:'' @ a))\<lparr>sel_kind := ''tool'',
                  sel_then_state := py_or th (PStr (if ttype = PStr (lit ''hangup'') then lit ''END'' else lit ''TRANSFERRING'')),
                  tool_type := Some (if ttype = PStr (lit ''hangup'') then lit ''hangup'' else lit ''transfer''),
                  tool_config := Some tc, sel_closing_phrase := phrase\<rparr>))
      | _ \<Rightarrow> Inr (dialogue_route (fail_open_route c)))"

definition builtin_then :: "pyval \<Rightarrow> pystr option" where
  "builtin_then to = (if to = PStr (lit ''closing'') then Some (lit ''WRAPPING_UP'')
     else if to = PStr (lit ''recovery'') then Some (lit ''ACTIVATING'') else None)"

definition select_route :: "decider_action \<Rightarrow> pipeline_config \<Rightarrow> pyval \<Rightarrow> gated_selection res" where
  "select_route a c to =
     (if \<not> hashable to then Inl TypeError
      else case builtin_then to of
        Some th \<Rightarrow> Inr ((dialogue_route (case to of PStr t \<Rightarrow> t | _ \<Rightarrow> []))\<lparr>
            sel_then_state := py_or (then_state a) (PStr th), sel_goal_type := py_or (goal_type a) (PStr [])\<rparr>)
      | None \<Rightarrow>
          (case to of
             PStr t \<Rightarrow> if t \<in> slot_label ` set (personas c)
                        then Inr ((dialogue_route (lit ''persona:'' @ t))\<lparr>sel_then_state := then_state a\<rparr>)
                        else Inr (dialogue_route (fail_open_route c))
           | _ \<Rightarrow> Inr (dialogue_route (fail_open_route c))))"

definition select_gated_route :: "decider_action \<Rightarrow> pipeline_config \<Rightarrow> gated_selection res" where
  "select_gated_route a c =
     (if kind a = ''transition'' then
        (if route_to a = PStr (lit ''goal_achieved'') then
           Inr ((dialogue_route (lit ''closing''))\<lparr>sel_then_state := PStr (lit ''WRAPPING_UP''),
                  sel_goal_type := py_or (goal_type a) (PStr [])\<rparr>)
         else if route_to a = PStr (lit ''transfer'') then
           Inr ((dialogue_route (lit ''tool:transfer''))\<lparr>sel_kind := ''tool'',
                  sel_then_state := PStr (lit ''TRANSFERRING''), tool_type := Some (lit ''transfer'')\<rparr>)
         else if route_to a = PStr (lit ''customer_decline'') then
           Inr ((dialogue_route (lit ''recovery''))\<lparr>sel_then_state := PStr (lit ''ACTIVATING'')\<rparr>)
         else Inr (dialogue_route (fail_open_route c)))
      else if kind a = ''restructure'' then
        Inr ((dialogue_route (lit ''restructure''))\<lparr>sel_then_state := PStr (lit ''LISTENING''),
               sel_source := source a, sel_trigger := restructure_trigger a\<rparr>)
      else if kind a = ''route'' then
        select_route a c (py_or (route_to a) (PStr []))
      else if kind a = ''tool'' then
        select_tool c (py_or (tool a) (PStr [])) (then_state a) (closing_phrase_of a)
      else Inr (dialogue_route (fail_open_route c)))"

text \<open>\<open>default_provider\<close> is the default of the field in the slot class; the call does not pass one.\<close>

definition persona_main_spec :: "pystr option \<Rightarrow> slot_spec \<Rightarrow> slot_spec" where
  "persona_main_spec default_provider p =
     \<lparr>role_config_id = role_config_id p, prompt_version_id = prompt_version_id p,
      system_prompt = system_prompt p, slot_provider = default_provider, slot_model = slot_model p,
      temperature = temperature p, top_p = top_p p, slot_label = []\<rparr>"

section \<open>Validated rules\<close>

text \<open>The shape the API checks on write: a referee label, a list of categories, an action object
  whose target, if any, is a string.\<close>

definition str_or_none :: "pyval \<Rightarrow> bool" where
  "str_or_none v = (case v of PNone \<Rightarrow> True | PStr _ \<Rightarrow> True | _ \<Rightarrow> False)"

definition rule_valid :: "event \<Rightarrow> bool" where
  "rule_valid r \<longleftrightarrow> (\<exists>l. dget r (lit ''referee'') = PStr l) \<and> (\<exists>xs. dget r (lit ''match'') = PList xs)
     \<and> (\<exists>d. dget r (lit ''action'') = PDict d \<and> str_or_none (dget d (lit ''to'')) \<and> str_or_none (dget d (lit ''tool'')))"

definition rule_matches :: "(pystr \<rightharpoonup> pystr option) \<Rightarrow> event \<Rightarrow> bool" where
  "rule_matches cs r = (case (dget r (lit ''referee''), dget r (lit ''match'')) of
       (PStr l, PList xs) \<Rightarrow> (case cs l of Some (Some c) \<Rightarrow> PStr c \<in> set xs | _ \<Rightarrow> False)
     | _ \<Rightarrow> False)"

definition action_dict :: "event \<Rightarrow> event" where
  "action_dict r = (case dget r (lit ''action'') of PDict d \<Rightarrow> d | _ \<Rightarrow> [])"

lemma decide_rules_find:
  assumes "\<forall>r \<in> set rules. rule_valid r"
  shows "decide_rules cs rules = Inr (case find (rule_matches cs) rules of
     Some r \<Rightarrow> action_from r (action_dict r) | None \<Rightarrow> action_of ''continue'')"
  using assms
proof (induction rules)
  case (Cons r rules)
  then obtain l xs d where r: "dget r (lit ''referee'') = PStr l" "dget r (lit ''match'') = PList xs"
    "dget r (lit ''action'') = PDict d" by (auto simp: rule_valid_def)
  have a: "rule_action r = Inr (action_dict r)"
    using r by (auto simp: rule_action_def action_dict_def Let_def)
  from Cons r a show ?case
    by (auto simp: rule_matches_def cat_in_def split: option.splits)
qed simp

lemma categories_fail_open:
  assumes "\<forall>r \<in> set rs. category r = None"
  shows "categories rs l \<noteq> Some (Some c)"
proof
  assume "categories rs l = Some (Some c)"
  then have "(l, Some c) \<in> set (rev (map (\<lambda>r. (ref_label r, effective_category r)) rs))"
    unfolding categories_def by (rule map_of_SomeD)
  with assms show False by (auto simp: effective_category_def)
qed

lemma no_match_fail_open:
  assumes "\<forall>r \<in> set rs. category r = None"
  shows "\<not> rule_matches (categories rs) rule"
  using categories_fail_open [OF assms] by (auto simp: rule_matches_def split: pyval.splits option.splits)

lemma action_from_fields:
  "kind (action_from r a) \<in> {''transition'', ''route'', ''tool'', ''continue''}"
  "route_to (action_from r a) \<in> {PNone, dget a (lit ''to'')}"
  "tool (action_from r a) \<in> {PNone, dget a (lit ''tool'')}"
  by (auto simp: action_from_def action_of_def Let_def)

lemma str_or_none_hashable: "str_or_none v \<Longrightarrow> hashable (py_or v (PStr []))"
  by (auto simp: str_or_none_def py_or_def split: pyval.splits)

lemma select_tool_total: "hashable alias \<Longrightarrow> \<exists>sel. select_tool c alias th ph = Inr sel"
  by (auto simp: select_tool_def Let_def split: option.split pyval.split)

lemma select_route_total: "hashable to \<Longrightarrow> \<exists>sel. select_route a c to = Inr sel"
  by (auto simp: select_route_def split: option.split pyval.split)

lemma select_total:
  "hashable (py_or (route_to a) (PStr [])) \<Longrightarrow> hashable (py_or (tool a) (PStr [])) \<Longrightarrow>
   \<exists>sel. select_gated_route a c = Inr sel"
  by (simp add: select_gated_route_def select_tool_total select_route_total)

text \<open>Where a selection can lead.\<close>

definition route_known :: "pipeline_config \<Rightarrow> gated_selection \<Rightarrow> bool" where
  "route_known c sel \<longleftrightarrow>
     (if sel_kind sel = ''tool'' then
        tool_type sel = Some (lit ''transfer'')
        \<or> (\<exists>a tc. route_id sel = lit ''tool:'' @ a \<and> map_of (tools c) a = Some (PDict tc)
              \<and> tool_config sel = Some tc \<and> tool_type sel = Some (lit ''hangup''))
      else sel_kind sel = ''dialogue'' \<and> tool_type sel = None \<and>
        (route_id sel \<in> {fail_open_route c, lit ''closing'', lit ''recovery'', lit ''restructure''}
         \<or> (\<exists>p \<in> set (personas c). route_id sel = lit ''persona:'' @ slot_label p)))"

lemma select_tool_known:
  "select_tool c alias th ph = Inr sel \<Longrightarrow> route_known c sel"
  by (auto simp: select_tool_def route_known_def dialogue_route_def Let_def
      split: if_splits option.splits pyval.splits)

lemma select_route_known:
  assumes "select_route a c to = Inr sel"
  shows "route_known c sel"
proof (cases "builtin_then to")
  case (Some th)
  then have "to = PStr (lit ''closing'') \<or> to = PStr (lit ''recovery'')"
    by (auto simp: builtin_then_def split: if_splits)
  with Some assms show ?thesis
    by (auto simp: select_route_def route_known_def dialogue_route_def)
next
  case None
  with assms show ?thesis
    by (cases to) (auto simp: select_route_def route_known_def dialogue_route_def split: if_splits)
qed

lemma select_known:
  assumes "select_gated_route a c = Inr sel"
  shows "route_known c sel"
proof -
  consider (tool) "kind a = ''tool''" | (route) "kind a = ''route''"
    | (other) "kind a \<noteq> ''tool''" "kind a \<noteq> ''route''" by blast
  then show ?thesis
  proof cases
    case tool
    with assms show ?thesis by (simp add: select_gated_route_def select_tool_known)
  next
    case route
    with assms show ?thesis by (simp add: select_gated_route_def select_route_known)
  next
    case other
    with assms show ?thesis
      by (auto simp: select_gated_route_def route_known_def dialogue_route_def split: if_splits)
  qed
qed

section \<open>Properties\<close>

text \<open>C10. First match wins: on validated rules the decider never raises and returns the action of
  the first rule, in campaign order, whose referee answered with one of the rule's
  categories, or \<^verbatim>\<open>continue\<close> if there is none.\<close>

theorem decide_first_match_wins:
  assumes "\<forall>r \<in> set rules. rule_valid r"
  shows "decide results rules = Inr (case find (rule_matches (categories results)) rules of
     Some r \<Rightarrow> action_from r (action_dict r) | None \<Rightarrow> action_of ''continue'')"
  unfolding decide_def using assms by (rule decide_rules_find)

definition sample_rule :: "string \<Rightarrow> string \<Rightarrow> event \<Rightarrow> event" where
  "sample_rule l c a = [(lit ''referee'', PStr (lit l)), (lit ''match'', PList [PStr (lit c)]), (lit ''action'', PDict a)]"

theorem decide_first_match_wins_witness:
  "let rs = [\<lparr>ref_label = lit ''gate'', category = Some (lit ''BYE''), confidence = 1, ref_duration_ms = 3,
              raw_output = None, failopen_reason = None\<rparr>];
       r1 = sample_rule ''gate'' ''YES'' [(lit ''type'', PStr (lit ''route'')), (lit ''to'', PStr (lit ''closing''))];
       r2 = sample_rule ''gate'' ''BYE'' [(lit ''type'', PStr (lit ''tool'')), (lit ''tool'', PStr (lit ''bye''))]
   in (\<exists>a. decide rs [r1, r2] = Inr a \<and> kind a = ''tool'' \<and> matched_rule a = Some r2)"
  using decide_first_match_wins [of
      "[sample_rule ''gate'' ''YES'' [(lit ''type'', PStr (lit ''route'')), (lit ''to'', PStr (lit ''closing''))],
        sample_rule ''gate'' ''BYE'' [(lit ''type'', PStr (lit ''tool'')), (lit ''tool'', PStr (lit ''bye''))]]"
      "[\<lparr>ref_label = lit ''gate'', category = Some (lit ''BYE''), confidence = 1, ref_duration_ms = 3,
         raw_output = None, failopen_reason = None\<rparr>]"]
  by (simp add: Let_def sample_rule_def rule_valid_def str_or_none_def rule_matches_def categories_def
      effective_category_def action_from_def action_dict_def action_of_def)

text \<open>The gate fails open: when every referee timed out or failed, no rule matches and the turn
  takes the configured fail-open dialogue route (\<^verbatim>\<open>main\<close> by default), whatever the rules.\<close>

theorem gate_fails_open:
  assumes "\<forall>t \<in> set waits. t = RefTimeout \<or> t = RefError" and "\<forall>r \<in> set rules. rule_valid r"
  shows "\<exists>a. decide (await_referees waits labels) rules = Inr a \<and>
    select_gated_route a c = Inr (dialogue_route (fail_open_route c))"
proof -
  have "\<forall>r \<in> set (await_referees waits labels). category r = None"
    using assms(1) by (auto simp: await_referees_def fail_open_def dest!: set_zip_leftD)
  then have "find (rule_matches (categories (await_referees waits labels))) rules = None"
    using no_match_fail_open by (simp add: find_None_iff)
  with decide_rules_find [OF assms(2)] show ?thesis
    by (simp add: decide_def select_gated_route_def action_of_def)
qed

theorem gate_fails_open_witness:
  "\<exists>a. decide (await_referees [RefTimeout] [lit ''gate'']) [sample_rule ''gate'' ''timeout'' []] = Inr a \<and>
     select_gated_route a demo_pipeline = Inr (dialogue_route (fail_open_route demo_pipeline))"
  using gate_fails_open [of "[RefTimeout]" "[sample_rule ''gate'' ''timeout'' []]" "[lit ''gate'']" demo_pipeline]
  by (simp add: sample_rule_def rule_valid_def str_or_none_def)

text \<open>Every decision on validated rules maps to exactly one route that exists: a tool with a
  hangup configuration or a transfer, a builtin route, an enabled persona, or the fail-open
  route. A misconfigured target never crashes the call.\<close>

theorem selected_route_exists:
  assumes "\<forall>r \<in> set rules. rule_valid r"
  shows "\<exists>a sel. decide results rules = Inr a \<and> select_gated_route a c = Inr sel \<and> route_known c sel"
proof -
  let ?a = "case find (rule_matches (categories results)) rules of
     Some r \<Rightarrow> action_from r (action_dict r) | None \<Rightarrow> action_of ''continue''"
  have d: "decide results rules = Inr ?a" unfolding decide_def using assms by (rule decide_rules_find)
  have "hashable (py_or (route_to ?a) (PStr []))" and "hashable (py_or (tool ?a) (PStr []))"
  proof -
    have "str_or_none (route_to ?a) \<and> str_or_none (tool ?a)"
    proof (cases "find (rule_matches (categories results)) rules")
      case None
      then show ?thesis by (simp add: action_of_def str_or_none_def)
    next
      case (Some r)
      then have "rule_valid r" using assms by (auto simp: find_Some_iff)
      then show ?thesis
        using Some action_from_fields(2,3) [of r "action_dict r"]
        by (auto simp: rule_valid_def action_dict_def str_or_none_def)
    qed
    then show "hashable (py_or (route_to ?a) (PStr []))" and "hashable (py_or (tool ?a) (PStr []))"
      by (auto intro: str_or_none_hashable)
  qed
  then obtain sel where "select_gated_route ?a c = Inr sel" using select_total by blast
  with d select_known show ?thesis by blast
qed

theorem selected_route_exists_witness:
  "\<exists>a sel. decide [] [sample_rule ''gate'' ''X'' []] = Inr a \<and> select_gated_route a demo_pipeline = Inr sel \<and> route_known demo_pipeline sel"
  using selected_route_exists [of "[sample_rule ''gate'' ''X'' []]" "[]" demo_pipeline]
  by (simp add: sample_rule_def rule_valid_def str_or_none_def)

end
