(* ===== verification/Call_World.thy ===== *)
theory Call_World
  imports Runtime_Config Reply_Stream Gate_Decider
begin

text \<open>
  The state the run loop works on and the actions it is composed of: the session together with
  the listening context (\<^verbatim>\<open>_ListenContext\<close>), the clock and the log of outward effects; what
  arrives from the telephone line while a coroutine is suspended; playback of one piece of
  audio (\<^verbatim>\<open>_play_chunks\<close>, \<^verbatim>\<open>_play_tts\<close>); publishing; the hand-off to a human
  (\<^verbatim>\<open>_perform_handoff\<close>); and the control-plane hang-up (\<^verbatim>\<open>_subscribe_control_bridges\<close>).

  A coroutine is an action: a function from the world to an outcome and a world. It returns,
  raises an \<^verbatim>\<open>Exception\<close>, or is unwound by \<^verbatim>\<open>CancelledError\<close>, which \<^verbatim>\<open>except Exception\<close> does not
  catch. Every suspension point takes a \<open>wait\<close>: what arrives meanwhile, when it is resumed,
  and whether the main task is cancelled there. While the main task is suspended the pumps and
  monitors run, so their effect is folded into the suspension (\<open>suspend\<close>).

  Shown: a preservation calculus for actions (\<open>keeps\<close>) and, with it, that playback and hand-off
  keep the session invariant and leave no playback registered; a hand-off that is not
  cancelled ends the call; a hang-up requested while audio plays is swallowed.
\<close>

section \<open>The world\<close>

datatype effect =
    PlayedOut pystr bool
  | HangupCall
  | PubStatus call_status pystr
  | PubAsrFinal pystr int
  | PubStarted clock
  | DialOut pystr
  | ConfigureAmbient "pystr option" rat
  | SetFadeout int

record world = call_session +
  now :: clock
  finals :: "pystr list"
  partials :: "pystr list"
  hangup_event :: bool
  asr_finished :: bool
  monitors_on :: bool
  monitor_dead :: bool
  publishing :: bool
  short_reply :: bool
  effects :: "effect list"

datatype 'a outcome = Ret 'a | Raised pyerr | Cancelled

type_synonym 'a action = "world \<Rightarrow> 'a outcome \<times> world"

section \<open>Actions\<close>

definition ret :: "'a \<Rightarrow> 'a action" where
  "ret a w = (Ret a, w)"

definition act :: "'a action \<Rightarrow> ('a \<Rightarrow> 'b action) \<Rightarrow> 'b action" where
  "act m f w = (case m w of
      (Ret a, w') \<Rightarrow> f a w'
    | (Raised e, w') \<Rightarrow> (Raised e, w')
    | (Cancelled, w') \<Rightarrow> (Cancelled, w'))"

abbreviation andthen :: "'a action \<Rightarrow> 'b action \<Rightarrow> 'b action" where
  "andthen m n \<equiv> act m (\<lambda>_. n)"

definition upd :: "(world \<Rightarrow> world) \<Rightarrow> unit action" where
  "upd f w = (Ret (), f w)"

definition ask :: "(world \<Rightarrow> 'b) \<Rightarrow> ('b \<Rightarrow> 'a action) \<Rightarrow> 'a action" where
  "ask g k w = k (g w) w"

definition lift_res :: "'a res \<Rightarrow> 'a action" where
  "lift_res r w = (case r of Inl e \<Rightarrow> Raised e | Inr a \<Rightarrow> Ret a, w)"

definition lastly :: "'a action \<Rightarrow> (world \<Rightarrow> world) \<Rightarrow> 'a action" where
  "lastly m f w = (case m w of (r, w') \<Rightarrow> (r, f w'))"

text \<open>\<^verbatim>\<open>except Exception\<close>: a raised error is handled, a cancellation passes.\<close>

definition catching :: "'a action \<Rightarrow> (pyerr \<Rightarrow> 'a action) \<Rightarrow> 'a action" where
  "catching m h w = (case m w of (Raised e, w') \<Rightarrow> h e w' | rw \<Rightarrow> rw)"

lemma act_cong [fundef_cong]:
  "m = m' \<Longrightarrow> w = w' \<Longrightarrow> (\<And>a v. m' w' = (Ret a, v) \<Longrightarrow> f a v = f' a v) \<Longrightarrow> act m f w = act m' f' w'"
  by (auto simp: act_def split: outcome.splits prod.splits)

definition event :: "pyenv \<Rightarrow> string \<Rightarrow> event \<Rightarrow> unit action" where
  "event E ty kvs = upd (\<lambda>w. record_event E (now w) ty kvs w)"

definition goto :: "pyenv \<Rightarrow> call_status \<Rightarrow> pystr \<Rightarrow> unit action" where
  "goto E st why = upd (\<lambda>w. transition_to E (now w) st (Some why) w)"

definition emit :: "effect \<Rightarrow> unit action" where
  "emit e = upd (\<lambda>w. w\<lparr>effects := effects w @ [e]\<rparr>)"

section \<open>What arrives while suspended\<close>

text \<open>An ASR result, or an event of the telephone line.\<close>

datatype arrival =
    AsrResult clock pystr bool
  | LineEvent clock pystr
  | AsrEnd clock

datatype cancel = NoCancel | Terminate | CancelTask

record wait =
  arrivals :: "arrival list"
  resumed :: clock
  cancel_at :: cancel

text \<open>\<^verbatim>\<open>time.monotonic\<close> never goes back.\<close>

definition advance :: "clock \<Rightarrow> world \<Rightarrow> world" where
  "advance t w = w\<lparr>now := max (now w) t\<rparr>"

definition hangup_types :: "pystr list" where
  "hangup_types = map lit [''remote_hangup'', ''local_hangup'', ''device_error'']"

text \<open>The bridges of the bus: a final goes to the finals queue, a partial to the partials queue,
  from which the monitor takes it at once when it runs. A rule that raises ends the monitor.\<close>

definition bridge_final :: "pystr \<Rightarrow> world \<Rightarrow> world" where
  "bridge_final txt w = w\<lparr>finals := finals w @ [txt]\<rparr>"

definition bridge_partial :: "pyenv \<Rightarrow> interruption_config \<Rightarrow> pystr \<Rightarrow> world \<Rightarrow> world" where
  "bridge_partial E icfg txt w =
     (if monitors_on w \<and> \<not> monitor_dead w
      then (case partial_step E icfg (now w) txt w of
              Inl e \<Rightarrow> w\<lparr>monitor_dead := True\<rparr>
            | Inr w' \<Rightarrow> w')
      else w\<lparr>partials := partials w @ [txt]\<rparr>)"

definition bridge_hangup :: "world \<Rightarrow> world" where
  "bridge_hangup w = w\<lparr>hangup_event := True\<rparr>"

definition asr_pump_step :: "pyenv \<Rightarrow> interruption_config \<Rightarrow> pystr \<Rightarrow> bool \<Rightarrow> world \<Rightarrow> world" where
  "asr_pump_step E icfg txt is_final w =
     (if txt = [] then w
      else if is_final then bridge_final txt (w\<lparr>current_user_speech_started_ms := None\<rparr>)
      else bridge_partial E icfg txt w)"

definition ev_pump_step :: "pystr \<Rightarrow> world \<Rightarrow> world" where
  "ev_pump_step ev_type w = (if ev_type \<in> set hangup_types then bridge_hangup w else w)"

fun arrive :: "pyenv \<Rightarrow> interruption_config \<Rightarrow> arrival \<Rightarrow> world \<Rightarrow> world" where
  "arrive E icfg (AsrResult t txt fin) w = asr_pump_step E icfg txt fin (advance t w)"
| "arrive E icfg (LineEvent t ty) w = ev_pump_step ty (advance t w)"
| "arrive E icfg (AsrEnd t) w = (advance t w)\<lparr>asr_finished := True\<rparr>"

text \<open>\<^verbatim>\<open>_terminate\<close> of the control bridge: without a running main task the request is dropped.\<close>

definition terminate :: "world \<Rightarrow> bool \<times> world" where
  "terminate w = (case tasks w ''main'' of
       None \<Rightarrow> (False, w)
     | Some TaskDone \<Rightarrow> (False, w)
     | Some _ \<Rightarrow> (True, w\<lparr>hangup_cause := Some (lit ''manual_hangup'')\<rparr>))"

definition deliver_cancel :: "cancel \<Rightarrow> world \<Rightarrow> bool \<times> world" where
  "deliver_cancel c w = (case c of
       NoCancel \<Rightarrow> (False, w)
     | CancelTask \<Rightarrow> (True, w)
     | Terminate \<Rightarrow> terminate w)"

definition suspend :: "pyenv \<Rightarrow> interruption_config \<Rightarrow> wait \<Rightarrow> world \<Rightarrow> bool \<times> world" where
  "suspend E icfg wt w =
     deliver_cancel (cancel_at wt) (advance (resumed wt) (fold (arrive E icfg) (arrivals wt) w))"

text \<open>A suspension that a cancellation unwinds.\<close>

definition await :: "pyenv \<Rightarrow> interruption_config \<Rightarrow> wait \<Rightarrow> unit action" where
  "await E icfg wt w = (case suspend E icfg wt w of (c, w') \<Rightarrow> (if c then Cancelled else Ret (), w'))"

section \<open>Playback of one piece of audio\<close>

text \<open>The audio task ends normally, with an error, or cancelled: by the monitor, or because the main
  task is cancelled while it awaits it (\<^verbatim>\<open>Task.cancel\<close> cancels the awaited task, so
  \<^verbatim>\<open>play_task.cancelled()\<close> holds in both cases).\<close>

record play =
  play_wait :: wait
  play_error :: "pystr option"

definition play_chunks :: "pyenv \<Rightarrow> interruption_config \<Rightarrow> play \<Rightarrow> bool \<Rightarrow> bool action" where
  "play_chunks E icfg p interruptible w =
     (let w1 = (if interruptible then w\<lparr>current_speaking_task := Some TaskRunning\<rparr> else w);
          (cancelled, w2) = suspend E icfg (play_wait p) w1;
          stopped = (cancelled \<or> (interruptible \<and> current_speaking_task w2 = Some TaskCancelRequested));
          r = (if stopped then Ret False
               else case play_error p of Some e \<Rightarrow> Raised (OtherErr e) | None \<Rightarrow> Ret True);
          w3 = (case r of Ret _ \<Rightarrow> w2\<lparr>last_tts_end_at := Some (now w2)\<rparr> | _ \<Rightarrow> w2)
      in (r, if interruptible then w3\<lparr>current_speaking_task := None\<rparr> else w3))"

definition play_tts :: "pyenv \<Rightarrow> interruption_config \<Rightarrow> play \<Rightarrow> pystr \<Rightarrow> bool \<Rightarrow> bool action" where
  "play_tts E icfg p txt interruptible =
     act (play_chunks E icfg p interruptible) (\<lambda>full. andthen (emit (PlayedOut txt full)) (ret full))"

section \<open>Publishing and hanging up\<close>

definition publish_status :: "pystr \<Rightarrow> unit action" where
  "publish_status why = ask (\<lambda>w. (publishing w, state w)) (\<lambda>(p, st). if p then emit (PubStatus st why) else ret ())"

text \<open>An error of the telephony client is logged; a cancellation is not caught.\<close>

datatype hangup_outcome = HangupOk | HangupRaised | HangupCancelled

definition attempt_hangup :: "hangup_outcome \<Rightarrow> unit action" where
  "attempt_hangup h = andthen (emit HangupCall) (\<lambda>w. (if h = HangupCancelled then Cancelled else Ret (), w))"

definition end_call :: "pyenv \<Rightarrow> string \<Rightarrow> string \<Rightarrow> string \<Rightarrow> unit action" where
  "end_call E why cause who =
     andthen (goto E END (lit why))
    (andthen (upd (\<lambda>w. w\<lparr>hangup_cause := Some (lit cause)\<rparr>))
             (event E ''hangup'' [(lit ''reason'', PStr (lit why)), (lit ''initiated_by'', PStr (lit who))]))"

section \<open>Hand-off\<close>

record handoff_script =
  ho_play :: play
  ho_hangup :: hangup_outcome

definition perform_handoff :: "pyenv \<Rightarrow> interruption_config \<Rightarrow> handoff_script \<Rightarrow> string \<Rightarrow> pystr \<Rightarrow> pystr \<Rightarrow> unit action" where
  "perform_handoff E icfg sc ttype detail phrase =
     andthen (goto E TRANSFERRING (if ttype = [] then lit ''transfer'' else lit ttype))
    (andthen (event E ''transfer_initiated''
                [(lit ''trigger_type'', PStr (lit ttype)), (lit ''trigger_detail'', PStr detail)])
    (andthen (if phrase \<noteq> [] then andthen (play_tts E icfg (ho_play sc) phrase True) (ret ()) else ret ())
    (andthen (upd (\<lambda>w. w\<lparr>transfer_status := lit ''marked_for_handoff'', transfer_reason := Some (lit ttype)\<rparr>))
    (andthen (event E ''transfer_marked'' [])
    (andthen (attempt_hangup (ho_hangup sc))
             (end_call E ''marked_for_handoff'' ''marked_for_handoff'' ''ai''))))))"

section \<open>Protection\<close>

definition decide_protection :: "runtime_config \<Rightarrow> 'a call_session_scheme \<Rightarrow> string option" where
  "decide_protection cfg s =
     (if consecutive_interruption_count s < max_continuous_interruptions cfg then None
      else if continuous_interruption_strategy cfg = lit ''listen_only'' then Some ''listen_only''
      else Some ''short_reply'')"

section \<open>What runs in the background\<close>

text \<open>The pumps, the monitor and the control bridge never touch the books of the turn: the state, the
  counters, the dialogue, the captured remainder. They may mark the playback for
  cancellation and append an interruption.\<close>

definition hangups :: "'a call_session_scheme \<Rightarrow> nat" where
  "hangups s = length (filter (event_is ''hangup'') (full_transcript s))"

definition books :: "'a call_session_scheme \<Rightarrow> _" where
  "books s = (state s, state_history s, dialog_history s, pipeline_trace_records s, current_turn_id s,
     (silence_activation_count s, consecutive_interruption_count s, consecutive_restructure_count s),
     (wrap_up_round_count s, in_wrap_up s, wrap_up_started_at_monotonic s), interrupt_remaining_text s,
     in_processing_turn s, used_filler_phrases s, tasks s, call_record_id s, hangups s)"

definition may_cancel :: "task_status option \<Rightarrow> task_status option \<Rightarrow> bool" where
  "may_cancel t t' \<longleftrightarrow> t' = t \<or> t' = cancel_task t"

definition background :: "pyenv \<Rightarrow> world \<Rightarrow> world \<Rightarrow> bool" where
  "background E w w' \<longleftrightarrow> books w' = books w \<and> (session_inv E w \<longrightarrow> session_inv E w')
     \<and> may_cancel (current_speaking_task w) (current_speaking_task w')
     \<and> (monitors_on w' = monitors_on w) \<and> now w \<le> now w' \<and> effects w' = effects w
     \<and> short_reply w' = short_reply w \<and> publishing w' = publishing w
     \<and> (interruption_signaled w \<longrightarrow> interruption_signaled w')
     \<and> (hangup_cause w \<noteq> None \<longrightarrow> hangup_cause w' \<noteq> None)"

lemma may_cancel_simps [simp]:
  "may_cancel t t" "may_cancel t (cancel_task t)" "may_cancel None t \<longleftrightarrow> t = None"
  by (auto simp: may_cancel_def cancel_task_def)

lemma background_refl: "background E w w"
  by (simp add: background_def)

lemma cancel_task_idem [simp]: "cancel_task (cancel_task t) = cancel_task t"
  by (simp add: cancel_task_def split: option.splits task_status.splits)

lemma may_cancel_trans: "may_cancel a b \<Longrightarrow> may_cancel b c \<Longrightarrow> may_cancel a c"
  by (auto simp: may_cancel_def)

lemma background_trans: "background E u v \<Longrightarrow> background E v w \<Longrightarrow> background E u w"
  by (auto simp: background_def intro: may_cancel_trans)

lemma session_inv_journal:
  assumes "state s' = state s" "previous_state s' = previous_state s" "state_history s' = state_history s"
    "dialog_history s' = dialog_history s" "full_transcript s' = full_transcript s"
  shows "session_inv E s' = session_inv E s"
  using assms by (simp add: session_inv_def warnings_def)

lemma background_advance: "background E w (advance t w)"
  by (simp add: background_def advance_def books_def hangups_def session_inv_journal [of "w\<lparr>now := max (now w) t\<rparr>" w])

lemma record_event_hangups:
  "plain_fields kvs \<Longrightarrow> hangups (record_event E t ty kvs s) = hangups s + (if ty = ''hangup'' then 1 else 0)"
  by (simp add: hangups_def)

lemma record_event_dialog_same:
  "lit ty \<notin> set dialog_event_types \<Longrightarrow> dialog_history (record_event E t ty kvs s) = dialog_history s"
  by (simp add: record_event_def store_event_def Let_def)

lemma record_event_world [simp]:
  "now (record_event E t ty kvs w) = now w" "finals (record_event E t ty kvs w) = finals w"
  "partials (record_event E t ty kvs w) = partials w" "hangup_event (record_event E t ty kvs w) = hangup_event w"
  "asr_finished (record_event E t ty kvs w) = asr_finished w"
  "monitors_on (record_event E t ty kvs w) = monitors_on w" "monitor_dead (record_event E t ty kvs w) = monitor_dead w"
  "publishing (record_event E t ty kvs w) = publishing w" "short_reply (record_event E t ty kvs w) = short_reply w"
  "effects (record_event E t ty kvs w) = effects w"
  by (simp_all add: session_defs)

lemma transition_world [simp]:
  "now (transition_to E t st r w) = now w" "finals (transition_to E t st r w) = finals w"
  "partials (transition_to E t st r w) = partials w" "hangup_event (transition_to E t st r w) = hangup_event w"
  "asr_finished (transition_to E t st r w) = asr_finished w"
  "monitors_on (transition_to E t st r w) = monitors_on w" "monitor_dead (transition_to E t st r w) = monitor_dead w"
  "publishing (transition_to E t st r w) = publishing w" "short_reply (transition_to E t st r w) = short_reply w"
  "effects (transition_to E t st r w) = effects w"
  by (simp_all add: session_defs)

lemma partial_step_background:
  assumes "partial_step E icfg t txt w = Inr w'"
  shows "background E w w'"
proof -
  have inv: "session_inv E w \<Longrightarrow> session_inv E w'"
    using partial_step_inv assms by blast
  show ?thesis
    using assms inv
    by (auto simp: partial_step_def Let_def background_def books_def hangups_def record_event_dialog_same
        dialog_event_types_def split: if_splits sum.splits partial_verdict.splits)
qed

lemma background_world_fields:
  "background E w (w\<lparr>finals := f\<rparr>)" "background E w (w\<lparr>partials := f\<rparr>)"
  "background E w (w\<lparr>hangup_event := b\<rparr>)" "background E w (w\<lparr>asr_finished := b\<rparr>)"
  "background E w (w\<lparr>monitor_dead := b\<rparr>)" "background E w (w\<lparr>current_user_speech_started_ms := a\<rparr>)"
  "background E w (w\<lparr>hangup_cause := Some h\<rparr>)"
  by (auto simp: background_def books_def hangups_def intro: session_inv_journal [THEN iffD2])

lemma background_partial: "background E w (bridge_partial E icfg txt w)"
  by (auto simp: bridge_partial_def background_world_fields partial_step_background split: sum.splits)

lemma background_arrive: "background E w (arrive E icfg a w)"
  by (cases a) (auto simp: asr_pump_step_def ev_pump_step_def bridge_final_def bridge_hangup_def
      intro: background_trans [OF background_advance] background_partial background_world_fields background_refl
        background_trans [OF background_world_fields(6) background_world_fields(1)])

lemma background_arrivals: "background E w (fold (arrive E icfg) as w)"
  by (induction as arbitrary: w) (auto intro: background_refl background_trans background_arrive)

lemma background_cancel: "deliver_cancel c w = (b, w') \<Longrightarrow> background E w w'"
  by (auto simp: deliver_cancel_def terminate_def background_refl background_world_fields
      split: cancel.splits option.splits task_status.splits)

lemma suspend_background: "suspend E icfg wt w = (b, w') \<Longrightarrow> background E w w'"
  unfolding suspend_def
  by (meson background_advance background_arrivals background_cancel background_trans)

section \<open>Preservation\<close>

text \<open>\<open>open_call\<close>: the call is running and its books are in order. \<open>closed_call\<close>: it has ended with a
  cause, and the transcript has exactly one hang-up, at its end. \<open>keeps\<close> is preservation of
  \<open>open_call\<close> whatever the outcome; \<open>ends\<close> is that a normal return has closed the call.\<close>

named_theorems keep_rules \<open>actions that keep the call open\<close>

definition has_turn :: "event \<Rightarrow> bool" where
  "has_turn tr \<longleftrightarrow> (\<exists>i. map_of tr (lit ''turn_id'') = Some (PInt i))"

definition traces_ok :: "'a call_session_scheme \<Rightarrow> bool" where
  "traces_ok s \<longleftrightarrow> list_all has_turn (pipeline_trace_records s)"

definition open_call :: "pyenv \<Rightarrow> world \<Rightarrow> bool" where
  "open_call E w \<longleftrightarrow> session_inv E w \<and> traces_ok w \<and> state w \<noteq> END \<and> hangups w = 0
     \<and> current_speaking_task w = None \<and> \<not> in_processing_turn w"

definition closed_call :: "pyenv \<Rightarrow> world \<Rightarrow> bool" where
  "closed_call E w \<longleftrightarrow> session_inv E w \<and> traces_ok w \<and> state w = END \<and> hangup_cause w \<noteq> None \<and> hangups w = 1
     \<and> full_transcript w \<noteq> [] \<and> event_is ''hangup'' (last (full_transcript w))
     \<and> current_speaking_task w = None \<and> \<not> in_processing_turn w"

definition keeps :: "pyenv \<Rightarrow> 'a action \<Rightarrow> bool" where
  "keeps E m \<longleftrightarrow> (\<forall>w. open_call E w \<longrightarrow> open_call E (snd (m w)) \<and> call_record_id (snd (m w)) = call_record_id w)"

definition ends :: "pyenv \<Rightarrow> ('a \<Rightarrow> bool) \<Rightarrow> 'a action \<Rightarrow> bool" where
  "ends E stop m \<longleftrightarrow> (\<forall>w. open_call E w \<longrightarrow> (case m w of
      (Ret a, w') \<Rightarrow> if stop a then closed_call E w' else open_call E w'
    | (_, w') \<Rightarrow> open_call E w') \<and> call_record_id (snd (m w)) = call_record_id w)"

lemma keepsI:
  "(\<And>w. open_call E w \<Longrightarrow> open_call E (snd (m w))) \<Longrightarrow> (\<And>w. call_record_id (snd (m w)) = call_record_id w) \<Longrightarrow> keeps E m"
  by (simp add: keeps_def)

lemma keepsD: "keeps E m \<Longrightarrow> open_call E w \<Longrightarrow> m w = (r, w') \<Longrightarrow> open_call E w'"
  by (metis keeps_def snd_conv)

lemma keeps_id: "keeps E m \<Longrightarrow> open_call E w \<Longrightarrow> m w = (r, w') \<Longrightarrow> call_record_id w' = call_record_id w"
  by (metis keeps_def snd_conv)

lemma ends_id: "ends E stop m \<Longrightarrow> open_call E w \<Longrightarrow> m w = (r, w') \<Longrightarrow> call_record_id w' = call_record_id w"
  by (metis ends_def snd_conv)

lemma endsI:
  assumes "\<And>w r w'. open_call E w \<Longrightarrow> m w = (r, w') \<Longrightarrow> call_record_id w' = call_record_id w
      \<and> (case r of Ret a \<Rightarrow> if stop a then closed_call E w' else open_call E w' | _ \<Rightarrow> open_call E w')"
  shows "ends E stop m"
  unfolding ends_def
proof (intro allI impI)
  fix w assume o: "open_call E w"
  obtain r w' where m: "m w = (r, w')" by fastforce
  show "(case m w of (Ret a, w') \<Rightarrow> if stop a then closed_call E w' else open_call E w' | (_, w') \<Rightarrow> open_call E w')
      \<and> call_record_id (snd (m w)) = call_record_id w"
    using assms [OF o m] unfolding m by (cases r) simp_all
qed

lemma endsD:
  assumes "ends E stop m" "open_call E w" "m w = (r, w')"
  shows "case r of Ret a \<Rightarrow> if stop a then closed_call E w' else open_call E w' | _ \<Rightarrow> open_call E w'"
proof -
  have "case m w of (Ret a, w') \<Rightarrow> if stop a then closed_call E w' else open_call E w' | (_, w') \<Rightarrow> open_call E w'"
    using assms(1,2) by (simp add: ends_def)
  then show ?thesis unfolding assms(3) by (cases r) simp_all
qed

lemma keeps_ret [keep_rules]: "keeps E (ret a)"
  by (simp add: keeps_def ret_def)

lemma keeps_act [keep_rules]: "keeps E m \<Longrightarrow> (\<And>a. keeps E (f a)) \<Longrightarrow> keeps E (act m f)"
  by (auto simp: keeps_def act_def split: outcome.splits prod.splits)

lemma keeps_ask [keep_rules]: "(\<And>x. keeps E (k x)) \<Longrightarrow> keeps E (ask g k)"
  by (simp add: keeps_def ask_def)

lemma keeps_if [keep_rules]: "(b \<Longrightarrow> keeps E m) \<Longrightarrow> (\<not> b \<Longrightarrow> keeps E n) \<Longrightarrow> keeps E (if b then m else n)"
  by simp

lemma keeps_option [keep_rules]:
  "(x = None \<Longrightarrow> keeps E m) \<Longrightarrow> (\<And>a. x = Some a \<Longrightarrow> keeps E (f a)) \<Longrightarrow> keeps E (case x of None \<Rightarrow> m | Some a \<Rightarrow> f a)"
  by (cases x) auto

lemma keeps_prod [keep_rules]: "(\<And>a b. keeps E (f a b)) \<Longrightarrow> keeps E (case x of (a, b) \<Rightarrow> f a b)"
  by (cases x) auto

lemma keeps_lift_res [keep_rules]: "keeps E (lift_res r)"
  by (simp add: keeps_def lift_res_def)

lemma keeps_upd [keep_rules]:
  "(\<And>w. open_call E w \<Longrightarrow> open_call E (f w)) \<Longrightarrow> (\<And>w. call_record_id (f w) = call_record_id w) \<Longrightarrow> keeps E (upd f)"
  by (simp add: keeps_def upd_def)

lemma open_call_same [simp]:
  "open_call E (w\<lparr>effects := a1\<rparr>) = open_call E w"
  "open_call E (w\<lparr>now := a2\<rparr>) = open_call E w"
  "open_call E (w\<lparr>finals := a3\<rparr>) = open_call E w"
  "open_call E (w\<lparr>partials := a4\<rparr>) = open_call E w"
  "open_call E (w\<lparr>short_reply := b1\<rparr>) = open_call E w"
  "open_call E (w\<lparr>monitors_on := b2\<rparr>) = open_call E w"
  "open_call E (w\<lparr>hangup_cause := a5\<rparr>) = open_call E w"
  "open_call E (w\<lparr>transfer_status := a6\<rparr>) = open_call E w"
  "open_call E (w\<lparr>transfer_reason := a7\<rparr>) = open_call E w"
  "open_call E (w\<lparr>last_tts_end_at := a8\<rparr>) = open_call E w"
  "open_call E (w\<lparr>last_user_speech_end_at := a9\<rparr>) = open_call E w"
  "open_call E (w\<lparr>interruption_signaled := b3\<rparr>) = open_call E w"
  "open_call E (w\<lparr>consecutive_interruption_count := c1\<rparr>) = open_call E w"
  "open_call E (w\<lparr>consecutive_restructure_count := c2\<rparr>) = open_call E w"
  "open_call E (w\<lparr>silence_activation_count := c3\<rparr>) = open_call E w"
  "open_call E (w\<lparr>interrupt_remaining_text := c4\<rparr>) = open_call E w"
  "open_call E (w\<lparr>total_tokens_in := c6\<rparr>) = open_call E w"
  "open_call E (w\<lparr>total_tokens_out := c7\<rparr>) = open_call E w"
  "open_call E (w\<lparr>in_wrap_up := b4\<rparr>) = open_call E w"
  "open_call E (w\<lparr>wrap_up_started_at_monotonic := c8\<rparr>) = open_call E w"
  "open_call E (w\<lparr>wrap_up_started_at_wallclock := c9\<rparr>) = open_call E w"
  "open_call E (w\<lparr>wrap_up_round_count := d1\<rparr>) = open_call E w"
  "open_call E (w\<lparr>current_turn_id := d2\<rparr>) = open_call E w"
  "open_call E (w\<lparr>used_filler_phrases := d3\<rparr>) = open_call E w"
  "open_call E (w\<lparr>prompt_versions_snapshot := d4\<rparr>) = open_call E w"
  "open_call E (w\<lparr>tasks := d5\<rparr>) = open_call E w"
  "open_call E (w\<lparr>session_bus := d6\<rparr>) = open_call E w"
  "open_call E (w\<lparr>current_user_speech_started_ms := d7\<rparr>) = open_call E w"
  by (simp_all add: open_call_def hangups_def session_inv_def warnings_def traces_ok_def)

lemma traces_ok_same [simp]:
  "traces_ok (record_event E t ty kvs s) = traces_ok s" "traces_ok (transition_to E t st r s) = traces_ok s"
  by (simp_all add: traces_ok_def)

lemma keeps_emit [keep_rules]: "keeps E (emit e)"
  unfolding emit_def by (rule keeps_upd) simp_all

lemma open_call_event:
  "open_call E w \<Longrightarrow> plain_fields kvs \<Longrightarrow> ty \<noteq> ''state_warning'' \<Longrightarrow> ty \<noteq> ''hangup'' \<Longrightarrow>
   open_call E (record_event E t ty kvs w)"
  by (simp add: open_call_def record_event_inv record_event_hangups)

lemma keeps_event [keep_rules]:
  "plain_fields kvs \<Longrightarrow> ty \<noteq> ''state_warning'' \<Longrightarrow> ty \<noteq> ''hangup'' \<Longrightarrow> keeps E (event E ty kvs)"
  unfolding event_def by (rule keeps_upd) (simp_all add: open_call_event)

lemma transition_hangups [simp]: "hangups (transition_to E t st r w) = hangups w"
  by (simp add: transition_to_def Let_def hangups_def plain_fields_def)

lemma open_call_goto: "open_call E w \<Longrightarrow> st \<noteq> END \<Longrightarrow> open_call E (transition_to E t st r w)"
  by (simp add: open_call_def transition_inv)

lemma keeps_goto [keep_rules]: "st \<noteq> END \<Longrightarrow> keeps E (goto E st why)"
  unfolding goto_def by (rule keeps_upd) (simp_all add: open_call_goto)

lemma open_call_background:
  "open_call E w \<Longrightarrow> background E w w' \<Longrightarrow> open_call E w'"
  by (auto simp: open_call_def background_def books_def traces_ok_def)

lemma suspend_id: "suspend E icfg wt w = (c, w') \<Longrightarrow> call_record_id w' = call_record_id w"
  using suspend_background [of E icfg wt w c w'] by (simp add: background_def books_def)

lemma keeps_await [keep_rules]: "keeps E (await E icfg wt)"
  by (rule keepsI) (auto simp: await_def split: prod.splits intro: open_call_background suspend_background suspend_id)

lemma keeps_play_chunks [keep_rules]: "keeps E (play_chunks E icfg p i)"
proof (rule keepsI)
  fix w assume o: "open_call E w"
  define w1 where "w1 = (if i then w\<lparr>current_speaking_task := Some TaskRunning\<rparr> else w)"
  obtain c w2 where s: "suspend E icfg (play_wait p) w1 = (c, w2)" by fastforce
  have b: "background E w1 w2" by (rule suspend_background [OF s])
  have "open_call E (w2\<lparr>current_speaking_task := None\<rparr>)" "\<not> i \<Longrightarrow> current_speaking_task w2 = None"
    using o b unfolding w1_def open_call_def background_def books_def
    by (auto simp: session_inv_def warnings_def hangups_def traces_ok_def may_cancel_def cancel_task_def split: if_splits)
  then show "open_call E (snd (play_chunks E icfg p i w))"
    unfolding play_chunks_def w1_def [symmetric] Let_def s
    by (cases i) (auto simp: open_call_def hangups_def session_inv_def warnings_def traces_ok_def
        split: option.splits if_splits)
next
  fix w :: world
  define w1 where "w1 = (if i then w\<lparr>current_speaking_task := Some TaskRunning\<rparr> else w)"
  obtain c w2 where s: "suspend E icfg (play_wait p) w1 = (c, w2)" by fastforce
  have "call_record_id w2 = call_record_id w" using suspend_id [OF s] by (simp add: w1_def)
  then show "call_record_id (snd (play_chunks E icfg p i w)) = call_record_id w"
    unfolding play_chunks_def w1_def [symmetric] Let_def s by (auto split: option.splits)
qed

lemma keeps_play_tts [keep_rules]: "keeps E (play_tts E icfg p t i)"
  unfolding play_tts_def by (intro keep_rules)

lemma keeps_publish_status [keep_rules]: "keeps E (publish_status y)"
  unfolding publish_status_def by (intro keep_rules)

lemma keeps_attempt_hangup [keep_rules]: "keeps E (attempt_hangup h)"
  unfolding attempt_hangup_def by (intro keep_rules keepsI) simp_all

text \<open>The same for actions that may end the call.\<close>

named_theorems end_rules \<open>actions that close the call when they say so\<close>

lemma ends_act [end_rules]: "keeps E m \<Longrightarrow> (\<And>a. ends E stop (f a)) \<Longrightarrow> ends E stop (act m f)"
proof (rule endsI)
  fix w r w' assume k: "keeps E m" and f: "\<And>a. ends E stop (f a)" and o: "open_call E w" and r: "act m f w = (r, w')"
  obtain q v where m: "m w = (q, v)" by fastforce
  have v: "open_call E v" "call_record_id v = call_record_id w" using keepsD keeps_id k o m by blast+
  show "call_record_id w' = call_record_id w
      \<and> (case r of Ret a \<Rightarrow> if stop a then closed_call E w' else open_call E w' | _ \<Rightarrow> open_call E w')"
  proof (cases q)
    case (Ret a)
    then have "f a v = (r, w')" using r m by (simp add: act_def)
    then show ?thesis using endsD [OF f v(1)] ends_id [OF f v(1)] v(2) by simp
  qed (use r m v in \<open>auto simp: act_def\<close>)
qed

lemma ends_ask [end_rules]: "(\<And>x. ends E stop (k x)) \<Longrightarrow> ends E stop (ask g k)"
  by (simp add: ends_def ask_def)

lemma ends_if [end_rules]:
  "(b \<Longrightarrow> ends E stop m) \<Longrightarrow> (\<not> b \<Longrightarrow> ends E stop n) \<Longrightarrow> ends E stop (if b then m else n)"
  by simp

lemma ends_option [end_rules]:
  "(x = None \<Longrightarrow> ends E stop m) \<Longrightarrow> (\<And>a. x = Some a \<Longrightarrow> ends E stop (f a))
   \<Longrightarrow> ends E stop (case x of None \<Rightarrow> m | Some a \<Rightarrow> f a)"
  by (cases x) auto

lemma ends_prod [end_rules]: "(\<And>a b. ends E stop (f a b)) \<Longrightarrow> ends E stop (case x of (a, b) \<Rightarrow> f a b)"
  by (cases x) auto

lemma ends_ret [end_rules]: "\<not> stop a \<Longrightarrow> ends E stop (ret a)"
  by (simp add: ends_def ret_def)

text \<open>A transition to \<open>END\<close> followed by the hang-up event closes the call, once a cause is set.\<close>

lemma close_open:
  assumes "open_call E w" "hangup_cause w' \<noteq> None" "plain_fields kvs"
    and "books w' = books (transition_to E t END r w)" "full_transcript w' = full_transcript (transition_to E t END r w)"
    and "previous_state w' = previous_state (transition_to E t END r w)"
    and "current_speaking_task w' = current_speaking_task w"
  shows "closed_call E (record_event E t' ''hangup'' kvs w')"
proof -
  have "session_inv E (transition_to E t END r w)"
    using assms(1) by (simp add: open_call_def transition_inv)
  then have "session_inv E w'"
    using assms(4-6) session_inv_journal [of w' "transition_to E t END r w"] by (simp add: books_def)
  moreover have "hangups w' = 0" "state w' = END" "\<not> in_processing_turn w'" "traces_ok w'"
    using assms(1,4) by (simp_all add: books_def open_call_def traces_ok_def)
  ultimately show ?thesis
    using assms(1-3,7) by (simp add: closed_call_def record_event_inv record_event_hangups open_call_def)
qed

lemma end_call_closes:
  assumes "open_call E w"
  shows "\<exists>w'. end_call E why cause who w = (Ret (), w') \<and> closed_call E w' \<and> hangup_cause w' = Some (lit cause)
    \<and> call_record_id w' = call_record_id w"
proof -
  let ?w = "(transition_to E (now w) END (Some (lit why)) w)\<lparr>hangup_cause := Some (lit cause)\<rparr>"
  have "closed_call E (record_event E (now w) ''hangup''
      [(lit ''reason'', PStr (lit why)), (lit ''initiated_by'', PStr (lit who))] ?w)"
    by (rule close_open [OF assms]) (simp_all add: books_def hangups_def plain_fields_def)
  then show ?thesis by (simp add: end_call_def act_def goto_def upd_def event_def)
qed

lemma ends_end_call_plain [end_rules]: "stop () \<Longrightarrow> ends E stop (end_call E why cause who)"
proof (rule endsI)
  fix w r w' assume st: "stop ()" and o: "open_call E w" and m: "end_call E why cause who w = (r, w')"
  then have "r = Ret () \<and> closed_call E w' \<and> call_record_id w' = call_record_id w"
    using end_call_closes [OF o, of why cause who] by auto
  with st show "call_record_id w' = call_record_id w
      \<and> (case r of Ret a \<Rightarrow> if stop a then closed_call E w' else open_call E w' | _ \<Rightarrow> open_call E w')"
    by simp
qed

text \<open>An action that always closes the call may be followed by a return.\<close>

lemma ends_then_ret:
  assumes "ends E (\<lambda>_. True) m" "stop a"
  shows "ends E stop (andthen m (ret a))"
proof (rule endsI)
  fix w r w' assume o: "open_call E w" and r: "andthen m (ret a) w = (r, w')"
  obtain q v where m: "m w = (q, v)" by fastforce
  note d = endsD [OF assms(1) o m] ends_id [OF assms(1) o m]
  show "call_record_id w' = call_record_id w
      \<and> (case r of Ret a \<Rightarrow> if stop a then closed_call E w' else open_call E w' | _ \<Rightarrow> open_call E w')"
    using r m d assms(2) by (cases q) (auto simp: act_def ret_def)
qed

lemma ends_end_call [end_rules]: "stop a \<Longrightarrow> ends E stop (andthen (end_call E why cause who) (ret a))"
  by (intro ends_then_ret ends_end_call_plain) simp_all

lemma plain_nil [simp]: "plain_fields []"
  by (simp add: plain_fields_def)

lemma ends_handoff: "ends E (\<lambda>_. True) (perform_handoff E icfg sc ttype detail phrase)"
  unfolding perform_handoff_def
  by (intro end_rules keep_rules) (simp_all add: plain_fields_def)

lemma ends_handoff_ret [end_rules]:
  "stop a \<Longrightarrow> ends E stop (andthen (perform_handoff E icfg sc ttype detail phrase) (ret a))"
  by (rule ends_then_ret [OF ends_handoff])

section \<open>Properties\<close>

text \<open>A hand-off that is not cancelled closes the call: it ends marked for hand-off with exactly one
  hang-up event, and the telephone line was told to hang up. A failing announcement or a
  cancellation leaves the call open with its books in order.\<close>

theorem handoff_closes_call:
  assumes "open_call E w" "perform_handoff E icfg sc ttype detail phrase w = (r, w')"
  shows "case r of
      Ret _ \<Rightarrow> closed_call E w' \<and> transfer_status w' = lit ''marked_for_handoff''
           \<and> hangup_cause w' = Some (lit ''marked_for_handoff'') \<and> HangupCall \<in> set (effects w')
    | _ \<Rightarrow> open_call E w'"
proof -
  note e = endsD [OF ends_handoff assms]
  have "r = Ret () \<Longrightarrow> transfer_status w' = lit ''marked_for_handoff''
      \<and> hangup_cause w' = Some (lit ''marked_for_handoff'') \<and> HangupCall \<in> set (effects w')"
    using assms(2)
    by (auto simp: perform_handoff_def act_def goto_def upd_def event_def attempt_hangup_def emit_def end_call_def
        split: prod.splits outcome.splits if_splits)
  with e show ?thesis by (cases r) auto
qed

text \<open>A session at the start of its world.\<close>

definition new_world :: "call_session \<Rightarrow> clock \<Rightarrow> bool \<Rightarrow> world" where
  "new_world s t pub = call_session.extend s
     \<lparr>now = t, finals = [], partials = [], hangup_event = False, asr_finished = False, monitors_on = False,
      monitor_dead = False, publishing = pub, short_reply = False, effects = []\<rparr>"

definition demo_world :: world where
  "demo_world = transition_to demo_env 0 IN_CALL None
     ((new_world (new_session 1 1 1 (lit ''123'') [] 0) 0 False)\<lparr>tasks := [''main'' \<mapsto> TaskRunning], monitors_on := True\<rparr>)"

lemma new_world_fields [simp]:
  "state (new_world s t p) = state s" "previous_state (new_world s t p) = previous_state s"
  "state_history (new_world s t p) = state_history s" "dialog_history (new_world s t p) = dialog_history s"
  "full_transcript (new_world s t p) = full_transcript s" "hangup_cause (new_world s t p) = hangup_cause s"
  "current_speaking_task (new_world s t p) = current_speaking_task s"
  "pipeline_trace_records (new_world s t p) = pipeline_trace_records s"
  "in_processing_turn (new_world s t p) = in_processing_turn s" "tasks (new_world s t p) = tasks s"
  "now (new_world s t p) = t" "effects (new_world s t p) = []"
  by (simp_all add: new_world_def call_session.defs)

lemma new_world_open:
  assumes "session_inv E s" "traces_ok s" "state s \<noteq> END" "hangups s = 0" "current_speaking_task s = None" "\<not> in_processing_turn s"
  shows "open_call E (new_world s t p)"
  using assms by (simp add: open_call_def session_inv_def warnings_def hangups_def traces_ok_def)

lemma demo_world_open: "open_call demo_env demo_world"
proof -
  have "open_call demo_env (new_world (new_session 1 1 1 (lit ''123'') [] 0) 0 False)"
    by (rule new_world_open [OF new_session_inv]) (simp_all add: new_session_def hangups_def traces_ok_def)
  then show ?thesis
    unfolding demo_world_def by (intro open_call_goto) simp_all
qed

definition calm :: "clock \<Rightarrow> cancel \<Rightarrow> play" where
  "calm t c = \<lparr>play_wait = \<lparr>arrivals = [], resumed = t, cancel_at = c\<rparr>, play_error = None\<rparr>"

theorem handoff_closes_call_witness:
  "\<exists>r w'. perform_handoff demo_env \<lparr>whitelist = [], barge_rule = default_rule [] 1 0\<rparr>
      \<lparr>ho_play = calm 5 NoCancel, ho_hangup = HangupRaised\<rparr> ''keyword'' (lit ''agent'') (lit ''please hold'') demo_world = (r, w')
    \<and> open_call demo_env demo_world
    \<and> (case r of Ret _ \<Rightarrow> closed_call demo_env w' \<and> transfer_status w' = lit ''marked_for_handoff''
          \<and> hangup_cause w' = Some (lit ''marked_for_handoff'') \<and> HangupCall \<in> set (effects w')
        | _ \<Rightarrow> open_call demo_env w')"
  using handoff_closes_call [OF demo_world_open] demo_world_open by (metis surj_pair)

text \<open>A hang-up requested by an operator while a piece of audio plays does not unwind the call: the
  cancellation is absorbed by the playback, which reports it as a barge-in, and only the
  cause is noted.\<close>

theorem hangup_during_playback_swallowed:
  assumes "cancel_at (play_wait p) = Terminate" "tasks w ''main'' = Some TaskRunning"
  shows "\<exists>w'. play_chunks E icfg p interruptible w = (Ret False, w')
    \<and> hangup_cause w' = Some (lit ''manual_hangup'') \<and> state w' = state w"
proof -
  let ?w1 = "if interruptible then w\<lparr>current_speaking_task := Some TaskRunning\<rparr> else w"
  let ?w2 = "advance (resumed (play_wait p)) (fold (arrive E icfg) (arrivals (play_wait p)) ?w1)"
  have "background E ?w1 ?w2" by (rule background_trans [OF background_arrivals background_advance])
  then have "tasks ?w2 = tasks w" "state ?w2 = state w" by (simp_all add: background_def books_def split: if_splits)
  then have "suspend E icfg (play_wait p) ?w1 = (True, ?w2\<lparr>hangup_cause := Some (lit ''manual_hangup'')\<rparr>)"
    using assms by (simp add: suspend_def deliver_cancel_def terminate_def)
  with \<open>state ?w2 = state w\<close> show ?thesis
    by (auto simp: play_chunks_def Let_def)
qed

theorem hangup_during_playback_swallowed_witness:
  "cancel_at (play_wait (calm 5 Terminate)) = Terminate \<and> tasks demo_world ''main'' = Some TaskRunning \<and>
   (\<exists>w'. play_chunks demo_env \<lparr>whitelist = [], barge_rule = default_rule [] 1 0\<rparr> (calm 5 Terminate) True demo_world
        = (Ret False, w') \<and> hangup_cause w' = Some (lit ''manual_hangup'') \<and> state w' = state demo_world)"
  using hangup_during_playback_swallowed [of "calm 5 Terminate" demo_world demo_env
      "\<lparr>whitelist = [], barge_rule = default_rule [] 1 0\<rparr>" True]
  by (simp add: calm_def demo_world_def)

end
