(* ===== verification/Playback.thy ===== *)
theory Playback
  imports Call_World
begin

text \<open>
  Playing a streaming reply (\<^verbatim>\<open>_SynthJob\<close> and \<^verbatim>\<open>_play_streaming\<close> of \<^verbatim>\<open>run_loop.py\<close>): a producer turns each
  sentence of the reply into a synthesis job on a queue of two, a consumer plays the jobs, and
  a barge-in keeps what was not spoken for a later restructure.

  The producer, the consumer and the generating task are modelled twice: as the transition
  system \<open>pipe_step\<close> of their interleavings, and as the action \<open>play_streaming\<close> the turn uses, in
  which the position of the producer at a barge-in comes from the environment (\<open>pipe_at\<close>).

  Shown: in every interleaving the sentences are played in order and none twice, the producer
  leads by at most three sentences, and what a barge-in captures is the unspoken text except
  the sentence whose job waits for a place in the queue, which is lost.
\<close>

section \<open>Jobs\<close>

text \<open>A synthesis job: the chunks drained so far, with the sentinel once the drain has ended, the
  error it ended with, and what the consumer has taken.\<close>

record synth_job =
  job_text :: pystr
  job_todo :: "bytes list"
  job_fails :: "pystr option"
  job_buffer :: "bytes option aqueue"
  job_error :: "pystr option"
  job_task :: task_status

datatype job_act = DrainChunk | DrainEnd | JobClose

definition new_job :: "pystr \<Rightarrow> bytes list \<Rightarrow> pystr option \<Rightarrow> synth_job" where
  "new_job txt chunks err = \<lparr>job_text = txt, job_todo = chunks, job_fails = err, job_buffer = new_queue 0,
     job_error = None, job_task = TaskRunning\<rparr>"

definition put_chunk :: "bytes option \<Rightarrow> synth_job \<Rightarrow> synth_job" where
  "put_chunk c j = (case put_nowait c (job_buffer j) of Some q \<Rightarrow> j\<lparr>job_buffer := q\<rparr> | None \<Rightarrow> j)"

fun job_step :: "job_act \<Rightarrow> synth_job \<Rightarrow> synth_job option" where
  "job_step DrainChunk j = (case job_todo j of
     c # cs \<Rightarrow> if job_task j = TaskRunning then Some ((put_chunk (Some c) j)\<lparr>job_todo := cs\<rparr>) else None
   | [] \<Rightarrow> None)"
| "job_step DrainEnd j =
     (if job_todo j = [] \<and> job_task j = TaskRunning
      then Some ((put_chunk None j)\<lparr>job_error := job_fails j, job_task := TaskDone\<rparr>) else None)"
| "job_step JobClose j =
     Some (if job_task j = TaskRunning then (put_chunk None j)\<lparr>job_task := TaskDone\<rparr> else j)"

text \<open>\<^verbatim>\<open>stream()\<close> on a buffer: the chunks up to the sentinel, and whether the sentinel was reached.\<close>

fun job_stream :: "bytes option list \<Rightarrow> bytes list \<times> bool" where
  "job_stream [] = ([], False)"
| "job_stream (None # q) = ([], True)"
| "job_stream (Some c # q) = (let (cs, e) = job_stream q in (c # cs, e))"

section \<open>Producer and consumer\<close>

record pipe =
  src :: eager
  extra :: "pystr list"
  pending :: "pystr option"
  job_q :: "pystr option aqueue"
  current_job :: "pystr option"
  played_jobs :: "pystr list"
  producer_done :: bool
  consumer_done :: bool

datatype pipe_act = Generate eager_act | Produce | ProduceExtra | Unblock | Sentinel | TakeJob | FinishJob

definition new_pipe :: "pystr list \<Rightarrow> pystr list \<Rightarrow> pipe" where
  "new_pipe core dflt = \<lparr>src = start_eager core, extra = dflt, pending = None, job_q = new_queue 2,
     current_job = None, played_jobs = [], producer_done = False, consumer_done = False\<rparr>"

text \<open>\<^verbatim>\<open>await job_q.put(job)\<close>: at once when there is room, else the job is pending.\<close>

definition put_job :: "pystr \<Rightarrow> pipe \<Rightarrow> pipe" where
  "put_job x p = (case put_nowait (Some x) (job_q p) of
       Some q \<Rightarrow> p\<lparr>job_q := q\<rparr>
     | None \<Rightarrow> p\<lparr>pending := Some x\<rparr>)"

fun pipe_step :: "pipe_act \<Rightarrow> pipe \<Rightarrow> pipe option" where
  "pipe_step (Generate a) p =
     (if a = ReplayNext \<or> a = ReplayEnd \<or> a = GenCancel then None
      else case eager_step a (src p) of Some e \<Rightarrow> Some (p\<lparr>src := e\<rparr>) | None \<Rightarrow> None)"
| "pipe_step Produce p =
     (if pending p \<noteq> None \<or> producer_done p then None
      else case eager_step ReplayNext (src p) of
        Some e \<Rightarrow> Some (put_job (last (replayed e)) (p\<lparr>src := e\<rparr>))
      | None \<Rightarrow> None)"
| "pipe_step ProduceExtra p = (case extra p of
     x # xs \<Rightarrow>
       if pending p = None \<and> \<not> producer_done p \<and> eager_done (src p)
          \<and> replayed_count (src p) = length (buffer (src p))
       then Some (put_job x (p\<lparr>extra := xs\<rparr>)) else None
   | [] \<Rightarrow> None)"
| "pipe_step Unblock p = (case pending p of
     Some x \<Rightarrow> if qfull (job_q p) then None else Some (put_job x (p\<lparr>pending := None\<rparr>))
   | None \<Rightarrow> None)"
| "pipe_step Sentinel p =
     (if pending p = None \<and> \<not> producer_done p \<and> extra p = [] \<and> eager_done (src p)
         \<and> replayed_count (src p) = length (buffer (src p))
      then (case put_nowait None (job_q p) of
              Some q \<Rightarrow> Some (p\<lparr>job_q := q, producer_done := True\<rparr>) | None \<Rightarrow> None)
      else None)"
| "pipe_step TakeJob p =
     (if current_job p \<noteq> None \<or> consumer_done p then None
      else case get_nowait (job_q p) of
        Some (Some x, q) \<Rightarrow> Some (p\<lparr>job_q := q, current_job := Some x\<rparr>)
      | Some (None, q) \<Rightarrow> Some (p\<lparr>job_q := q, consumer_done := True\<rparr>)
      | None \<Rightarrow> None)"
| "pipe_step FinishJob p = (case current_job p of
     Some x \<Rightarrow> Some (p\<lparr>current_job := None, played_jobs := played_jobs p @ [x]\<rparr>)
   | None \<Rightarrow> None)"

definition opt_list :: "'a option \<Rightarrow> 'a list" where
  "opt_list x = (case x of Some a \<Rightarrow> [a] | None \<Rightarrow> [])"

definition queued_jobs :: "pipe \<Rightarrow> pystr list" where
  "queued_jobs p = concat (map opt_list (items (job_q p)))"

text \<open>The clean-up after a barge-in: the text kept from the current job, the queue and the buffer.\<close>

definition capture_remainder :: "bool \<Rightarrow> pipe \<Rightarrow> pystr option" where
  "capture_remainder is_eager p =
     (let captured = opt_list (current_job p) @ queued_jobs p
            @ (if is_eager then [buffer_remainder (src p)] else []);
          remaining = strip (concat captured)
      in if remaining = [] then None else Some remaining)"

section \<open>Lemmas\<close>

definition pipe_init :: "pystr list \<Rightarrow> pystr list \<Rightarrow> pipe \<Rightarrow> bool" where
  "pipe_init core dflt p = (p = new_pipe core dflt)"

text \<open>Every sentence is in exactly one place, in order; the sentinel is behind all jobs.\<close>

definition unreplayed :: "pipe \<Rightarrow> pystr list" where
  "unreplayed p = drop (replayed_count (src p)) (buffer (src p))"

definition flow_inv :: "pystr list \<Rightarrow> pipe \<Rightarrow> bool" where
  "flow_inv all p \<longleftrightarrow>
     played_jobs p @ opt_list (current_job p) @ queued_jobs p @ opt_list (pending p) @ unreplayed p
       @ todo (src p) @ extra p = all
   \<and> replayed_count (src p) \<le> length (buffer (src p))
   \<and> replayed (src p) = take (replayed_count (src p)) (buffer (src p))
   \<and> (eager_done (src p) \<longrightarrow> todo (src p) = []) \<and> \<not> replay_ended (src p)"

definition queue_inv :: "pipe \<Rightarrow> bool" where
  "queue_inv p \<longleftrightarrow> maxsize (job_q p) = 2 \<and> length (items (job_q p)) \<le> 2
   \<and> items (job_q p) = map Some (queued_jobs p) @ (if producer_done p \<and> \<not> consumer_done p then [None] else [])
   \<and> (producer_done p \<longrightarrow> pending p = None \<and> extra p = [] \<and> todo (src p) = [] \<and> unreplayed p = [])
   \<and> (consumer_done p \<longrightarrow> producer_done p \<and> queued_jobs p = [] \<and> current_job p = None)"

definition pipe_inv :: "pystr list \<Rightarrow> pipe \<Rightarrow> bool" where
  "pipe_inv all p \<longleftrightarrow> flow_inv all p \<and> queue_inv p"

lemma opt_list_simps [simp]: "opt_list None = []" "opt_list (Some x) = [x]"
  by (simp_all add: opt_list_def)

lemma queued_jobs_upd [simp]:
  "queued_jobs (p\<lparr>src := e\<rparr>) = queued_jobs p" "queued_jobs (p\<lparr>extra := x\<rparr>) = queued_jobs p"
  "queued_jobs (p\<lparr>pending := y\<rparr>) = queued_jobs p" "queued_jobs (p\<lparr>current_job := y\<rparr>) = queued_jobs p"
  "queued_jobs (p\<lparr>producer_done := b\<rparr>) = queued_jobs p" "queued_jobs (p\<lparr>consumer_done := b\<rparr>) = queued_jobs p"
  "queued_jobs (p\<lparr>played_jobs := z\<rparr>) = queued_jobs p"
  by (simp_all add: queued_jobs_def)

lemma unreplayed_upd [simp]:
  "unreplayed (p\<lparr>extra := x\<rparr>) = unreplayed p" "unreplayed (p\<lparr>job_q := q\<rparr>) = unreplayed p"
  "unreplayed (p\<lparr>pending := y\<rparr>) = unreplayed p" "unreplayed (p\<lparr>current_job := y\<rparr>) = unreplayed p"
  "unreplayed (p\<lparr>producer_done := b\<rparr>) = unreplayed p" "unreplayed (p\<lparr>consumer_done := b\<rparr>) = unreplayed p"
  "unreplayed (p\<lparr>played_jobs := z\<rparr>) = unreplayed p"
  by (simp_all add: unreplayed_def)

text \<open>Enqueueing moves a sentence from nowhere to the end of the jobs.\<close>

lemma put_job_fields [simp]:
  "src (put_job x p) = src p" "extra (put_job x p) = extra p" "current_job (put_job x p) = current_job p"
  "played_jobs (put_job x p) = played_jobs p" "producer_done (put_job x p) = producer_done p"
  "consumer_done (put_job x p) = consumer_done p" "unreplayed (put_job x p) = unreplayed p"
  "maxsize (job_q (put_job x p)) = maxsize (job_q p)"
  by (auto simp: put_job_def put_nowait_def split: option.splits)

lemma put_job_jobs:
  assumes "pending p = None"
  shows "queued_jobs (put_job x p) @ opt_list (pending (put_job x p)) = queued_jobs p @ [x]"
  using assms by (auto simp: put_job_def put_nowait_def queued_jobs_def)

lemma put_job_queue:
  assumes "queue_inv p" "pending p = None" "\<not> producer_done p"
  shows "queue_inv (put_job x p)"
  using assms by (auto simp: put_job_def put_nowait_def queued_jobs_def queue_inv_def qfull_def)

lemma put_job_inv:
  assumes q: "queue_inv p" and "pending p = None" "\<not> producer_done p"
    and f: "flow_inv all (p\<lparr>pending := Some x\<rparr>)"
  shows "pipe_inv all (put_job x p)"
proof -
  have j: "queued_jobs (put_job x p) @ opt_list (pending (put_job x p)) @ r = queued_jobs p @ x # r" for r
    using put_job_jobs [OF assms(2), of x] by (metis append.assoc append_Cons append_Nil)
  show ?thesis
    unfolding pipe_inv_def using put_job_queue [OF q assms(2,3)] f by (simp add: flow_inv_def j)
qed

lemma pipe_init_inv: "pipe_init core dflt p \<Longrightarrow> pipe_inv (core @ dflt) p"
  by (simp add: pipe_init_def new_pipe_def pipe_inv_def flow_inv_def queue_inv_def queued_jobs_def unreplayed_def
      start_eager_def new_queue_def)

lemma replay_next:
  assumes "eager_step ReplayNext e = Some e'" "replayed_count e \<le> length (buffer e)"
  shows "drop (replayed_count e) (buffer e) = last (replayed e') # drop (replayed_count e') (buffer e')"
    "todo e' = todo e" "eager_done e' = eager_done e" "buffer e' = buffer e"
    "replayed_count e' = Suc (replayed_count e)" "replay_ended e' = replay_ended e"
    "replayed_count e < length (buffer e)" "replayed e' = replayed e @ [buffer e ! replayed_count e]"
  using assms by (auto simp: Cons_nth_drop_Suc split: if_splits)

lemma generate_step:
  assumes "eager_step a e = Some e'" "a \<noteq> ReplayNext" "a \<noteq> ReplayEnd" "a \<noteq> GenCancel"
    "replayed_count e \<le> length (buffer e)" "eager_done e \<longrightarrow> todo e = []"
  shows "drop (replayed_count e') (buffer e') @ todo e' = drop (replayed_count e) (buffer e) @ todo e
    \<and> replayed_count e' = replayed_count e \<and> replayed e' = replayed e \<and> length (buffer e) \<le> length (buffer e')
    \<and> take (replayed_count e) (buffer e') = take (replayed_count e) (buffer e)
    \<and> (eager_done e' \<longrightarrow> todo e' = []) \<and> replay_ended e' = replay_ended e
    \<and> (todo e = [] \<longrightarrow> todo e' = [] \<and> buffer e' = buffer e)"
proof -
  consider x xs where "todo e = x # xs" "e' = e\<lparr>todo := xs, buffer := buffer e @ [x]\<rparr>" "\<not> eager_done e"
    | "e' = e\<lparr>eager_done := True\<rparr>" "todo e = []"
    using assms(1-4) by (cases a; cases "todo e"; simp split: if_splits)
  then show ?thesis
    by cases (use assms(5) in simp_all)
qed

lemma pipe_generate_inv:
  assumes "pipe_inv all p" "pipe_step (Generate a) p = Some p'"
  shows "pipe_inv all p'"
proof -
  obtain e where e: "eager_step a (src p) = Some e" "p' = p\<lparr>src := e\<rparr>" "a \<noteq> ReplayNext" "a \<noteq> ReplayEnd" "a \<noteq> GenCancel"
    using assms(2) by (auto split: if_splits option.splits)
  have g: "unreplayed p' @ todo e = unreplayed p @ todo (src p) \<and> replayed_count e = replayed_count (src p)
      \<and> replayed e = replayed (src p) \<and> length (buffer (src p)) \<le> length (buffer e)
      \<and> take (replayed_count (src p)) (buffer e) = take (replayed_count (src p)) (buffer (src p))
      \<and> (eager_done e \<longrightarrow> todo e = []) \<and> replay_ended e = replay_ended (src p)
      \<and> (todo (src p) = [] \<longrightarrow> todo e = [] \<and> buffer e = buffer (src p))"
    using generate_step [OF e(1,3,4,5)] assms(1) by (auto simp: e pipe_inv_def flow_inv_def unreplayed_def)
  have un: "unreplayed p' @ todo e @ r = unreplayed p @ todo (src p) @ r" for r
    using g by (metis append.assoc)
  have "flow_inv all p'"
    using assms(1) g un by (auto simp: e(2) pipe_inv_def flow_inv_def)
  moreover have "queue_inv p'"
    using assms(1) g by (auto simp: e(2) pipe_inv_def queue_inv_def unreplayed_def)
  ultimately show ?thesis by (simp add: pipe_inv_def)
qed

lemma pipe_produce_inv:
  assumes "pipe_inv all p" "pipe_step Produce p = Some p'"
  shows "pipe_inv all p'"
proof -
  obtain e where e: "eager_step ReplayNext (src p) = Some e" "p' = put_job (last (replayed e)) (p\<lparr>src := e\<rparr>)"
      "pending p = None" "\<not> producer_done p"
    using assms(2) by (auto simp del: eager_step.simps split: if_splits option.splits)
  have f: "flow_inv all p" "queue_inv p" using assms(1) by (simp_all add: pipe_inv_def)
  then have le: "replayed_count (src p) \<le> length (buffer (src p))" by (simp add: flow_inv_def)
  note r = replay_next [OF e(1) le]
  have un: "unreplayed p = last (replayed e) # unreplayed (p\<lparr>src := e\<rparr>)"
    using r(1) by (simp add: unreplayed_def)
  have "replayed e = take (replayed_count e) (buffer e)"
    using f(1) r by (simp add: flow_inv_def take_Suc_conv_app_nth)
  then have "flow_inv all ((p\<lparr>src := e\<rparr>)\<lparr>pending := Some (last (replayed e))\<rparr>)"
    using f(1) un r e(3) by (simp add: flow_inv_def)
  moreover have "queue_inv (p\<lparr>src := e\<rparr>)"
    using f(2) e(4) by (auto simp: queue_inv_def)
  ultimately show ?thesis
    unfolding e(2) by (intro put_job_inv) (simp_all add: e)
qed

lemma pipe_other_inv:
  assumes p: "pipe_inv all p"
  shows "pipe_step ProduceExtra p = Some p' \<Longrightarrow> pipe_inv all p'"
    and "pipe_step Unblock p = Some p' \<Longrightarrow> pipe_inv all p'"
    and "pipe_step FinishJob p = Some p' \<Longrightarrow> pipe_inv all p'"
proof -
  have f: "flow_inv all p" "queue_inv p" using p by (simp_all add: pipe_inv_def)
  {
    assume "pipe_step ProduceExtra p = Some p'"
    then obtain x xs where x: "extra p = x # xs" "p' = put_job x (p\<lparr>extra := xs\<rparr>)" "pending p = None"
        "\<not> producer_done p" "eager_done (src p)" "replayed_count (src p) = length (buffer (src p))"
      by (auto split: list.splits if_splits)
    have "unreplayed p = []" using x by (simp add: unreplayed_def)
    then have "flow_inv all ((p\<lparr>extra := xs\<rparr>)\<lparr>pending := Some x\<rparr>)"
      using f(1) x by (auto simp: flow_inv_def)
    moreover have "queue_inv (p\<lparr>extra := xs\<rparr>)" using f(2) x by (auto simp: queue_inv_def)
    ultimately show "pipe_inv all p'" unfolding x(2) by (intro put_job_inv) (simp_all add: x)
  next
    assume "pipe_step Unblock p = Some p'"
    then obtain x where x: "pending p = Some x" "p' = put_job x (p\<lparr>pending := None\<rparr>)"
      by (auto split: option.splits if_splits)
    have d: "\<not> producer_done p" using f(2) x by (auto simp: queue_inv_def)
    have "flow_inv all ((p\<lparr>pending := None\<rparr>)\<lparr>pending := Some x\<rparr>)"
      using f(1) x(1) by (simp add: flow_inv_def)
    moreover have "queue_inv (p\<lparr>pending := None\<rparr>)" using f(2) d by (auto simp: queue_inv_def)
    ultimately show "pipe_inv all p'" unfolding x(2) by (intro put_job_inv) (simp_all add: d)
  next
    assume "pipe_step FinishJob p = Some p'"
    then obtain x where x: "current_job p = Some x"
        "p' = p\<lparr>current_job := None, played_jobs := played_jobs p @ [x]\<rparr>"
      by (auto split: option.splits)
    show "pipe_inv all p'"
      using f x by (auto simp: pipe_inv_def flow_inv_def queue_inv_def queued_jobs_def unreplayed_def)
  }
qed

lemma pipe_sentinel_inv:
  assumes "pipe_inv all p" "pipe_step Sentinel p = Some p'"
  shows "pipe_inv all p'"
proof -
  obtain q where q: "put_nowait None (job_q p) = Some q" "p' = p\<lparr>job_q := q, producer_done := True\<rparr>"
      "pending p = None" "\<not> producer_done p" "extra p = []" "eager_done (src p)" "unreplayed p = []"
    using assms(2) by (auto simp: unreplayed_def split: if_splits option.splits)
  have "maxsize (job_q p) = 2" using assms(1) by (simp add: pipe_inv_def queue_inv_def)
  then have "items q = items (job_q p) @ [None]" "maxsize q = 2" "length (items (job_q p)) < 2"
    using put_nowait_items [OF q(1)] q(1) by (auto simp: put_nowait_def qfull_def split: if_splits)
  then show ?thesis
    using assms(1) q by (auto simp: pipe_inv_def flow_inv_def queue_inv_def queued_jobs_def)
qed

lemma pipe_take_inv:
  assumes "pipe_inv all p" "pipe_step TakeJob p = Some p'"
  shows "pipe_inv all p'"
proof -
  have f: "flow_inv all p" "queue_inv p" using assms(1) by (simp_all add: pipe_inv_def)
  obtain j q where q: "get_nowait (job_q p) = Some (j, q)" "current_job p = None" "\<not> consumer_done p"
      "p' = (case j of Some x \<Rightarrow> p\<lparr>job_q := q, current_job := Some x\<rparr> | None \<Rightarrow> p\<lparr>job_q := q, consumer_done := True\<rparr>)"
    using assms(2) by (auto split: if_splits option.splits)
  have i: "items (job_q p) = j # items q" "maxsize q = maxsize (job_q p)"
    using get_nowait_items [OF q(1)] by simp_all
  show ?thesis
  proof (cases j)
    case None
    then have n: "queued_jobs p = []" "producer_done p" "items q = []"
      using f(2) i(1) q(3) by (cases "queued_jobs p"; auto simp: queue_inv_def split: if_splits)+
    then show ?thesis
      using f q None i by (auto simp: pipe_inv_def flow_inv_def queue_inv_def queued_jobs_def)
  next
    case (Some x)
    then have n: "queued_jobs p = x # concat (map opt_list (items q))"
      using i by (simp add: queued_jobs_def)
    then have "items q = map Some (concat (map opt_list (items q))) @ (if producer_done p then [None] else [])"
      using f(2) i(1) q(3) Some by (auto simp: queue_inv_def)
    then show ?thesis
      using f q Some i n by (auto simp: pipe_inv_def flow_inv_def queue_inv_def queued_jobs_def)
  qed
qed

interpretation tts_pipe: invariant_of "pipe_init core dflt" pipe_step "pipe_inv (core @ dflt)"
proof unfold_locales
  fix p a p' assume "pipe_inv (core @ dflt) p" "pipe_step a p = Some p'"
  then show "pipe_inv (core @ dflt) p'"
    by (cases a)
      (auto simp del: pipe_step.simps intro: pipe_generate_inv pipe_produce_inv pipe_other_inv pipe_sentinel_inv pipe_take_inv)
qed (rule pipe_init_inv)

section \<open>Properties of the pipeline\<close>


definition demo_schedule :: "pipe_act list" where
  "demo_schedule = [Generate GenNext, Generate GenNext, Generate GenNext, Generate GenNext, Produce, TakeJob,
     Produce, Produce, Produce]"

definition demo_core :: "pystr list" where
  "demo_core = map lit [''One. '', ''Two. '', ''Three. '', ''Four. '']"

definition demo_pipe :: pipe where
  "demo_pipe = \<lparr>src = \<lparr>todo = [], buffer = demo_core, eager_done = False, replayed_count = 4, replayed = demo_core,
             replay_ended = False\<rparr>, extra = [], pending = Some (lit ''Four. ''),
       job_q = \<lparr>maxsize = 2, items = [Some (lit ''Two. ''), Some (lit ''Three. '')], unfinished = 3\<rparr>,
       current_job = Some (lit ''One. ''), played_jobs = [], producer_done = False, consumer_done = False\<rparr>"

lemma demo_schedule_runs: "run_acts pipe_step demo_schedule (new_pipe demo_core []) = Some demo_pipe"
  by (simp add: demo_schedule_def demo_pipe_def demo_core_def new_pipe_def start_eager_def new_queue_def put_job_def
      put_nowait_def get_nowait_def qfull_def)

lemma demo_reach: "reach (pipe_init demo_core []) pipe_step demo_pipe"
  by (rule reach_run_acts [OF reach_init demo_schedule_runs]) (simp add: pipe_init_def)

lemma demo_text: "strip (lit ''One. '' @ lit ''Two. '' @ lit ''Three. '') = lit ''One. Two. Three.''"
  by code_simp

lemma demo_capture: "capture_remainder True demo_pipe = Some (lit ''One. Two. Three.'')"
  by (simp add: capture_remainder_def demo_pipe_def demo_core_def queued_jobs_def buffer_remainder_def Let_def
      demo_text)

lemma demo_pipe_fields: "current_job demo_pipe = Some (lit ''One. '')" "buffer (src demo_pipe) = demo_core"
    "played_jobs demo_pipe = []"
  by (simp_all add: demo_pipe_def)


text \<open>C27. A barge-in during the playback of an eager reply keeps exactly the generated and unspoken
  sentences, in order, except the one whose job is still waiting for a place in the queue.\<close>

theorem barge_in_remainder:
  assumes "reach (pipe_init core dflt) pipe_step p"
  shows "\<exists>ahead behind. core @ dflt = played_jobs p @ ahead @ opt_list (pending p) @ behind @ todo (src p) @ extra p
    \<and> capture_remainder True p =
        (let t = strip (concat (ahead @ behind)) in if t = [] then None else Some t)"
proof -
  have "pipe_inv (core @ dflt) p" by (rule tts_pipe.reach_inv [OF assms])
  then show ?thesis
    by (intro exI [of _ "opt_list (current_job p) @ queued_jobs p"] exI [of _ "unreplayed p"])
      (simp add: pipe_inv_def flow_inv_def capture_remainder_def buffer_remainder_def unreplayed_def Let_def)
qed

theorem barge_in_remainder_witness:
  "reach (pipe_init demo_core []) pipe_step demo_pipe \<and>
   (\<exists>ahead behind. demo_core @ [] = played_jobs demo_pipe @ ahead @ opt_list (pending demo_pipe) @ behind
       @ todo (src demo_pipe) @ extra demo_pipe)"
  using barge_in_remainder [OF demo_reach] demo_reach by blast

text \<open>The exception of the previous property is reachable: a reply of four sentences interrupted
  in the first one is captured without its last sentence, although all four were generated.\<close>

theorem barge_in_loses_pending_sentence:
  "\<exists>p. reach (pipe_init demo_core []) pipe_step p \<and> buffer (src p) = demo_core \<and> played_jobs p = []
     \<and> capture_remainder True p = Some (lit ''One. Two. Three.'')"
  using demo_reach demo_capture demo_pipe_fields by blast

section \<open>The action of a turn\<close>

text \<open>What the environment does during one streaming reply: the LLM script, how each sentence is waited
  for and played, the instant of the first chunk, the fate of a filler, and, should the reply be
  cut, how far the producer and the generating task had come.\<close>

record stream_env =
  se_llm :: llm_script
  se_draw :: nat
  se_job_wait :: "nat \<Rightarrow> wait"
  se_play :: "nat \<Rightarrow> play"
  se_last_wait :: wait
  se_first_chunk :: "clock option"
  se_filler_draw :: nat
  se_filler_end :: filler_outcome
  se_queued :: nat
  se_pending :: bool
  se_generated :: nat
  se_token_seen :: bool
  se_complete :: bool

text \<open>The result of a generation that was cancelled after \<open>g\<close> sentences.\<close>

definition cut_result :: "pyenv \<Rightarrow> llm_script \<Rightarrow> nat \<Rightarrow> bool \<Rightarrow> stream_result" where
  "cut_result E sc g token_seen =
     (let (ss, res) = generate_core E sc in
      res\<lparr>reply_text := concat (take g ss), fallback_used := (0 < g \<and> fallback_used res),
          stream_error_text := None,
          first_token_ms := (if token_seen \<or> 0 < g then first_token_ms res else None),
          first_sentence_ms := (if 0 < g then first_sentence_ms res else None)\<rparr>)"

text \<open>The pipeline when the sentence \<open>k\<close> of \<open>core\<close> is cut: \<open>q\<close> jobs queued, one more pending if the queue
  is full, and \<open>g\<close> sentences generated (all that were replayed, and more only if eager).\<close>

definition pipe_at :: "pystr list \<Rightarrow> nat \<Rightarrow> nat \<Rightarrow> bool \<Rightarrow> nat \<Rightarrow> bool \<Rightarrow> pipe" where
  "pipe_at core k q pend g is_eager =
     (let qn = min (min 2 q) (length core - Suc k);
          blocked = (pend \<and> qn = 2 \<and> k + 3 < length core);
          replayed = Suc k + qn + (if blocked then 1 else 0);
          generated = (if is_eager then max replayed (min g (length core)) else replayed)
      in \<lparr>src = \<lparr>todo = drop generated core, buffer = take generated core, eager_done = False,
             replayed_count = replayed, replayed = take replayed core, replay_ended = False\<rparr>,
          extra = [], pending = (if blocked then Some (core ! (k + 3)) else None),
          job_q = \<lparr>maxsize = 2, items = map Some (take qn (drop (Suc k) core)), unfinished = replayed\<rparr>,
          current_job = Some (core ! k), played_jobs = take k core, producer_done = False,
          consumer_done = False\<rparr>)"

datatype play_end = PlayedAll | BargedIn nat | PlayFailed nat pystr

text \<open>The time-gated filler: started when no job was ready within the delay from the start of
  processing, ended on its own or by the first job.\<close>

definition filler_phase :: "pyenv \<Rightarrow> pystr list option \<Rightarrow> int \<Rightarrow> clock \<Rightarrow> stream_env \<Rightarrow> unit action" where
  "filler_phase E fill delay_ms t0 env = (case fill of
       None \<Rightarrow> ret ()
     | Some phrases \<Rightarrow> upd (\<lambda>w.
         if now w - t0 < delay_ms * 1000000 then w
         else snd (filler_play_end E (now w) (se_filler_end env)
                (filler_start (se_filler_draw env) phrases (new_filler, w)))))"

fun play_jobs :: "pyenv \<Rightarrow> interruption_config \<Rightarrow> stream_env \<Rightarrow> unit action \<Rightarrow> nat \<Rightarrow> pystr list \<Rightarrow> play_end action" where
  "play_jobs E icfg env stop_filler k [] = andthen (await E icfg (se_last_wait env)) (ret PlayedAll)"
| "play_jobs E icfg env stop_filler k (s # ss) =
     andthen (await E icfg (se_job_wait env k))
    (andthen stop_filler
    (act (catching (act (play_chunks E icfg (se_play env k) True) (\<lambda>full. ret (Inr full)))
            (\<lambda>e. ret (Inl e)))
      (\<lambda>r. case r of
          Inl e \<Rightarrow> ret (PlayFailed k (case e of OtherErr m \<Rightarrow> m | _ \<Rightarrow> []))
        | Inr full \<Rightarrow> andthen (emit (PlayedOut s full))
            (if full then play_jobs E icfg env (ret ()) (Suc k) ss else ret (BargedIn k)))))"

text \<open>The default reply of a generation without a readable sentence is recorded when the generator
  runs dry, that is, while the first job is awaited.\<close>

definition reply_sentences :: "pyenv \<Rightarrow> pipeline_config \<Rightarrow> stream_env \<Rightarrow> (pystr list \<times> stream_result) action" where
  "reply_sentences E c env w =
     (case sentences E (now w) (se_draw env) c (se_llm env) w of (r, w') \<Rightarrow> (Ret r, w'))"

definition play_streaming :: "pyenv \<Rightarrow> interruption_config \<Rightarrow> stream_env \<Rightarrow> reply_stream \<Rightarrow> bool
    \<Rightarrow> pystr list option \<Rightarrow> int \<Rightarrow> clock \<Rightarrow> (stream_result \<times> int option \<times> bool) action" where
  "play_streaming E icfg env st is_eager fill delay_ms t0 =
     act (reply_sentences E (stream_config st) env) (\<lambda>(ss, res).
     act (play_jobs E icfg env (filler_phase E fill delay_ms t0 env) 0 ss) (\<lambda>fin.
       let core = fst (generate_core E (se_llm env));
           first_audio = map_option (elapsed_ms t0) (se_first_chunk env);
           pipe = (\<lambda>k. if used_default_reply res then pipe_at ss k 0 False 0 False
                       else pipe_at core k (se_queued env) (se_pending env) (se_generated env) is_eager);
           res_at = (\<lambda>k. if used_default_reply res \<or> se_complete env then res
                         else cut_result E (se_llm env) (length (buffer (src (pipe k)))) (se_token_seen env))
       in case fin of
            PlayedAll \<Rightarrow> ret (res, first_audio, True)
          | PlayFailed k e \<Rightarrow>
              ret (let r = res_at k in if stream_error_text r = None
                     then r\<lparr>stream_error_text := Some (lit ''tts_playback: '' @ e)\<rparr> else r, first_audio, True)
          | BargedIn k \<Rightarrow>
              andthen (upd (\<lambda>w. if is_restructure st then w
                            else w\<lparr>interrupt_remaining_text := capture_remainder is_eager (pipe k)\<rparr>))
                (ret (res_at k, first_audio, False))))"

section \<open>The action and the transition system\<close>

lemma concat_opt_list_Some [simp]: "concat (map (opt_list \<circ> Some) xs) = xs"
  by (induction xs) simp_all

lemma pipe_at_inv:
  assumes "k < length core"
  shows "pipe_inv core (pipe_at core k q pend g is_eager)"
proof -
  define qn where "qn = min (min 2 q) (length core - Suc k)"
  define bl where "bl = (pend \<and> qn = 2 \<and> k + 3 < length core)"
  define r where "r = Suc k + qn + (if bl then 1 else 0)"
  define n where "n = (if is_eager then max r (min g (length core)) else r)"
  have r: "r \<le> length core" using assms by (auto simp: r_def qn_def bl_def)
  have n: "r \<le> n" "n \<le> length core" using r by (auto simp: n_def)
  have "(if bl then [core ! (k + 3)] else []) = take (if bl then 1 else 0) (drop qn (drop (Suc k) core))"
    by (auto simp: bl_def take_Suc hd_drop_conv_nth eval_nat_numeral)
  then have "take qn (drop (Suc k) core) @ (if bl then [core ! (k + 3)] else []) = take (r - Suc k) (drop (Suc k) core)"
    by (simp add: r_def take_add)
  then have front: "take k core @ core ! k # take qn (drop (Suc k) core) @ (if bl then [core ! (k + 3)] else [])
      = take r core"
    using assms r_def take_add [of "Suc k" "r - Suc k" core]
    by (cases bl) (simp_all add: take_Suc_conv_app_nth)
  have tl: "drop r (take n core) @ drop n core = drop r core"
    using n drop_append [of r "take n core" "drop n core"] by simp
  have p: "pipe_at core k q pend g is_eager = \<lparr>src = \<lparr>todo = drop n core, buffer = take n core, eager_done = False,
             replayed_count = r, replayed = take r core, replay_ended = False\<rparr>,
          extra = [], pending = (if bl then Some (core ! (k + 3)) else None),
          job_q = \<lparr>maxsize = 2, items = map Some (take qn (drop (Suc k) core)), unfinished = r\<rparr>,
          current_job = Some (core ! k), played_jobs = take k core, producer_done = False,
          consumer_done = False\<rparr>"
    by (simp add: pipe_at_def Let_def qn_def bl_def r_def n_def)
  have "take k core @ core ! k # take qn (drop (Suc k) core) @ opt_list (if bl then Some (core ! (k + 3)) else None)
      @ drop r (take n core) @ drop n core = core"
    using front tl by (cases bl) (simp_all, (metis append.assoc append_Cons append_Nil append_take_drop_id)+)
  moreover have "qn \<le> 2" by (simp add: qn_def)
  ultimately show ?thesis
    using n by (simp add: p pipe_inv_def flow_inv_def queue_inv_def queued_jobs_def unreplayed_def)
qed

text \<open>Every state of the pipeline in which a sentence plays and the producer, if it is blocked, faces a
  full queue, is of the form \<open>pipe_at\<close>, as far as the capture is concerned.\<close>

lemma capture_pipe_at:
  assumes "min (min 2 q) (length core - Suc k) = qn" "(pend \<and> qn = 2 \<and> k + 3 < length core) = bl"
    and "Suc k + qn + (if bl then 1 else 0) = r" "r \<le> g" "g \<le> length core"
  shows "capture_remainder True (pipe_at core k q pend g True) =
    (let t = strip (concat (core ! k # take qn (drop (Suc k) core) @ [concat (drop r (take g core))]))
     in if t = [] then None else Some t)"
proof -
  have "max r (min g (length core)) = g" using assms(4,5) by simp
  then show ?thesis
    unfolding pipe_at_def assms(1-3) Let_def if_True
    by (simp add: capture_remainder_def queued_jobs_def buffer_remainder_def)
qed

lemma pipe_at_covers:
  assumes "reach (pipe_init core []) pipe_step p" "current_job p = Some x"
    and "pending p \<noteq> None \<longrightarrow> length (queued_jobs p) = 2"
  shows "\<exists>k q pend g. k < length core
     \<and> capture_remainder True p = capture_remainder True (pipe_at core k q pend g True)"
proof -
  let ?k = "length (played_jobs p)" and ?q = "length (queued_jobs p)"
  let ?r = "Suc (?k + ?q + length (opt_list (pending p)))"
  let ?g = "?r + length (unreplayed p)"
  have i: "pipe_inv (core @ []) p" by (rule tts_pipe.reach_inv [OF assms(1)])
  have core: "core = played_jobs p @ x # queued_jobs p @ opt_list (pending p) @ unreplayed p @ todo (src p) @ extra p"
    using i assms(2) by (simp add: pipe_inv_def flow_inv_def)
  have q: "?q \<le> 2" using i by (auto simp: pipe_inv_def queue_inv_def)
  have k: "?k < length core" and xk: "core ! ?k = x" by (subst core, simp)+
  have qs: "take ?q (drop (Suc ?k) core) = queued_jobs p" by (subst core) simp
  have un: "drop ?r (take ?g core) = unreplayed p" by (subst core) simp
  have qn: "min (min 2 ?q) (length core - Suc ?k) = ?q"
    using q arg_cong [OF core, of length] by simp
  have gl: "?g \<le> length core" using arg_cong [OF core, of length] by simp
  have bl: "(pending p \<noteq> None \<and> ?q = 2 \<and> ?k + 3 < length core) = (pending p \<noteq> None)"
    using assms(3) arg_cong [OF core, of length] by (cases "pending p") auto
  have r: "Suc ?k + ?q + (if pending p \<noteq> None then 1 else 0) = ?r" by (cases "pending p") auto
  have "capture_remainder True (pipe_at core ?k ?q (pending p \<noteq> None) ?g True)
      = (let t = strip (concat (x # queued_jobs p @ [concat (unreplayed p)])) in if t = [] then None else Some t)"
    unfolding capture_pipe_at [OF qn bl r le_add1 gl] xk qs un ..
  also have "\<dots> = capture_remainder True p"
    using assms(2) by (simp add: capture_remainder_def buffer_remainder_def unreplayed_def Let_def)
  finally show ?thesis using k by metis
qed

section \<open>Lemmas for the turn\<close>

lemma open_call_filler:
  assumes "open_call E w"
  shows "open_call E (snd (filler_play_end E t out (filler_start d ps (new_filler, w))))"
  using assms
  by (auto simp: filler_play_end_def filler_start_def new_filler_def plain_fields_def
      intro!: open_call_event split: option.splits prod.splits task_status.splits)

lemma filler_id: "call_record_id (snd (filler_play_end E t end (filler_start draw phrases (new_filler, w)))) = call_record_id w"
  by (auto simp: filler_play_end_def filler_start_def new_filler_def split: option.splits prod.splits task_status.splits)

lemma keeps_filler_phase [keep_rules]: "keeps E (filler_phase E fill d t0 env)"
  unfolding filler_phase_def by (intro keep_rules) (simp_all add: open_call_filler filler_id)

lemma keeps_catching [keep_rules]: "keeps E m \<Longrightarrow> (\<And>e. keeps E (h e)) \<Longrightarrow> keeps E (catching m h)"
  unfolding keeps_def catching_def by (auto split: outcome.splits prod.splits)

lemma keeps_sum [keep_rules]:
  "(\<And>e. keeps E (f e)) \<Longrightarrow> (\<And>a. keeps E (g a)) \<Longrightarrow> keeps E (case r of Inl e \<Rightarrow> f e | Inr a \<Rightarrow> g a)"
  by (cases r) auto

lemma keeps_play_jobs [keep_rules]: "keeps E stop \<Longrightarrow> keeps E (play_jobs E icfg env stop k ss)"
proof (induction ss arbitrary: stop k)
  case (Cons s ss)
  have "keeps E (play_jobs E icfg env (ret ()) (Suc k) ss)" by (rule Cons.IH) (rule keeps_ret)
  with Cons.prems show ?case by (auto intro!: keep_rules)
qed (auto intro!: keep_rules)

lemma keeps_reply_sentences [keep_rules]: "keeps E (reply_sentences E c env)"
  by (rule keepsI)
    (auto simp: reply_sentences_def sentences_def ensure_reply_def Let_def plain_fields_def
      intro!: open_call_event split: prod.splits)

lemma keeps_play_end [keep_rules]:
  "keeps E a \<Longrightarrow> (\<And>k. keeps E (b k)) \<Longrightarrow> (\<And>k e. keeps E (c k e)) \<Longrightarrow>
   keeps E (case x of PlayedAll \<Rightarrow> a | BargedIn k \<Rightarrow> b k | PlayFailed k e \<Rightarrow> c k e)"
  by (cases x) auto

lemma keeps_play_streaming [keep_rules]: "keeps E (play_streaming E icfg env st eag fill d t0)"
  unfolding play_streaming_def Let_def by (intro keep_rules) auto

end
