(* ===== verification/Gated_Turn.thy ===== *)
theory Gated_Turn
  imports Playback
begin

text \<open>
  One turn of the conversation (\<^verbatim>\<open>_run_gated_turn\<close>, \<^verbatim>\<open>_gated_wrap_up_turn\<close>, \<^verbatim>\<open>_run_restructure\<close>,
  \<^verbatim>\<open>_assemble_interrupt_text\<close>, \<^verbatim>\<open>_resolve_transfer_llm\<close> and the trace builders of \<^verbatim>\<open>run_loop.py\<close>): start
  the eager candidates, wait at the gate for the referees, pick one route, then speak it, run
  a tool or re-voice what was cut off.

  \<open>turn_env\<close> holds what the environment does at each suspension of the turn. Cancelling the
  losing candidates has no effect on the session; it is visible only in the result of the main
  stream, which the trace of a suppressed reply reads (\<open>te_main_cut\<close>).

  Shown: whatever happens, a turn that returns \<open>RETURN\<close> has closed the call and every other
  outcome leaves it open with its books in order; an interruption signalled before or during
  the gate drops the turn without a sound; a restructure consumes the remainder it re-voices.
\<close>

section \<open>Traces\<close>

definition opt_val :: "('a \<Rightarrow> pyval) \<Rightarrow> 'a option \<Rightarrow> pyval" where
  "opt_val f x = (case x of None \<Rightarrow> PNone | Some a \<Rightarrow> f a)"

text \<open>A wall-clock reading is written as its number of nanoseconds.\<close>

definition base_trace :: "reply_stream \<Rightarrow> stream_result \<Rightarrow> clock \<Rightarrow> clock \<Rightarrow> pystr \<Rightarrow> int option \<Rightarrow> event" where
  "base_trace st res ts_start ts_end user_text first_audio =
    [(lit ''turn_id'', PInt (turn_id st)), (lit ''ts_start'', PInt ts_start), (lit ''ts_end'', PInt ts_end),
     (lit ''user_input'', PStr user_text), (lit ''main_reply_text'', PStr (reply_text res)),
     (lit ''main_duration_ms'', PInt (res_duration_ms res)),
     (lit ''main_first_token_ms'', opt_val PInt (first_token_ms res)),
     (lit ''main_first_sentence_ms'', opt_val PInt (first_sentence_ms res)),
     (lit ''main_tokens_in'', PInt (tokens_in res)), (lit ''main_tokens_out'', PInt (tokens_out res)),
     (lit ''main_fallback_used'', PBool (fallback_used res)), (lit ''referee_results'', PList []),
     (lit ''matched_rule'', PNone), (lit ''restructure_active'', PBool False),
     (lit ''restructure_trigger'', PNone), (lit ''restructure_source_text'', PNone),
     (lit ''first_audio_ms'', opt_val PInt first_audio), (lit ''error'', opt_val PStr (stream_error_text res))]"

definition gated_trace :: "event \<Rightarrow> referee_result list \<Rightarrow> decider_action \<Rightarrow> gated_selection \<Rightarrow> pystr list
    \<Rightarrow> pystr option \<Rightarrow> event" where
  "gated_trace base results action sel persona_candidates restructure_txt =
     dmerge base
      [(lit ''referee_results'', PList (map as_trace results)),
       (lit ''matched_rule'', opt_val PDict (matched_rule action)),
       (lit ''restructure_active'', PBool (restructure_txt \<noteq> None)),
       (lit ''restructure_trigger'', if restructure_txt \<noteq> None then opt_val (\<lambda>s. PStr (lit s)) (sel_trigger sel) else PNone),
       (lit ''restructure_source_text'', opt_val PStr restructure_txt),
       (lit ''selected_route_id'', PStr (route_id sel)), (lit ''selected_route_kind'', PStr (lit (sel_kind sel))),
       (lit ''persona_candidates'', if 1 < length persona_candidates then PList (map PStr persona_candidates) else PNone)]"

definition add_trace :: "event \<Rightarrow> unit action" where
  "add_trace tr = upd (\<lambda>w. w\<lparr>pipeline_trace_records := pipeline_trace_records w @ [tr]\<rparr>)"

text \<open>\<^verbatim>\<open>records[-1][key] = value\<close>.\<close>

definition set_last_trace :: "pystr \<Rightarrow> pyval \<Rightarrow> unit action" where
  "set_last_trace k v = upd (\<lambda>w. w\<lparr>pipeline_trace_records :=
     (if pipeline_trace_records w = [] then []
      else butlast (pipeline_trace_records w) @ [dset k v (last (pipeline_trace_records w))])\<rparr>)"

definition ai_reply :: "pyenv \<Rightarrow> pystr \<Rightarrow> int \<Rightarrow> int \<Rightarrow> bool \<Rightarrow> pyval \<Rightarrow> bool \<Rightarrow> unit action" where
  "ai_reply E txt tid rid goal gtype wrap = event E ''ai_reply''
    [(lit ''text'', PStr txt), (lit ''turn_id'', PInt tid),
     (lit ''selected_role_config_id'', if rid = 0 then PNone else PInt rid),
     (lit ''goal_achieved'', PBool goal), (lit ''goal_type'', gtype), (lit ''extracted'', PDict []),
     (lit ''is_wrap_up'', PBool wrap)]"

section \<open>What the environment does in a turn\<close>

datatype transfer_wait = TransferTimeout | TransferDone chat_result chat_result

record turn_env =
  te_main :: stream_env
  te_persona :: "nat \<Rightarrow> stream_env"
  te_fresh :: stream_env
  te_restructure :: stream_env
  te_main_cut :: "(nat \<times> bool) option"
  te_gate :: wait
  te_referees :: "nat \<Rightarrow> referee_wait"
  te_transfer_wait :: wait
  te_transfer :: transfer_wait
  te_transfer_draw :: nat
  te_handoff :: handoff_script
  te_play :: play
  te_draw :: nat
  te_wrap_referee_wait :: wait
  te_wrap_referee :: referee_wait

section \<open>Pieces of a turn\<close>

datatype directive = CONTINUE | RETURN

definition run_pipeline :: "pipeline_config \<Rightarrow> bool \<Rightarrow> reply_stream action" where
  "run_pipeline c is_wrap_up w = (case run_pipeline_stream c is_wrap_up w of (st, w') \<Rightarrow> (Ret st, w'))"

text \<open>The main candidate's result when it is cancelled unplayed.\<close>

definition cancelled_result :: "pyenv \<Rightarrow> turn_env \<Rightarrow> stream_result" where
  "cancelled_result E env = (case te_main_cut env of
       None \<Rightarrow> snd (generate_core E (se_llm (te_main env)))
     | Some (g, tok) \<Rightarrow> cut_result E (se_llm (te_main env)) g tok)"

definition resolve_transfer_llm :: "pyenv \<Rightarrow> runtime_config \<Rightarrow> turn_env \<Rightarrow> bool \<Rightarrow> transfer_decision option action" where
  "resolve_transfer_llm E cfg env spawned =
     (if \<not> spawned then ret None
      else andthen (await E (interruption cfg) (te_transfer_wait env))
        (ret (case te_transfer env of
            TransferTimeout \<Rightarrow> None
          | TransferDone ri rl \<Rightarrow>
              (case evaluate_transfer_llm E (te_transfer_draw env) ri rl (transfer cfg) of
                 Inl _ \<Rightarrow> None | Inr d \<Rightarrow> Some d))))"

definition assemble_interrupt_text :: "string option \<Rightarrow> 'a call_session_scheme \<Rightarrow> pystr option \<times> 'a call_session_scheme" where
  "assemble_interrupt_text from_src s =
     (let last_reply = map_option turn_text
            (find (\<lambda>t. role t = lit ''assistant'' \<and> strip (turn_text t) \<noteq> []) (rev (dialog_history s)))
      in if from_src = Some ''interrupt_remaining''
         then (case interrupt_remaining_text s of
                 Some r \<Rightarrow> (if r \<noteq> [] \<and> strip r \<noteq> [] then Some r else last_reply,
                            s\<lparr>interrupt_remaining_text := None\<rparr>)
               | None \<Rightarrow> (last_reply, s\<lparr>interrupt_remaining_text := None\<rparr>))
         else (last_reply, s))"

definition take_interrupt_text :: "string option \<Rightarrow> pystr option action" where
  "take_interrupt_text from_src w = (case assemble_interrupt_text from_src w of (t, w') \<Rightarrow> (Ret t, w'))"

definition run_restructure :: "pyenv \<Rightarrow> runtime_config \<Rightarrow> pipeline_config \<Rightarrow> stream_env \<Rightarrow> pystr \<Rightarrow> string option
    \<Rightarrow> bool action" where
  "run_restructure E cfg c env txt trigger =
     ask now (\<lambda>rs_start.
     act (\<lambda>w. case run_restructure_stream c txt w of (st, w') \<Rightarrow> (Ret st, w')) (\<lambda>st.
     act (play_streaming E (interruption cfg) env st False None (filler_delay_ms cfg) rs_start) (\<lambda>(res, first_audio, played).
     andthen (ai_reply E (reply_text res) (turn_id st)
                (case restructure c of Some r \<Rightarrow> role_config_id r | None \<Rightarrow> 0) False (PStr []) False)
    (andthen (ask now (\<lambda>t. add_trace (dmerge (base_trace st res rs_start t txt first_audio)
                [(lit ''restructure_active'', PBool True),
                 (lit ''restructure_trigger'', opt_val (\<lambda>s. PStr (lit s)) trigger),
                 (lit ''restructure_source_text'', PStr txt)])))
      (ret played)))))"

definition note_interruption :: "unit action" where
  "note_interruption = upd (\<lambda>w. w\<lparr>consecutive_interruption_count := consecutive_interruption_count w + 1,
     interruption_signaled := False\<rparr>)"

definition add_tokens :: "stream_result \<Rightarrow> unit action" where
  "add_tokens res = upd (\<lambda>w. w\<lparr>total_tokens_in := total_tokens_in w + tokens_in res,
     total_tokens_out := total_tokens_out w + tokens_out res\<rparr>)"

section \<open>A wrap-up turn\<close>

definition WRAP_UP_HANGUP_CATEGORIES :: "pystr set" where
  "WRAP_UP_HANGUP_CATEGORIES = {[26080, 38382, 39064]}"

text \<open>Awaiting the done-detection referee: \<open>None\<close> when it is off, late or failed.\<close>

definition await_wrap_referee :: "pyenv \<Rightarrow> runtime_config \<Rightarrow> turn_env \<Rightarrow> referee_result option action" where
  "await_wrap_referee E cfg env =
     (if \<not> wrap_referee_enabled (wrap_up cfg) then ret None
      else andthen (await E (interruption cfg) (te_wrap_referee_wait env))
        (ret (case te_wrap_referee env of RefDone r \<Rightarrow> Some r | _ \<Rightarrow> None)))"

definition wrap_up_round :: "pyenv \<Rightarrow> runtime_config \<Rightarrow> turn_env \<Rightarrow> directive action" where
  "wrap_up_round E cfg env =
     andthen (upd (\<lambda>w. w\<lparr>wrap_up_round_count := wrap_up_round_count w + 1\<rparr>))
     (ask (\<lambda>w. evaluate_wrap_up (te_draw env) (wrap_up_round_count w) (wrap_up_started_at_monotonic w) (wrap_up cfg) (now w))
       (\<lambda>d. if proceed d then ret CONTINUE
            else andthen (play_tts E (interruption cfg) (te_play env) (closing_phrase d) True)
                (andthen (event E ''wrap_up_completed'' [(lit ''reason'', PStr (lit (wrap_reason d)))])
                (andthen (end_call E ''wrap_up_completed'' ''wrap_up_completed'' ''ai'')
                         (ret RETURN)))))"

text \<open>Ending with the cause already set: the referee's hang-ups.\<close>

definition referee_end :: "pyenv \<Rightarrow> string \<Rightarrow> directive action" where
  "referee_end E why =
     andthen (goto E END (lit why))
    (andthen (event E ''hangup'' [(lit ''reason'', PStr (lit why)), (lit ''initiated_by'', PStr (lit ''ai''))])
             (ret RETURN))"

definition gated_wrap_up_turn :: "pyenv \<Rightarrow> runtime_config \<Rightarrow> pipeline_config \<Rightarrow> turn_env \<Rightarrow> pystr \<Rightarrow> clock
    \<Rightarrow> clock \<Rightarrow> directive action" where
  "gated_wrap_up_turn E cfg c env user_text ts_start t0 =
     act (run_pipeline c True) (\<lambda>st.
     andthen (goto E IN_CALL (lit ''main_stream_started''))
    (act (play_streaming E (interruption cfg) (te_main env) st False None (filler_delay_ms cfg) t0)
       (\<lambda>(res, first_audio, played).
     andthen (add_tokens res)
    (andthen (ask now (\<lambda>t. add_trace (dmerge (base_trace st res ts_start t user_text first_audio)
         [(lit ''referee_results'', PList []), (lit ''matched_rule'', PNone), (lit ''restructure_active'', PBool False),
          (lit ''restructure_trigger'', PNone), (lit ''restructure_source_text'', PNone),
          (lit ''selected_route_id'', PStr (lit ''closing'')), (lit ''selected_route_kind'', PStr (lit ''dialogue'')),
          (lit ''persona_candidates'', PNone)])))
    (andthen (ai_reply E (reply_text res) (turn_id st) (role_config_id (main_slot c)) False (PStr []) True)
    (if \<not> played then andthen note_interruption (ret CONTINUE)
     else act (await_wrap_referee E cfg env) (\<lambda>r. case r of
        None \<Rightarrow> wrap_up_round E cfg env
      | Some r \<Rightarrow>
          andthen (set_last_trace (lit ''referee_results'') (PList [as_trace r]))
          (if category r \<in> Some ` WRAP_UP_HANGUP_CATEGORIES
           then andthen (upd (\<lambda>w. w\<lparr>hangup_cause := Some (lit ''referee_hangup'')\<rparr>))
                  (referee_end E ''wrap_up_referee_hangup'')
           else wrap_up_round E cfg env))))))))"

section \<open>A gated turn\<close>

text \<open>A candidate: its stream, its script, and the persona it speaks for.\<close>

type_synonym candidate = "reply_stream \<times> stream_env \<times> slot_spec option"

definition enabled_personas :: "pipeline_config \<Rightarrow> slot_spec list" where
  "enabled_personas c = (let cap = max 1 (min 3 (persona_fanout_cap c)) in take (nat (max 0 (cap - 1))) (personas c))"

definition add_persona :: "pystr option \<Rightarrow> pipeline_config \<Rightarrow> int \<Rightarrow> turn_env \<Rightarrow> nat \<times> slot_spec
    \<Rightarrow> (pystr \<times> candidate) list \<Rightarrow> (pystr \<times> candidate) list" where
  "add_persona dp c tid env = (\<lambda>(i, p) cands.
     dset (lit ''persona:'' @ slot_label p)
       ((new_stream (c\<lparr>main_slot := persona_main_spec dp p, referees := []\<rparr>) False None)\<lparr>turn_id := tid\<rparr>,
        te_persona env i, Some p) cands)"

definition candidates_of :: "pystr option \<Rightarrow> pipeline_config \<Rightarrow> reply_stream \<Rightarrow> turn_env \<Rightarrow> (pystr \<times> candidate) list" where
  "candidates_of dp c st env =
     fold (add_persona dp c (turn_id st) env) (List.enumerate 0 (enabled_personas c))
       [(lit ''main'', (st, te_main env, None))]"

text \<open>Start the candidates and wait at the gate, thinking.\<close>

definition gate :: "pyenv \<Rightarrow> runtime_config \<Rightarrow> pipeline_config \<Rightarrow> turn_env
    \<Rightarrow> (reply_stream \<times> referee_result list) action" where
  "gate E cfg c env =
     lastly (andthen (upd (\<lambda>w. w\<lparr>in_processing_turn := True\<rparr>))
       (act (run_pipeline c False) (\<lambda>st.
          if referee_labels st = [] then ret (st, [])
          else andthen (await E (interruption cfg) (te_gate env))
            (ret (st, await_referees (map (te_referees env) [0..<length (referee_labels st)]) (referee_labels st))))))
       (\<lambda>w. w\<lparr>in_processing_turn := False\<rparr>)"

definition gate_filler :: "pipeline_config \<Rightarrow> referee_result list \<Rightarrow> bool" where
  "gate_filler c results = list_ex (\<lambda>r. effective_category r = Some (restructure_gate_category c)) results"

definition nonempty_text :: "pystr option \<Rightarrow> bool" where
  "nonempty_text t = (t \<noteq> None \<and> t \<noteq> Some [])"

text \<open>The override of an undecided gate by a restructure, and the hygiene of the remainder.\<close>

definition override_action :: "pipeline_config \<Rightarrow> referee_result list \<Rightarrow> decider_action \<Rightarrow> decider_action action" where
  "override_action c results a = ask interrupt_remaining_text (\<lambda>rem.
     if gate_filler c results \<and> kind a = ''continue'' \<and> auto_restructure_on_interrupt c \<and> restructure c \<noteq> None
        \<and> nonempty_text rem
     then ret ((action_of ''restructure'')\<lparr>source := Some ''interrupt_remaining'',
                 restructure_trigger := Some ''interrupt_remaining''\<rparr>)
     else if auto_restructure_on_interrupt c \<and> nonempty_text rem
     then andthen (upd (\<lambda>w. w\<lparr>interrupt_remaining_text := None\<rparr>)) (ret a)
     else ret a)"

definition tool_route :: "pyenv \<Rightarrow> runtime_config \<Rightarrow> turn_env \<Rightarrow> gated_selection \<Rightarrow> unit action \<Rightarrow> directive action" where
  "tool_route E cfg env sel trace =
     (if tool_type sel = Some (lit ''hangup'') then
        andthen (upd (\<lambda>w. w\<lparr>hangup_cause := Some (lit ''referee_hangup'')\<rparr>))
        (let phrase = py_or (sel_closing_phrase sel)
               (py_or (dget (list_or (tool_config sel)) (lit ''closing_phrase'')) (PStr []))
         in andthen (if truthy phrase then andthen (play_tts E (interruption cfg) (te_play env) (py_str E phrase) True) (ret ())
                     else ret ())
           (andthen trace (referee_end E ''referee_hangup'')))
      else andthen trace
          (andthen (perform_handoff E (interruption cfg) (te_handoff env) ''referee'' (lit ''referee_decision'') [])
                   (ret RETURN)))"

definition restructure_route :: "pyenv \<Rightarrow> runtime_config \<Rightarrow> pipeline_config \<Rightarrow> turn_env \<Rightarrow> gated_selection
    \<Rightarrow> (pystr option \<Rightarrow> unit action) \<Rightarrow> directive action" where
  "restructure_route E cfg c env sel trace =
     ask (\<lambda>w. consecutive_restructure_count w \<ge> max_continuous_restructure c) (\<lambda>capped.
     act (if capped then ret None else take_interrupt_text (sel_source sel)) (\<lambda>txt.
     andthen (trace txt)
     (if capped then
        andthen (if default_replies c \<noteq> []
                 then andthen (play_tts E (interruption cfg) (te_play env) (py_choice (te_draw env) (default_replies c)) True) (ret ())
                 else ret ())
        (andthen (upd (\<lambda>w. w\<lparr>consecutive_restructure_count := 0\<rparr>)) (ret CONTINUE))
      else case txt of
        Some t \<Rightarrow>
          act (run_restructure E cfg c (te_restructure env) t (sel_trigger sel)) (\<lambda>played.
          andthen (upd (\<lambda>w. w\<lparr>consecutive_restructure_count := consecutive_restructure_count w + 1\<rparr>))
          (andthen (if played then ret () else note_interruption) (ret CONTINUE)))
      | None \<Rightarrow> ret CONTINUE)))"

definition enter_wrap_up :: "pyenv \<Rightarrow> runtime_config \<Rightarrow> pyval \<Rightarrow> unit action" where
  "enter_wrap_up E cfg gtype =
     andthen (goto E IN_CALL (py_str E (py_or gtype (PStr (lit ''goal_achieved'')))))
    (andthen (upd (\<lambda>w. w\<lparr>in_wrap_up := True, wrap_up_started_at_monotonic := Some (now w),
                wrap_up_started_at_wallclock := Some (now w)\<rparr>))
    (andthen (event E ''wrap_up_started'' [(lit ''rounds_remaining'', PInt (max_rounds (wrap_up cfg))),
                (lit ''seconds_remaining'', PInt (max_seconds (wrap_up cfg)))])
             (event E ''goal_achieved'' [(lit ''goal_type'', gtype), (lit ''extracted'', PDict [])])))"

text \<open>The winner: a buffered candidate, or a fresh stream for the routes that are not speculated on.\<close>

definition pick_winner :: "pipeline_config \<Rightarrow> reply_stream \<Rightarrow> turn_env \<Rightarrow> (pystr \<times> candidate) list \<Rightarrow> pystr
    \<Rightarrow> candidate \<times> bool" where
  "pick_winner c st env cands rid = (case map_of cands rid of
       Some cand \<Rightarrow> (cand, True)
     | None \<Rightarrow> (((new_stream c (rid = lit ''closing'') None)\<lparr>turn_id := turn_id st\<rparr>, te_fresh env, None), False))"

definition dialogue_turn :: "pyenv \<Rightarrow> runtime_config \<Rightarrow> pipeline_config \<Rightarrow> candidate \<times> bool \<Rightarrow> gated_selection
    \<Rightarrow> (reply_stream \<Rightarrow> stream_result \<Rightarrow> int option \<Rightarrow> unit action) \<Rightarrow> pystr list option \<Rightarrow> clock \<Rightarrow> directive action" where
  "dialogue_turn E cfg c = (\<lambda>((st, env, persona), is_eager) sel trace fill t0.
     let rc = (case persona of Some p \<Rightarrow> role_config_id p | None \<Rightarrow> role_config_id (main_slot c));
         goal = (route_id sel = lit ''closing'');
         gtype = (if goal then sel_goal_type sel else PStr [])
     in andthen (goto E IN_CALL (lit ''main_stream_started''))
       (act (play_streaming E (interruption cfg) env st is_eager fill (filler_delay_ms cfg) t0)
          (\<lambda>(res, first_audio, played).
        andthen (add_tokens res)
        (if \<not> played then
           andthen (trace st res first_audio)
          (andthen (ai_reply E (reply_text res) (turn_id st) rc False (PStr []) False)
          (andthen note_interruption (ret CONTINUE)))
         else
           andthen (upd (\<lambda>w. w\<lparr>consecutive_interruption_count := 0, consecutive_restructure_count := 0\<rparr>))
          (andthen (trace st res first_audio)
          (andthen (ai_reply E (reply_text res) (turn_id st) rc goal (py_or gtype (PStr [])) goal)
          (andthen (if sel_then_state sel = PStr (lit ''WRAPPING_UP'') then enter_wrap_up E cfg gtype else ret ())
                   (ret CONTINUE))))))))"

text \<open>The turn is dropped in the thinking window: the candidates are cancelled, the interruption is counted.\<close>

definition abort_turn :: "pyenv \<Rightarrow> turn_env \<Rightarrow> pystr \<Rightarrow> clock \<Rightarrow> reply_stream \<Rightarrow> referee_result list \<Rightarrow> directive action" where
  "abort_turn E env user_text ts_start st results =
     andthen note_interruption
    (andthen (ask now (\<lambda>t. add_trace (dmerge (base_trace st (cancelled_result E env) ts_start t user_text None)
                [(lit ''referee_results'', PList (map as_trace results))])))
             (ret CONTINUE))"

text \<open>After the gate: \<open>dp\<close> is the default provider of a slot; \<open>spawned\<close> tells whether the hand-off
  detector runs.\<close>

definition route_turn :: "pyenv \<Rightarrow> pystr option \<Rightarrow> runtime_config \<Rightarrow> pipeline_config \<Rightarrow> turn_env \<Rightarrow> pystr \<Rightarrow> clock
    \<Rightarrow> clock \<Rightarrow> pystr list option \<Rightarrow> bool \<Rightarrow> reply_stream \<Rightarrow> referee_result list \<Rightarrow> directive action" where
  "route_turn E dp cfg c env user_text ts_start t0 fill spawned st results =
     (let cands = candidates_of dp c st env; cut = cancelled_result E env in
      act (lift_res (decide results (routing_rules c))) (\<lambda>a0.
      act (override_action c results a0) (\<lambda>a.
      act (lift_res (select_gated_route a c)) (\<lambda>sel.
      let trace = (\<lambda>st res first_audio txt. ask now (\<lambda>t.
            add_trace (gated_trace (base_trace st res ts_start t user_text first_audio) results a sel (map fst cands) txt)))
      in act (resolve_transfer_llm E cfg env spawned) (\<lambda>td.
      case (case td of Some d \<Rightarrow>
              if triggered d \<and> \<not> (sel_kind sel = ''tool'' \<and> tool_type sel = Some (lit ''transfer'')) then Some d else None
            | None \<Rightarrow> None) of
        Some d \<Rightarrow>
          andthen (trace st cut None None)
         (andthen (perform_handoff E (interruption cfg) (te_handoff env)
                     (case trigger_type d of Some ty \<Rightarrow> ty | None \<Rightarrow> ''transfer'') (trigger_detail d) (transfer_phrase d))
                  (ret RETURN))
      | None \<Rightarrow>
          if sel_kind sel = ''tool'' then tool_route E cfg env sel (trace st cut None None)
          else if route_id sel = lit ''restructure'' then restructure_route E cfg c env sel (trace st cut None)
          else dialogue_turn E cfg c (pick_winner c st env cands (route_id sel)) sel
                 (\<lambda>st res first_audio. trace st res first_audio None) fill t0)))))"

definition run_gated_turn :: "pyenv \<Rightarrow> pystr option \<Rightarrow> runtime_config \<Rightarrow> pipeline_config \<Rightarrow> turn_env \<Rightarrow> pystr \<Rightarrow> clock
    \<Rightarrow> clock \<Rightarrow> bool \<Rightarrow> pystr list option \<Rightarrow> bool \<Rightarrow> directive action" where
  "run_gated_turn E dp cfg c env user_text ts_start t0 is_wrap_up fill spawned =
     (if is_wrap_up then gated_wrap_up_turn E cfg c env user_text ts_start t0
      else act (gate E cfg c env) (\<lambda>(st, results).
        ask interruption_signaled (\<lambda>signaled.
          if signaled then abort_turn E env user_text ts_start st results
          else route_turn E dp cfg c env user_text ts_start t0 fill spawned st results)))"

section \<open>A turn keeps the books\<close>

lemma has_turn_base [simp]: "has_turn (base_trace st res a b u f)"
  by (simp add: has_turn_def base_trace_def)

lemma has_turn_dmerge: "distinct (map fst kvs) \<Longrightarrow> lit ''turn_id'' \<notin> fst ` set kvs \<Longrightarrow> has_turn (dmerge b kvs) = has_turn b"
  by (auto simp: has_turn_def map_of_dmerge map_of_eq_None_iff split: option.splits)

lemma has_turn_gated [simp]: "has_turn (gated_trace b rs a sel ps t) = has_turn b"
  unfolding gated_trace_def by (rule has_turn_dmerge) simp_all

lemma has_turn_rules [keep_rules]:
  "has_turn (base_trace st res a b u f)" "has_turn bt \<Longrightarrow> has_turn (gated_trace bt rs ac sel ps t)"
  "has_turn bt \<Longrightarrow> has_turn (dmerge bt [(lit ''referee_results'', v)])"
  by (simp_all add: has_turn_dmerge)

lemma has_turn_dset: "k \<noteq> lit ''turn_id'' \<Longrightarrow> has_turn (dset k v d) = has_turn d"
  by (simp add: has_turn_def)

lemma keeps_add_trace [keep_rules]: "has_turn tr \<Longrightarrow> keeps E (add_trace tr)"
  unfolding add_trace_def
  by (intro keep_rules) (simp_all add: open_call_def traces_ok_def hangups_def session_inv_def warnings_def)

lemma keeps_set_last_trace [keep_rules]: "k \<noteq> lit ''turn_id'' \<Longrightarrow> keeps E (set_last_trace k v)"
  unfolding set_last_trace_def
proof (intro keep_rules)
  fix w assume k: "k \<noteq> lit ''turn_id''" and o: "open_call E w"
  have "list_all has_turn (butlast (pipeline_trace_records w) @ [dset k v (last (pipeline_trace_records w))])"
    if "pipeline_trace_records w \<noteq> []"
    using that o k by (auto simp: open_call_def traces_ok_def list_all_iff has_turn_dset dest: in_set_butlastD)
  then show "open_call E (w\<lparr>pipeline_trace_records := if pipeline_trace_records w = [] then []
      else butlast (pipeline_trace_records w) @ [dset k v (last (pipeline_trace_records w))]\<rparr>)"
    using o by (auto simp: open_call_def traces_ok_def hangups_def session_inv_def warnings_def)
qed simp

lemma keeps_ai_reply [keep_rules]: "keeps E (ai_reply E t i r g y b)"
  unfolding ai_reply_def by (intro keep_rules) (simp_all add: plain_fields_def)

lemma keeps_note_interruption [keep_rules]: "keeps E note_interruption"
  unfolding note_interruption_def by (intro keep_rules) simp_all

lemma keeps_add_tokens [keep_rules]: "keeps E (add_tokens res)"
  unfolding add_tokens_def by (intro keep_rules) simp_all

lemma start_stream_turn: "start_stream st s = (st', s') \<Longrightarrow> s' = s\<lparr>current_turn_id := current_turn_id s + 1\<rparr>"
  by (auto simp: start_stream_def Let_def split: if_splits)

lemma keeps_run_pipeline [keep_rules]: "keeps E (run_pipeline c b)"
  by (rule keepsI) (auto simp: run_pipeline_def run_pipeline_stream_def dest: start_stream_turn split: prod.splits)

lemma keeps_start_restructure [keep_rules]:
  "keeps E (\<lambda>w. case run_restructure_stream c t w of (st, w') \<Rightarrow> (Ret st, w'))"
  by (rule keepsI) (auto simp: run_restructure_stream_def dest: start_stream_turn split: prod.splits)

lemma keeps_run_restructure [keep_rules]: "keeps E (run_restructure E cfg c env t tr)"
  unfolding run_restructure_def by (intro keep_rules) (simp add: has_turn_dmerge)

lemma keeps_take_interrupt_text [keep_rules]: "keeps E (take_interrupt_text so)"
  by (rule keepsI) (auto simp: take_interrupt_text_def assemble_interrupt_text_def Let_def split: option.splits)

lemma keeps_resolve_transfer_llm [keep_rules]: "keeps E (resolve_transfer_llm E cfg env b)"
  unfolding resolve_transfer_llm_def by (intro keep_rules)

lemma keeps_override_action [keep_rules]: "keeps E (override_action c rs a)"
  unfolding override_action_def by (intro keep_rules) simp_all

lemma keeps_await_wrap_referee [keep_rules]: "keeps E (await_wrap_referee E cfg env)"
  unfolding await_wrap_referee_def by (intro keep_rules)

lemma keeps_enter_wrap_up [keep_rules]: "keeps E (enter_wrap_up E cfg g)"
  unfolding enter_wrap_up_def by (intro keep_rules) (simp_all add: plain_fields_def)

text \<open>The gate sets the thinking flag and always clears it. \<open>thinking_call\<close> is an open call with the
  flag set.\<close>

definition thinking_call :: "pyenv \<Rightarrow> world \<Rightarrow> bool" where
  "thinking_call E w \<longleftrightarrow> in_processing_turn w \<and> open_call E (w\<lparr>in_processing_turn := False\<rparr>)"

lemma thinking_call_alt:
  "thinking_call E w \<longleftrightarrow> in_processing_turn w \<and> session_inv E w \<and> state w \<noteq> END \<and> hangups w = 0
     \<and> current_speaking_task w = None \<and> traces_ok w"
  by (auto simp: thinking_call_def open_call_def hangups_def traces_ok_def
      session_inv_journal [of "w\<lparr>in_processing_turn := False\<rparr>" w])

lemma thinking_background:
  assumes "thinking_call E w" "background E w w'"
  shows "thinking_call E w'"
proof -
  have "state w' = state w" "hangups w' = hangups w" "in_processing_turn w' = in_processing_turn w"
      "session_inv E w \<longrightarrow> session_inv E w'" "may_cancel (current_speaking_task w) (current_speaking_task w')"
      "traces_ok w' = traces_ok w"
    using assms(2) by (simp_all add: background_def books_def traces_ok_def)
  with assms(1) show ?thesis by (simp add: thinking_call_alt)
qed

lemma thinking_start: "open_call E w \<Longrightarrow> thinking_call E (w\<lparr>in_processing_turn := True\<rparr>)"
  by (simp add: thinking_call_alt open_call_def hangups_def traces_ok_def
      session_inv_journal [of "w\<lparr>in_processing_turn := True\<rparr>" w])

lemma thinking_turn_id: "thinking_call E (w\<lparr>current_turn_id := i\<rparr>) = thinking_call E w"
  by (simp add: thinking_call_alt hangups_def traces_ok_def session_inv_journal [of "w\<lparr>current_turn_id := i\<rparr>" w])

lemma keeps_gate [keep_rules]: "keeps E (gate E cfg c env)"
proof (rule keepsI)
  fix w assume "open_call E w"
  let ?w = "w\<lparr>in_processing_turn := True\<rparr>"
  obtain st w1 where st: "run_pipeline_stream c False ?w = (st, w1)" by fastforce
  then have "w1 = ?w\<lparr>current_turn_id := current_turn_id ?w + 1\<rparr>"
    unfolding run_pipeline_stream_def by (rule start_stream_turn)
  with \<open>open_call E w\<close> have t1: "thinking_call E w1"
    using thinking_turn_id thinking_start by metis
  obtain b w2 where w2: "suspend E (interruption cfg) (te_gate env) w1 = (b, w2)" by fastforce
  have t2: "thinking_call E w2" by (rule thinking_background [OF t1 suspend_background [OF w2]])
  show "open_call E (snd (gate E cfg c env w))"
    using t1 t2 st w2
    by (auto simp: gate_def lastly_def act_def upd_def run_pipeline_def ret_def await_def thinking_call_def)
next
  fix w :: world
  obtain st w1 where st: "run_pipeline_stream c False (w\<lparr>in_processing_turn := True\<rparr>) = (st, w1)" by fastforce
  obtain b w2 where w2: "suspend E (interruption cfg) (te_gate env) w1 = (b, w2)" by fastforce
  have "call_record_id w2 = call_record_id w" "call_record_id w1 = call_record_id w"
    using suspend_id [OF w2] start_stream_turn [OF st [unfolded run_pipeline_stream_def]] by simp_all
  with st w2 show "call_record_id (snd (gate E cfg c env w)) = call_record_id w"
    by (auto simp: gate_def lastly_def act_def upd_def run_pipeline_def ret_def await_def)
qed

section \<open>A turn ends the call or keeps it open\<close>

abbreviation returns :: "directive \<Rightarrow> bool" where
  "returns d \<equiv> d = RETURN"

text \<open>The hang-ups of the referees rely on a cause that was set before; \<open>caused\<close> is an open call with
  a cause.\<close>

definition ends_if_caused :: "pyenv \<Rightarrow> directive action \<Rightarrow> bool" where
  "ends_if_caused E m \<longleftrightarrow> (\<forall>w r w'. open_call E w \<and> hangup_cause w \<noteq> None \<and> m w = (r, w') \<longrightarrow>
     call_record_id w' = call_record_id w
     \<and> (case r of Ret d \<Rightarrow> if returns d then closed_call E w' else open_call E w' | _ \<Rightarrow> open_call E w'))"

definition keeps_cause :: "'a action \<Rightarrow> bool" where
  "keeps_cause m \<longleftrightarrow> (\<forall>w. hangup_cause w \<noteq> None \<longrightarrow> hangup_cause (snd (m w)) \<noteq> None)"

lemma referee_end_closes: "ends_if_caused E (referee_end E why)"
proof (unfold ends_if_caused_def, intro allI impI)
  fix w r w' assume w: "open_call E w \<and> hangup_cause w \<noteq> None \<and> referee_end E why w = (r, w')"
  let ?w = "transition_to E (now w) END (Some (lit why)) w"
  have "closed_call E (record_event E (now w) ''hangup''
      [(lit ''reason'', PStr (lit why)), (lit ''initiated_by'', PStr (lit ''ai''))] ?w)"
    by (rule close_open [of E w]) (use w in \<open>simp_all add: plain_fields_def\<close>)
  then show "call_record_id w' = call_record_id w
      \<and> (case r of Ret d \<Rightarrow> if returns d then closed_call E w' else open_call E w' | _ \<Rightarrow> open_call E w')"
    using w by (auto simp: referee_end_def act_def goto_def upd_def event_def ret_def)
qed

lemma ends_if_caused_act:
  assumes "keeps E m" "keeps_cause m" "\<And>a. ends_if_caused E (f a)"
  shows "ends_if_caused E (act m f)"
proof (unfold ends_if_caused_def, intro allI impI)
  fix w r w' assume w: "open_call E w \<and> hangup_cause w \<noteq> None \<and> act m f w = (r, w')"
  obtain q v where m: "m w = (q, v)" by fastforce
  have v: "open_call E v" "call_record_id v = call_record_id w"
    using keepsD [OF assms(1) _ m] keeps_id [OF assms(1) _ m] w by simp_all
  have c: "hangup_cause v \<noteq> None"
    using assms(2) w m unfolding keeps_cause_def by (metis snd_conv)
  show "call_record_id w' = call_record_id w
      \<and> (case r of Ret d \<Rightarrow> if returns d then closed_call E w' else open_call E w' | _ \<Rightarrow> open_call E w')"
  proof (cases q)
    case (Ret a)
    then have "f a v = (r, w')" using w m by (simp add: act_def)
    then show ?thesis using assms(3) [of a] v c unfolding ends_if_caused_def by metis
  qed (use w m v in \<open>auto simp: act_def\<close>)
qed

lemma ends_set_cause:
  assumes "ends_if_caused E m"
  shows "ends E returns (andthen (upd (\<lambda>w. w\<lparr>hangup_cause := Some c\<rparr>)) m)"
proof (rule endsI)
  fix w r w' assume o: "open_call E w" and r: "andthen (upd (\<lambda>w. w\<lparr>hangup_cause := Some c\<rparr>)) m w = (r, w')"
  let ?w = "w\<lparr>hangup_cause := Some c\<rparr>"
  have "open_call E ?w" "hangup_cause ?w \<noteq> None" "m ?w = (r, w')" using o r by (simp_all add: act_def upd_def)
  then have "call_record_id w' = call_record_id ?w
      \<and> (case r of Ret d \<Rightarrow> if returns d then closed_call E w' else open_call E w' | _ \<Rightarrow> open_call E w')"
    using assms unfolding ends_if_caused_def by blast
  then show "call_record_id w' = call_record_id w
      \<and> (case r of Ret d \<Rightarrow> if returns d then closed_call E w' else open_call E w' | _ \<Rightarrow> open_call E w')" by simp
qed

named_theorems cause_rules \<open>actions that never clear the hang-up cause\<close>

lemma keeps_cause_act [cause_rules]: "keeps_cause m \<Longrightarrow> (\<And>a. keeps_cause (f a)) \<Longrightarrow> keeps_cause (act m f)"
  by (auto simp: keeps_cause_def act_def split: outcome.splits prod.splits)

lemma keeps_cause_simple [cause_rules]:
  "keeps_cause (ret a)" "keeps_cause (emit e)" "keeps_cause (add_trace tr)"
  by (simp_all add: keeps_cause_def ret_def emit_def upd_def add_trace_def)

lemma keeps_cause_ask [cause_rules]: "(\<And>x. keeps_cause (k x)) \<Longrightarrow> keeps_cause (ask g k)"
  by (simp add: keeps_cause_def ask_def)

lemma keeps_cause_if [cause_rules]: "keeps_cause m \<Longrightarrow> keeps_cause n \<Longrightarrow> keeps_cause (if b then m else n)"
  by simp

lemma keeps_cause_play_chunks [cause_rules]: "keeps_cause (play_chunks E icfg p i)"
proof (unfold keeps_cause_def, intro allI impI)
  fix w :: world assume w: "hangup_cause w \<noteq> None"
  define w1 where "w1 = (if i then w\<lparr>current_speaking_task := Some TaskRunning\<rparr> else w)"
  obtain c w2 where s: "suspend E icfg (play_wait p) w1 = (c, w2)" by fastforce
  have "hangup_cause w2 \<noteq> None"
    using suspend_background [OF s] w by (auto simp: background_def w1_def split: if_splits)
  then show "hangup_cause (snd (play_chunks E icfg p i w)) \<noteq> None"
    unfolding play_chunks_def w1_def [symmetric] Let_def s by (auto split: option.splits)
qed

lemma keeps_cause_play_tts [cause_rules]: "keeps_cause (play_tts E icfg p t i)"
  unfolding play_tts_def by (intro cause_rules)

lemma ends_wrap_up_round [end_rules]: "ends E returns (wrap_up_round E cfg env)"
  unfolding wrap_up_round_def
  by (intro end_rules keep_rules) (simp_all add: plain_fields_def)

lemma ends_gated_wrap_up_turn [end_rules]: "ends E returns (gated_wrap_up_turn E cfg c env u ts t0)"
  unfolding gated_wrap_up_turn_def
  by (intro end_rules keep_rules ends_set_cause referee_end_closes) (simp_all add: has_turn_dmerge)

lemma ends_tool_route [end_rules]:
  assumes "keeps E tr" "keeps_cause tr"
  shows "ends E returns (tool_route E cfg env sel tr)"
  unfolding tool_route_def Let_def
  by (intro end_rules keep_rules ends_set_cause ends_if_caused_act referee_end_closes cause_rules assms) simp_all

lemma ends_restructure_route [end_rules]:
  assumes "\<And>t. keeps E (tr t)"
  shows "ends E returns (restructure_route E cfg c env sel tr)"
  unfolding restructure_route_def by (intro end_rules keep_rules assms) simp_all

lemma ends_dialogue_turn [end_rules]:
  assumes "\<And>st res fa. keeps E (tr st res fa)"
  shows "ends E returns (dialogue_turn E cfg c cand sel tr fill t0)"
  by (cases cand) (auto simp: dialogue_turn_def Let_def split: prod.split intro!: end_rules keep_rules assms)

lemma ends_run_gated_turn [end_rules]: "ends E returns (run_gated_turn E dp cfg c env u ts t0 wrap fill spawned)"
  unfolding run_gated_turn_def route_turn_def abort_turn_def Let_def
  by (intro end_rules keep_rules cause_rules) simp_all

text \<open>C4. Whatever the line, the referees, the models and the voice do, a turn that ends the call has
  closed it properly (state \<open>END\<close>, a cause, exactly one hang-up event, at the end of the
  transcript), and a turn that continues, raises or is cancelled leaves the call open with its
  books in order, no playback registered and the thinking flag cleared.\<close>

theorem gated_turn_closes_or_keeps:
  assumes "open_call E w" "run_gated_turn E dp cfg c env u ts t0 wrap fill spawned w = (r, w')"
  shows "if r = Ret RETURN then closed_call E w' else open_call E w'"
  using endsD [OF ends_run_gated_turn assms] by (cases r) simp_all

definition demo_env_turn :: stream_env where
  "demo_env_turn = \<lparr>se_llm = \<lparr>stream_tokens = [lit ''Good morning.''], stream_error = None,
       chat_fallback_reply = ChatReply None, script_tokens_in = None, script_tokens_out = None,
       stamp_first_token = 1, stamp_first_sentence = 2, stamp_duration = 3\<rparr>, se_draw = 0,
     se_job_wait = (\<lambda>_. play_wait (calm 0 NoCancel)), se_play = (\<lambda>_. calm 0 NoCancel),
     se_last_wait = play_wait (calm 0 NoCancel), se_first_chunk = None, se_filler_draw = 0,
     se_filler_end = FillerPlayed, se_queued = 0, se_pending = False, se_generated = 0, se_token_seen = True,
     se_complete = True\<rparr>"

definition demo_turn :: turn_env where
  "demo_turn = \<lparr>te_main = demo_env_turn, te_persona = (\<lambda>_. demo_env_turn), te_fresh = demo_env_turn,
     te_restructure = demo_env_turn, te_main_cut = None, te_gate = play_wait (calm 0 NoCancel),
     te_referees = (\<lambda>_. RefTimeout), te_transfer_wait = play_wait (calm 0 NoCancel), te_transfer = TransferTimeout,
     te_transfer_draw = 0, te_handoff = \<lparr>ho_play = calm 0 NoCancel, ho_hangup = HangupOk\<rparr>, te_play = calm 0 NoCancel,
     te_draw = 0, te_wrap_referee_wait = play_wait (calm 0 NoCancel), te_wrap_referee = RefTimeout\<rparr>"

definition demo_config :: runtime_config where
  "demo_config = \<lparr>pipeline = demo_pipeline, filler_phrases = [],
     transfer = \<lparr>keyword_enabled = False, transfer_keywords = [], intent_enabled = False, intent_threshold = None,
       intent_system_prompt = [], round_enabled = False, round_threshold = None, llm_enabled = False,
       llm_system_prompt = [], transfer_phrases = [lit ''please hold'']\<rparr>,
     wrap_up = \<lparr>max_rounds = 2, max_seconds = 60, closing_phrases = [], wrap_referee_enabled = False\<rparr>,
     interruption = \<lparr>whitelist = [], barge_rule = default_rule [] 2 0\<rparr>,
     silence = \<lparr>threshold_ms = 5000, max_activations = 2, silence_phrases = [lit ''hello?''],
       hangup_phrase = lit ''bye'', wrap_up_hangup_ms = 8000\<rparr>,
     voice_id = lit ''default'', fixed_greeting = Some (lit ''hello''), asr_partial_stable_s = 2/5,
     filler_enabled = False, filler_delay_ms = 600, ambient_audio = None, ambient_gain = 1/10,
     barge_in_fadeout_ms = 100, max_continuous_interruptions = 3,
     continuous_interruption_strategy = lit ''short_reply''\<rparr>"

theorem gated_turn_closes_or_keeps_witness:
  "\<exists>r w'. run_gated_turn demo_env None demo_config demo_pipeline demo_turn (lit ''hi'') 0 0 False None False demo_world = (r, w')
     \<and> open_call demo_env demo_world \<and> (if r = Ret RETURN then closed_call demo_env w' else open_call demo_env w')"
  using gated_turn_closes_or_keeps [OF demo_world_open] demo_world_open by (metis surj_pair)

section \<open>Interruption in the thinking window\<close>

lemma gate_frame:
  assumes "gate E cfg c env w = (r, w')"
  shows "(r = Cancelled \<or> (\<exists>x. r = Ret x)) \<and> effects w' = effects w \<and> dialog_history w' = dialog_history w
    \<and> consecutive_interruption_count w' = consecutive_interruption_count w
    \<and> (interruption_signaled w \<longrightarrow> interruption_signaled w')"
proof -
  let ?w = "w\<lparr>in_processing_turn := True\<rparr>"
  obtain st w1 where st: "run_pipeline_stream c False ?w = (st, w1)" by fastforce
  then have w1: "w1 = ?w\<lparr>current_turn_id := current_turn_id ?w + 1\<rparr>"
    unfolding run_pipeline_stream_def by (rule start_stream_turn)
  obtain b w2 where w2: "suspend E (interruption cfg) (te_gate env) w1 = (b, w2)" by fastforce
  have e2: "effects w2 = effects w1" "dialog_history w2 = dialog_history w1"
      "consecutive_interruption_count w2 = consecutive_interruption_count w1"
      "interruption_signaled w1 \<longrightarrow> interruption_signaled w2"
    using suspend_background [OF w2] by (simp_all add: background_def books_def)
  have e1: "effects w1 = effects w" "dialog_history w1 = dialog_history w"
      "consecutive_interruption_count w1 = consecutive_interruption_count w"
      "interruption_signaled w1 = interruption_signaled w"
    by (simp_all add: w1)
  define res where "res = await_referees (map (te_referees env) [0..<length (referee_labels st)]) (referee_labels st)"
  have "gate E cfg c env w =
     (if referee_labels st = [] then (Ret (st, []), w1\<lparr>in_processing_turn := False\<rparr>)
      else (if b then Cancelled else Ret (st, res), w2\<lparr>in_processing_turn := False\<rparr>))"
    by (simp add: gate_def lastly_def act_def upd_def run_pipeline_def ret_def await_def st w2 res_def)
  then show ?thesis
    using assms by (cases "referee_labels st = []"; cases b) (auto simp: e1 e2)
qed

lemma run_gated_turn_signalled:
  "gate E cfg c env w = (Ret (st, results), v) \<Longrightarrow> interruption_signaled v \<Longrightarrow>
   run_gated_turn E dp cfg c env u ts t0 False fill spawned w = abort_turn E env u ts st results v"
  by (simp add: run_gated_turn_def act_def ask_def)

lemma abort_turn_result:
  "abort_turn E env u ts st results v = (r, w') \<Longrightarrow>
   r = Ret CONTINUE \<and> effects w' = effects v \<and> dialog_history w' = dialog_history v
     \<and> \<not> interruption_signaled w' \<and> consecutive_interruption_count w' = consecutive_interruption_count v + 1"
  by (auto simp: abort_turn_def act_def note_interruption_def upd_def ask_def add_trace_def ret_def)

lemma gate_without_referees:
  "referees c = [] \<Longrightarrow> \<exists>st v. gate E cfg c env w = (Ret (st, []), v)"
  by (simp add: gate_def lastly_def act_def upd_def run_pipeline_def run_pipeline_stream_def start_stream_def
      new_stream_def is_restructure_def ret_def)

text \<open>If an interruption is signalled before the gate opens, also one left over from an earlier
  playback, the turn is dropped whatever the referees answer: nothing is played, nothing is
  said, and the interruption is counted and cleared.\<close>

theorem signalled_turn_is_dropped:
  assumes "interruption_signaled w" "run_gated_turn E dp cfg c env u ts t0 False fill spawned w = (r, w')" "r \<noteq> Cancelled"
  shows "r = Ret CONTINUE \<and> effects w' = effects w \<and> dialog_history w' = dialog_history w
    \<and> \<not> interruption_signaled w' \<and> consecutive_interruption_count w' = consecutive_interruption_count w + 1"
proof -
  obtain g v where g: "gate E cfg c env w = (g, v)" by fastforce
  note f = gate_frame [OF g]
  consider "g = Cancelled" | st results where "g = Ret (st, results)" using f by auto
  then show ?thesis
  proof cases
    case 1
    then have "r = Cancelled" using assms(2) by (simp add: run_gated_turn_def act_def g)
    with assms(3) show ?thesis by simp
  next
    case 2
    have "abort_turn E env u ts st results v = (r, w')"
      using run_gated_turn_signalled [OF g [unfolded 2]] f assms(1,2) by metis
    from abort_turn_result [OF this]
    show ?thesis using f by simp
  qed
qed

theorem signalled_turn_is_dropped_witness:
  "\<exists>r w'. interruption_signaled (demo_world\<lparr>interruption_signaled := True\<rparr>)
     \<and> run_gated_turn demo_env None demo_config (demo_pipeline\<lparr>referees := []\<rparr>) demo_turn (lit ''hi'') 0 0 False None False
         (demo_world\<lparr>interruption_signaled := True\<rparr>) = (r, w')
     \<and> r \<noteq> Cancelled \<and> r = Ret CONTINUE \<and> \<not> interruption_signaled w'"
proof -
  let ?w = "demo_world\<lparr>interruption_signaled := True\<rparr>" and ?c = "demo_pipeline\<lparr>referees := []\<rparr>"
  obtain st v where g: "gate demo_env demo_config ?c demo_turn ?w = (Ret (st, []), v)"
    using gate_without_referees [of ?c] by fastforce
  then have "interruption_signaled v" using gate_frame [OF g] by simp
  note e = run_gated_turn_signalled [OF g this]
  obtain r w' where r: "run_gated_turn demo_env None demo_config ?c demo_turn (lit ''hi'') 0 0 False None False ?w = (r, w')"
    by fastforce
  then have "r \<noteq> Cancelled" using abort_turn_result [of demo_env demo_turn] unfolding e by blast
  moreover from signalled_turn_is_dropped [OF _ r this]
  have "r = Ret CONTINUE \<and> \<not> interruption_signaled w'" by simp
  ultimately show ?thesis using r by simp
qed

section \<open>Re-voicing\<close>

text \<open>The text of a restructure after an interruption is the captured remainder, which is consumed, so
  that it is never re-voiced twice; without one it is the last non-blank utterance of the
  assistant, and nothing when there is none.\<close>

theorem interrupt_text_taken_once:
  assumes "assemble_interrupt_text (Some ''interrupt_remaining'') s = (t, s')"
  shows "interrupt_remaining_text s' = None \<and> dialog_history s' = dialog_history s
    \<and> (case interrupt_remaining_text s of
         Some r \<Rightarrow> strip r \<noteq> [] \<longrightarrow> t = Some r
       | None \<Rightarrow> True)
    \<and> ((interrupt_remaining_text s = None \<or> strip (the (interrupt_remaining_text s)) = []) \<longrightarrow>
        (case t of
           Some u \<Rightarrow> strip u \<noteq> [] \<and> (\<exists>d \<in> set (dialog_history s). role d = lit ''assistant'' \<and> turn_text d = u)
         | None \<Rightarrow> \<forall>d \<in> set (dialog_history s). role d = lit ''assistant'' \<longrightarrow> strip (turn_text d) = []))"
proof -
  let ?P = "\<lambda>t. role t = lit ''assistant'' \<and> strip (turn_text t) \<noteq> []"
  define L where "L = map_option turn_text (find ?P (rev (dialog_history s)))"
  have L: "case L of
      Some u \<Rightarrow> strip u \<noteq> [] \<and> (\<exists>d \<in> set (dialog_history s). role d = lit ''assistant'' \<and> turn_text d = u)
    | None \<Rightarrow> \<forall>d \<in> set (dialog_history s). role d = lit ''assistant'' \<longrightarrow> strip (turn_text d) = []"
  proof (cases "find ?P (rev (dialog_history s))")
    case None
    then have "\<forall>d \<in> set (dialog_history s). role d = lit ''assistant'' \<longrightarrow> strip (turn_text d) = []"
      by (auto simp: find_None_iff)
    then show ?thesis unfolding L_def None by simp
  next
    case (Some d)
    then have "?P d" "d \<in> set (rev (dialog_history s))" unfolding find_Some_iff using nth_mem by metis+
    then show ?thesis unfolding L_def Some by auto
  qed
  have blank: "(r \<noteq> [] \<and> strip r \<noteq> []) = (strip r \<noteq> [])" for r
    by (cases "r = []") (simp_all add: strip_of_def lstrip_of_def rstrip_of_def)
  have "assemble_interrupt_text (Some ''interrupt_remaining'') s =
     (case interrupt_remaining_text s of
        Some r \<Rightarrow> (if strip r \<noteq> [] then Some r else L, s\<lparr>interrupt_remaining_text := None\<rparr>)
      | None \<Rightarrow> (L, s\<lparr>interrupt_remaining_text := None\<rparr>))"
    unfolding assemble_interrupt_text_def L_def [symmetric] Let_def blank by simp
  then have "(t, s') = (case interrupt_remaining_text s of
        Some r \<Rightarrow> (if strip r \<noteq> [] then Some r else L, s\<lparr>interrupt_remaining_text := None\<rparr>)
      | None \<Rightarrow> (L, s\<lparr>interrupt_remaining_text := None\<rparr>))"
    using assms by simp
  then have ts: "t = (case interrupt_remaining_text s of Some r \<Rightarrow> if strip r \<noteq> [] then Some r else L | None \<Rightarrow> L)"
      "s' = s\<lparr>interrupt_remaining_text := None\<rparr>"
    by (simp_all split: option.splits)
  define G where "G = (\<lambda>t. case t of
      Some u \<Rightarrow> strip u \<noteq> [] \<and> (\<exists>d \<in> set (dialog_history s). role d = lit ''assistant'' \<and> turn_text d = u)
    | None \<Rightarrow> \<forall>d \<in> set (dialog_history s). role d = lit ''assistant'' \<longrightarrow> strip (turn_text d) = [])"
  have "G L" using L by (simp only: G_def)
  then have "interrupt_remaining_text s' = None \<and> dialog_history s' = dialog_history s
      \<and> (case interrupt_remaining_text s of Some r \<Rightarrow> strip r \<noteq> [] \<longrightarrow> t = Some r | None \<Rightarrow> True)
      \<and> ((interrupt_remaining_text s = None \<or> strip (the (interrupt_remaining_text s)) = []) \<longrightarrow> G t)"
    unfolding ts by (cases "interrupt_remaining_text s") simp_all
  then show ?thesis unfolding G_def .
qed

theorem interrupt_text_taken_once_witness:
  "\<exists>t s'. assemble_interrupt_text (Some ''interrupt_remaining'')
      (demo_world\<lparr>interrupt_remaining_text := Some (lit ''and so on'')\<rparr>) = (t, s') \<and> interrupt_remaining_text s' = None"
proof -
  obtain t s' where a: "assemble_interrupt_text (Some ''interrupt_remaining'')
      (demo_world\<lparr>interrupt_remaining_text := Some (lit ''and so on'')\<rparr>) = (t, s')" by fastforce
  have "interrupt_remaining_text s' = None" by (rule interrupt_text_taken_once [OF a, THEN conjunct1])
  with a show ?thesis by blast
qed

end
