(* ===== verification/Run_Loop.thy ===== *)
theory Run_Loop
  imports Gated_Turn
begin

text \<open>
  The life of one call (\<^verbatim>\<open>run_session\<close>, \<^verbatim>\<open>_main_turn_loop\<close>, \<^verbatim>\<open>_await_user_or_silence\<close> and the steps before
  the loop, of \<^verbatim>\<open>run_loop.py\<close>): dial, greet, listen, take turns until someone hangs up.

  The loop may run as long as the caller talks, so \<open>main_turn_loop\<close> recurses over a script of what
  the environment does in each iteration; \<open>Running\<close> is the result of a script that ends before
  the call does.

  Shown: a call that is not cancelled ends closed, whatever raises on the way; on a silent line
  the call ends within the configured number of activations plus one; a wrap-up takes at most
  its configured number of rounds; what was said during the greeting is never answered.
\<close>

section \<open>Before the loop\<close>

record session_env =
  dial_error :: "pystr option"
  dial_wait :: wait
  dial_events :: "pystr list"
  greet_wait :: wait
  greet_chat :: "pystr option"
  greet_play :: play
  prewarm_wait :: wait

text \<open>The first event that decides; the stream ending or the time-out decides for no.\<close>

fun wait_connected :: "pystr list \<Rightarrow> bool" where
  "wait_connected [] = False"
| "wait_connected (ev # evs) =
     (if ev = lit ''connected'' then True else if ev \<in> set hangup_types then False else wait_connected evs)"

definition dial_and_wait_connected :: "pyenv \<Rightarrow> runtime_config \<Rightarrow> pystr \<Rightarrow> session_env \<Rightarrow> bool action" where
  "dial_and_wait_connected E cfg phone env =
     andthen (emit (DialOut phone))
    (andthen (case dial_error env of Some e \<Rightarrow> lift_res (Inl (OtherErr e)) | None \<Rightarrow> ret ())
    (andthen (await E (interruption cfg) (dial_wait env))
             (ret (wait_connected (dial_events env)))))"

definition do_greeting :: "pyenv \<Rightarrow> runtime_config \<Rightarrow> session_env \<Rightarrow> unit action" where
  "do_greeting E cfg env =
     (let txt = generate_greeting (fixed_greeting cfg) (greet_chat env) in
      andthen (case fixed_greeting cfg of Some (c # cs) \<Rightarrow> ret () | _ \<Rightarrow> await E (interruption cfg) (greet_wait env))
     (andthen (event E ''greeting'' [(lit ''text'', PStr txt)])
     (andthen (play_tts E (interruption cfg) (greet_play env) txt True) (ret ()))))"

text \<open>The probe is started only for a fixed greeting, and reaped after it.\<close>

definition kick_main_llm_prewarm :: "runtime_config \<Rightarrow> bool action" where
  "kick_main_llm_prewarm cfg = (case fixed_greeting cfg of
       Some (c # cs) \<Rightarrow> andthen (upd (\<lambda>w. w\<lparr>tasks := (tasks w)(''main_llm_prewarm'' \<mapsto> TaskRunning)\<rparr>)) (ret True)
     | _ \<Rightarrow> ret False)"

definition reap_main_llm_prewarm :: "pyenv \<Rightarrow> runtime_config \<Rightarrow> session_env \<Rightarrow> bool \<Rightarrow> unit action" where
  "reap_main_llm_prewarm E cfg env kicked =
     (if kicked then andthen (await E (interruption cfg) (prewarm_wait env))
                       (upd (\<lambda>w. w\<lparr>tasks := (tasks w)(''main_llm_prewarm'' \<mapsto> TaskDone)\<rparr>))
      else ret ())"

text \<open>The handlers of the bus, by number: the control bridge for hang-up and transfer, then the
  bridges of the listening context.\<close>

definition subscribe_control_bridges :: "unit action" where
  "subscribe_control_bridges = upd (\<lambda>w. w\<lparr>session_bus :=
     subscribe TTransferRequested 1 (subscribe TManualHangupRequested 0 (session_bus w))\<rparr>)"

definition start_monitors :: "unit action" where
  "start_monitors = upd (\<lambda>w.
     if monitors_on w then w
     else w\<lparr>monitors_on := True,
            tasks := (tasks w)(''partial_monitor'' \<mapsto> TaskRunning, ''vad_monitor'' \<mapsto> TaskRunning)\<rparr>)"

definition start_listen_pumps :: "bool \<Rightarrow> unit action" where
  "start_listen_pumps monitors =
     andthen (upd (\<lambda>w. w\<lparr>finals := [], partials := [], hangup_event := False, asr_finished := False,
         session_bus := subscribe TAsrStreamEnded 5 (subscribe THangupDetected 4 (subscribe TAsrPartial 3
           (subscribe TAsrFinal 2 (register_lane TAsrPartial LOSSY (session_bus w))))),
         tasks := (tasks w)(''asr_pump'' \<mapsto> TaskRunning, ''ev_pump'' \<mapsto> TaskRunning)\<rparr>))
     (if monitors then start_monitors else ret ())"

definition drain_greeting_era_asr :: "unit action" where
  "drain_greeting_era_asr = upd (\<lambda>w. w\<lparr>finals := [], partials := [], current_user_speech_started_ms := None\<rparr>)"

definition stop_listen_pumps :: "world \<Rightarrow> world" where
  "stop_listen_pumps w = w\<lparr>monitors_on := False,
     tasks := (tasks w)(''asr_pump'' := None, ''ev_pump'' := None, ''partial_monitor'' := None, ''vad_monitor'' := None)\<rparr>"

section \<open>Listening\<close>

datatype user_await = UserFinal pystr | SilenceActivation pystr | SilenceHangsUp "pystr option" | RemoteHangup | NoProgress

definition coalesce :: "pystr list \<Rightarrow> pystr" where
  "coalesce txts = py_join (lit '' '') (filter (\<lambda>t. t \<noteq> []) (map strip txts))"

definition await_user_or_silence :: "pyenv \<Rightarrow> runtime_config \<Rightarrow> wait \<Rightarrow> user_await action" where
  "await_user_or_silence E cfg wt =
     ask (\<lambda>w. (hangup_event w, now w)) (\<lambda>(hung, listen_started).
     if hung then ret RemoteHangup
     else andthen (await E (interruption cfg) wt)
       (ask (\<lambda>w. (hangup_event w, finals w)) (\<lambda>(hung, fs).
        if hung then ret RemoteHangup
        else if fs \<noteq> [] then
          (let combined = coalesce fs in
           andthen (upd (\<lambda>w. w\<lparr>finals := []\<rparr>))
           (if combined = [] \<or> combined \<in> set (whitelist (interruption cfg)) then ret NoProgress
            else andthen (upd (\<lambda>w. w\<lparr>last_user_speech_end_at := Some (now w)\<rparr>)) (ret (UserFinal combined))))
        else
          ask (\<lambda>w. evaluate_silence (elapsed_ms listen_started (now w)) (silence_activation_count w) (silence cfg) (in_wrap_up w))
            (\<lambda>d. case d of
                SilenceActivate p \<Rightarrow> ret (SilenceActivation p)
              | SilenceHangup p \<Rightarrow> ret (SilenceHangsUp p)
              | SilenceWait \<Rightarrow> ret NoProgress))))"

section \<open>One iteration\<close>

record loop_env =
  le_wait :: wait
  le_play :: play
  le_handoff :: handoff_script
  le_draw :: nat
  le_turn :: turn_env

definition listen_only_cue :: pystr where
  "listen_only_cue = [24744, 35831, 35828, 12290]"

definition silence_hangup_branch :: "pyenv \<Rightarrow> runtime_config \<Rightarrow> loop_env \<Rightarrow> pystr option \<Rightarrow> directive action" where
  "silence_hangup_branch E cfg env phrase =
     andthen (if nonempty_text phrase then andthen (play_tts E (interruption cfg) (le_play env) (the phrase) True) (ret ()) else ret ())
     (ask in_wrap_up (\<lambda>wrapping.
        andthen (end_call E (if wrapping then ''wrap_up_silence'' else ''silence_max_reached'') ''silence_max_reached'' ''ai'')
                (ret RETURN)))"

definition silence_activation_branch :: "pyenv \<Rightarrow> runtime_config \<Rightarrow> loop_env \<Rightarrow> pystr \<Rightarrow> directive action" where
  "silence_activation_branch E cfg env phrase =
     andthen (goto E IN_CALL (lit ''silence_threshold''))
    (andthen (ask silence_activation_count (\<lambda>n. event E ''silence_activation''
                [(lit ''text'', PStr phrase), (lit ''activation_index'', PInt (int n))]))
    (andthen (play_tts E (interruption cfg) (le_play env) phrase True)
    (andthen (upd (\<lambda>w. w\<lparr>silence_activation_count := silence_activation_count w + 1, last_tts_end_at := Some (now w)\<rparr>))
    (andthen (goto E IN_CALL (lit ''activation_done''))
             (ret CONTINUE)))))"

definition processing_branch :: "pyenv \<Rightarrow> pystr option \<Rightarrow> runtime_config \<Rightarrow> loop_env \<Rightarrow> pystr \<Rightarrow> bool \<Rightarrow> directive action" where
  "processing_branch E dp cfg env user_text is_wrap_up =
     andthen (goto E IN_CALL (lit ''speech_end''))
    (andthen (publish_status (lit ''speech_end''))
    (andthen (if is_wrap_up then upd (\<lambda>w. w\<lparr>prompt_versions_snapshot :=
                 dset (lit ''wrap_up_appended'') (PBool True) (prompt_versions_snapshot w)\<rparr>) else ret ())
    (ask (\<lambda>w. (now w, short_reply w)) (\<lambda>(t, short).
       run_gated_turn E dp cfg ((pipeline cfg)\<lparr>short_reply_active := short\<rparr>) (le_turn env) user_text t t is_wrap_up
         (if filler_enabled cfg \<and> \<not> is_wrap_up then Some (filler_phrases cfg) else None)
         (\<not> is_wrap_up \<and> (intent_enabled (transfer cfg) \<or> llm_enabled (transfer cfg)))))))"

definition user_branch :: "pyenv \<Rightarrow> pystr option \<Rightarrow> runtime_config \<Rightarrow> loop_env \<Rightarrow> pystr \<Rightarrow> directive action" where
  "user_branch E dp cfg env user_text =
     andthen (event E ''user_speech'' [(lit ''text'', PStr user_text)])
    (andthen (ask (\<lambda>w. (publishing w, elapsed_ms (call_started_at_monotonic w) (now w)))
        (\<lambda>(p, ms). if p then emit (PubAsrFinal user_text ms) else ret ()))
    (ask (\<lambda>w. evaluate_transfer_cheap (le_draw env) user_text (int (length (dialog_history w))) False (transfer cfg)) (\<lambda>d.
     if triggered d then
       andthen (perform_handoff E (interruption cfg) (le_handoff env)
                  (case trigger_type d of Some ty \<Rightarrow> ty | None \<Rightarrow> ''transfer'') (trigger_detail d) (transfer_phrase d))
               (ret RETURN)
     else ask (\<lambda>w. (in_wrap_up w, decide_protection cfg w)) (\<lambda>(is_wrap_up, protection).
       if protection = Some ''listen_only'' then
         andthen (goto E IN_CALL (lit ''listen_only_cue''))
        (andthen (play_tts E (interruption cfg) (le_play env) listen_only_cue False)
        (andthen (upd (\<lambda>w. w\<lparr>consecutive_interruption_count := 0, short_reply := False\<rparr>))
        (andthen (goto E IN_CALL (lit ''listen_only_done''))
                 (ret CONTINUE))))
       else andthen (upd (\<lambda>w. w\<lparr>short_reply := (protection = Some ''short_reply'')\<rparr>))
              (processing_branch E dp cfg env user_text is_wrap_up)))))"

definition loop_step :: "pyenv \<Rightarrow> pystr option \<Rightarrow> runtime_config \<Rightarrow> loop_env \<Rightarrow> directive action" where
  "loop_step E dp cfg env =
     act (await_user_or_silence E cfg (le_wait env)) (\<lambda>u. case u of
        RemoteHangup \<Rightarrow> andthen (end_call E ''user_hangup'' ''user_hangup'' ''user'') (ret RETURN)
      | SilenceHangsUp p \<Rightarrow> silence_hangup_branch E cfg env p
      | SilenceActivation p \<Rightarrow> silence_activation_branch E cfg env p
      | NoProgress \<Rightarrow> ret CONTINUE
      | UserFinal t \<Rightarrow> user_branch E dp cfg env t)"

section \<open>The loop and the session\<close>

datatype loop_end = Ended | Running

fun main_turn_loop :: "pyenv \<Rightarrow> pystr option \<Rightarrow> runtime_config \<Rightarrow> loop_env list \<Rightarrow> loop_end action" where
  "main_turn_loop E dp cfg [] = ask state (\<lambda>st. ret (if st = END then Ended else Running))"
| "main_turn_loop E dp cfg (env # envs) = ask state (\<lambda>st.
     if st = END then ret Ended
     else act (loop_step E dp cfg env) (\<lambda>d.
       if d = RETURN then ret Ended else main_turn_loop E dp cfg envs))"

text \<open>What precedes the \<^verbatim>\<open>try\<close>, and its body.\<close>

definition session_setup :: "int \<Rightarrow> runtime_config \<Rightarrow> unit action" where
  "session_setup budget cfg =
     andthen (upd (\<lambda>w. w\<lparr>token_budget_per_call := budget,
        extractor_role_config_id := role_config_id (extractor (pipeline cfg)),
        extractor_prompt_version_id := prompt_version_id (extractor (pipeline cfg)),
        call_started_at_monotonic := now w\<rparr>))
     (ask (\<lambda>w. (publishing w, now w)) (\<lambda>(p, t). if p then emit (PubStarted t) else ret ()))"

definition session_body :: "pyenv \<Rightarrow> pystr option \<Rightarrow> runtime_config \<Rightarrow> pystr \<Rightarrow> session_env \<Rightarrow> loop_env list
    \<Rightarrow> loop_end action" where
  "session_body E dp cfg phone env script =
     andthen subscribe_control_bridges
    (andthen (upd (\<lambda>w. w\<lparr>session_bus := start (session_bus w)\<rparr>))
    (act (dial_and_wait_connected E cfg phone env) (\<lambda>connected.
     if \<not> connected then andthen (end_call E ''no_answer'' ''no_answer'' ''ai'') (ret Ended)
     else andthen (goto E IN_CALL (lit ''connected''))
    (andthen (publish_status (lit ''connected''))
    (andthen (emit (ConfigureAmbient (ambient_audio cfg) (ambient_gain cfg)))
    (andthen (emit (SetFadeout (barge_in_fadeout_ms cfg)))
    (andthen (start_listen_pumps False)
    (act (kick_main_llm_prewarm cfg) (\<lambda>kicked.
     andthen (do_greeting E cfg env)
    (andthen (goto E IN_CALL (lit ''greeting_done''))
    (andthen (publish_status (lit ''greeting_done''))
    (andthen (reap_main_llm_prewarm E cfg env kicked)
    (andthen drain_greeting_era_asr
    (andthen start_monitors
             (main_turn_loop E dp cfg script)))))))))))))))"

text \<open>\<^verbatim>\<open>except Exception\<close>.\<close>

definition session_failed :: "pyenv \<Rightarrow> loop_end action" where
  "session_failed E =
     andthen (ask state (\<lambda>st. if st \<noteq> END then goto E END (lit ''engine_internal_error'') else ret ()))
    (andthen (upd (\<lambda>w. if hangup_cause w = None then w\<lparr>hangup_cause := Some (lit ''no_progress_timeout'')\<rparr> else w))
    (andthen (ask hangup_cause (\<lambda>h. event E ''hangup''
                [(lit ''reason'', opt_val PStr h), (lit ''initiated_by'', PStr (lit ''ai''))]))
             (ret Ended)))"

definition session_finally :: "hcall \<Rightarrow> world \<Rightarrow> world" where
  "session_finally hc w = (let w = stop_listen_pumps w in w\<lparr>session_bus := snd (snd (aclose hc (session_bus w)))\<rparr>)"

definition run_session :: "pyenv \<Rightarrow> pystr option \<Rightarrow> hcall \<Rightarrow> int \<Rightarrow> runtime_config \<Rightarrow> pystr \<Rightarrow> session_env
    \<Rightarrow> loop_env list \<Rightarrow> loop_end action" where
  "run_session E dp hc budget cfg phone env script =
     andthen (session_setup budget cfg)
       (lastly (catching (session_body E dp cfg phone env script) (\<lambda>_. session_failed E)) (session_finally hc))"

definition token_budget_exceeded :: "'a call_session_scheme \<Rightarrow> bool" where
  "token_budget_exceeded s = (total_tokens_in s + total_tokens_out s > token_budget_per_call s)"

section \<open>The steps keep the books\<close>

lemma open_call_same2 [simp]:
  "open_call E (w\<lparr>hangup_event := b1\<rparr>) = open_call E w"
  "open_call E (w\<lparr>asr_finished := b2\<rparr>) = open_call E w"
  "open_call E (w\<lparr>token_budget_per_call := i1\<rparr>) = open_call E w"
  "open_call E (w\<lparr>extractor_role_config_id := i2\<rparr>) = open_call E w"
  "open_call E (w\<lparr>extractor_prompt_version_id := i3\<rparr>) = open_call E w"
  "open_call E (w\<lparr>call_started_at_monotonic := i4\<rparr>) = open_call E w"
  by (simp_all add: open_call_def hangups_def session_inv_def warnings_def traces_ok_def)

lemma closed_call_same [simp]:
  "closed_call E (w\<lparr>monitors_on := b\<rparr>) = closed_call E w"
  "closed_call E (w\<lparr>tasks := ts\<rparr>) = closed_call E w"
  "closed_call E (w\<lparr>session_bus := bs\<rparr>) = closed_call E w"
  by (simp_all add: closed_call_def hangups_def session_inv_def warnings_def traces_ok_def)

lemma keeps_list [keep_rules]:
  "keeps E m \<Longrightarrow> (\<And>a as. keeps E (f a as)) \<Longrightarrow> keeps E (case xs of [] \<Rightarrow> m | a # as \<Rightarrow> f a as)"
  by (cases xs) auto

lemma keeps_dial [keep_rules]: "keeps E (dial_and_wait_connected E cfg ph env)"
  unfolding dial_and_wait_connected_def by (intro keep_rules)

lemma keeps_do_greeting [keep_rules]: "keeps E (do_greeting E cfg env)"
  unfolding do_greeting_def Let_def by (intro keep_rules) (simp_all add: plain_fields_def)

lemma keeps_kick [keep_rules]: "keeps E (kick_main_llm_prewarm cfg)"
  unfolding kick_main_llm_prewarm_def by (intro keep_rules) simp_all

lemma keeps_reap [keep_rules]: "keeps E (reap_main_llm_prewarm E cfg env k)"
  unfolding reap_main_llm_prewarm_def by (intro keep_rules) simp_all

lemma keeps_subscribe [keep_rules]: "keeps E subscribe_control_bridges"
  unfolding subscribe_control_bridges_def by (intro keep_rules) simp_all

lemma keeps_start_monitors [keep_rules]: "keeps E start_monitors"
  unfolding start_monitors_def by (intro keep_rules) simp_all

lemma keeps_start_listen_pumps [keep_rules]: "keeps E (start_listen_pumps b)"
  unfolding start_listen_pumps_def by (intro keep_rules) simp_all

lemma keeps_drain [keep_rules]: "keeps E drain_greeting_era_asr"
  unfolding drain_greeting_era_asr_def by (intro keep_rules) simp_all

lemma keeps_silence_decision [keep_rules]:
  "keeps E a \<Longrightarrow> (\<And>p. keeps E (b p)) \<Longrightarrow> (\<And>p. keeps E (c p)) \<Longrightarrow>
   keeps E (case d of SilenceWait \<Rightarrow> a | SilenceActivate p \<Rightarrow> b p | SilenceHangup p \<Rightarrow> c p)"
  by (cases d) auto

lemma keeps_await_user [keep_rules]: "keeps E (await_user_or_silence E cfg wt)"
  unfolding await_user_or_silence_def Let_def by (intro keep_rules) simp_all

lemma ends_silence_hangup [end_rules]: "ends E returns (silence_hangup_branch E cfg env p)"
  unfolding silence_hangup_branch_def by (intro end_rules keep_rules) simp

lemma ends_silence_activation [end_rules]: "ends E returns (silence_activation_branch E cfg env p)"
  unfolding silence_activation_branch_def by (intro end_rules keep_rules) (simp_all add: plain_fields_def)

lemma ends_processing [end_rules]: "ends E returns (processing_branch E dp cfg env u b)"
  unfolding processing_branch_def by (intro end_rules keep_rules) simp_all

lemma ends_user [end_rules]: "ends E returns (user_branch E dp cfg env u)"
  unfolding user_branch_def by (intro end_rules keep_rules) (simp_all add: plain_fields_def)

lemma ends_user_await [end_rules]:
  "(\<And>t. ends E stop (a t)) \<Longrightarrow> (\<And>p. ends E stop (b p)) \<Longrightarrow> (\<And>p. ends E stop (c p)) \<Longrightarrow> ends E stop d \<Longrightarrow> ends E stop e \<Longrightarrow>
   ends E stop (case u of UserFinal t \<Rightarrow> a t | SilenceActivation p \<Rightarrow> b p | SilenceHangsUp p \<Rightarrow> c p | RemoteHangup \<Rightarrow> d
     | NoProgress \<Rightarrow> e)"
  by (cases u) auto

lemma ends_loop_step [end_rules]: "ends E returns (loop_step E dp cfg env)"
  unfolding loop_step_def by (intro end_rules keep_rules) simp_all

abbreviation over :: "loop_end \<Rightarrow> bool" where
  "over e \<equiv> e = Ended"

lemma ends_then:
  assumes m: "ends E returns m" and n: "ends E over n"
  shows "ends E over (act m (\<lambda>d. if d = RETURN then ret Ended else n))"
proof (rule endsI)
  fix w r w' assume o: "open_call E w" and r: "act m (\<lambda>d. if d = RETURN then ret Ended else n) w = (r, w')"
  obtain q v where q: "m w = (q, v)" by fastforce
  note d = endsD [OF m o q] ends_id [OF m o q]
  show "call_record_id w' = call_record_id w
      \<and> (case r of Ret a \<Rightarrow> if over a then closed_call E w' else open_call E w' | _ \<Rightarrow> open_call E w')"
  proof (cases "q = Ret CONTINUE")
    case True
    then have v: "open_call E v" and nv: "n v = (r, w')" using d r q by (simp_all add: act_def)
    show ?thesis using endsD [OF n v nv] ends_id [OF n v nv] d(2) by simp
  next
    case False
    then show ?thesis using d r q by (cases q; cases "the (case q of Ret a \<Rightarrow> Some a | _ \<Rightarrow> None)") (auto simp: act_def ret_def)
  qed
qed

lemma ends_main_turn_loop [end_rules]: "ends E over (main_turn_loop E dp cfg envs)"
proof (induction envs)
  case Nil
  show ?case by (simp add: ends_def ask_def ret_def open_call_def)
next
  case (Cons env envs)
  have "ends E over (act (loop_step E dp cfg env) (\<lambda>d. if d = RETURN then ret Ended else main_turn_loop E dp cfg envs))"
    by (rule ends_then [OF ends_loop_step Cons.IH])
  then show ?case by (auto simp: ends_def ask_def open_call_def)
qed

lemma ends_session_body: "ends E over (session_body E dp cfg ph env script)"
  unfolding session_body_def by (intro end_rules keep_rules) simp_all

lemma session_failed_closes:
  assumes "open_call E w"
  shows "\<exists>w'. session_failed E w = (Ret Ended, w') \<and> closed_call E w' \<and> call_record_id w' = call_record_id w"
proof -
  define v where "v = transition_to E (now w) END (Some (lit ''engine_internal_error'')) w"
  define v1 where "v1 = (if hangup_cause v = None then v\<lparr>hangup_cause := Some (lit ''no_progress_timeout'')\<rparr> else v)"
  let ?kvs = "[(lit ''reason'', opt_val PStr (hangup_cause v1)), (lit ''initiated_by'', PStr (lit ''ai''))]"
  have "state w \<noteq> END" using assms by (simp add: open_call_def)
  then have "session_failed E w = (Ret Ended, record_event E (now v1) ''hangup'' ?kvs v1)"
    by (simp add: session_failed_def act_def ask_def goto_def upd_def event_def ret_def v_def v1_def)
  moreover have "closed_call E (record_event E (now v1) ''hangup'' ?kvs v1)"
    by (rule close_open [OF assms, of _ _ "now w" "Some (lit ''engine_internal_error'')"])
      (auto simp: v1_def v_def plain_fields_def books_def hangups_def)
  moreover have "call_record_id v1 = call_record_id w" by (simp add: v1_def v_def)
  ultimately show ?thesis by simp
qed

section \<open>Properties\<close>

lemma session_finally_keeps [simp]:
  "open_call E (session_finally hc w) = open_call E w" "closed_call E (session_finally hc w) = closed_call E w"
  "call_record_id (session_finally hc w) = call_record_id w"
  by (simp_all add: session_finally_def stop_listen_pumps_def Let_def)

lemma keeps_session_setup: "keeps E (session_setup b cfg)"
  unfolding session_setup_def by (intro keep_rules) simp_all

lemma run_session_ends:
  assumes "open_call E w" "run_session E dp hc budget cfg phone env script w = (r, w')"
  shows "(case r of Ret Ended \<Rightarrow> closed_call E w' | Ret Running \<Rightarrow> open_call E w' | Cancelled \<Rightarrow> open_call E w'
      | Raised _ \<Rightarrow> False) \<and> call_record_id w' = call_record_id w"
proof -
  obtain v where s1: "session_setup budget cfg w = (Ret (), v)"
    by (cases "publishing w") (auto simp: session_setup_def act_def upd_def ask_def emit_def ret_def)
  have v: "open_call E v" "call_record_id v = call_record_id w"
    by (rule keepsD [OF keeps_session_setup assms(1) s1], rule keeps_id [OF keeps_session_setup assms(1) s1])
  obtain q u where b: "session_body E dp cfg phone env script v = (q, u)" by fastforce
  note d = endsD [OF ends_session_body v(1) b] ends_id [OF ends_session_body v(1) b] v(2)
  have run: "(r, w') = (case catching (session_body E dp cfg phone env script) (\<lambda>_. session_failed E) v of
      (r, w') \<Rightarrow> (r, session_finally hc w'))"
    using assms(2) by (simp add: run_session_def act_def s1 lastly_def)
  show ?thesis
  proof (cases q)
    case (Ret e)
    with run b d show ?thesis by (cases e) (simp_all add: catching_def)
  next
    case (Raised e)
    then obtain x where "session_failed E u = (Ret Ended, x)" "closed_call E x" "call_record_id x = call_record_id u"
      using session_failed_closes [of E u] d by auto
    with run b Raised d show ?thesis by (simp add: catching_def)
  next
    case Cancelled
    with run b d show ?thesis by (simp add: catching_def)
  qed
qed

text \<open>C1. A call always ends properly. Whatever the line, the models, the voice and the telephony do,
  \<^verbatim>\<open>run_session\<close> never raises; when it returns, the call is closed: state \<open>END\<close>, a hang-up cause, exactly
  one hang-up event, at the end of the transcript, the dialogue consistent with the transcript and
  the state history connected. Only a cancellation leaves it unclosed, and then nothing was
  recorded as ended.\<close>

theorem run_session_closes:
  assumes "open_call E w" "run_session E dp hc budget cfg phone env script w = (r, w')"
  shows "case r of Ret Ended \<Rightarrow> closed_call E w' | Ret Running \<Rightarrow> open_call E w' | Cancelled \<Rightarrow> open_call E w'
    | Raised _ \<Rightarrow> False"
  using run_session_ends [OF assms] by simp

definition demo_session :: session_env where
  "demo_session = \<lparr>dial_error = None, dial_wait = play_wait (calm 0 NoCancel), dial_events = [lit ''connected''],
     greet_wait = play_wait (calm 0 NoCancel), greet_chat = None, greet_play = calm 0 NoCancel,
     prewarm_wait = play_wait (calm 0 NoCancel)\<rparr>"

definition silent_step :: "clock \<Rightarrow> clock \<Rightarrow> loop_env" where
  "silent_step t1 t2 = \<lparr>le_wait = play_wait (calm t1 NoCancel), le_play = calm t2 NoCancel,
     le_handoff = te_handoff demo_turn, le_draw = 0, le_turn = demo_turn\<rparr>"

theorem run_session_closes_witness:
  "\<exists>r w'. run_session demo_env None (\<lambda>_ _. ([], HOk)) 50000 demo_config (lit ''123'') demo_session
       [silent_step 6000000000 7000000000] demo_world = (r, w')
     \<and> open_call demo_env demo_world
     \<and> (case r of Ret Ended \<Rightarrow> closed_call demo_env w' | Ret Running \<Rightarrow> open_call demo_env w'
        | Cancelled \<Rightarrow> open_call demo_env w' | Raised _ \<Rightarrow> False)"
proof -
  obtain r w' where r: "run_session demo_env None (\<lambda>_ _. ([], HOk)) 50000 demo_config (lit ''123'') demo_session
       [silent_step 6000000000 7000000000] demo_world = (r, w')" by fastforce
  show ?thesis using run_session_closes [OF demo_world_open r] r demo_world_open by blast
qed

subsection \<open>The greeting\<close>

lemma arrive_unmonitored:
  "\<not> monitors_on w \<Longrightarrow> \<not> monitors_on (arrive E icfg a w)
     \<and> current_speaking_task (arrive E icfg a w) = current_speaking_task w
     \<and> interruption_signaled (arrive E icfg a w) = interruption_signaled w"
  by (cases a) (simp_all add: asr_pump_step_def ev_pump_step_def bridge_final_def bridge_partial_def bridge_hangup_def
      advance_def)

lemma arrivals_unmonitored:
  "\<not> monitors_on w \<Longrightarrow> \<not> monitors_on (fold (arrive E icfg) as w)
     \<and> current_speaking_task (fold (arrive E icfg) as w) = current_speaking_task w
     \<and> interruption_signaled (fold (arrive E icfg) as w) = interruption_signaled w"
  by (induction as arbitrary: w) (simp_all add: arrive_unmonitored)

lemma suspend_unmonitored:
  assumes "\<not> monitors_on w" "cancel_at wt = NoCancel"
  shows "\<exists>w'. suspend E icfg wt w = (False, w') \<and> \<not> monitors_on w'
    \<and> current_speaking_task w' = current_speaking_task w \<and> interruption_signaled w' = interruption_signaled w"
  using arrivals_unmonitored [OF assms(1)] assms(2) by (simp add: suspend_def deliver_cancel_def advance_def)

lemma play_chunks_unmonitored:
  assumes "\<not> monitors_on w" "cancel_at (play_wait p) = NoCancel" "play_error p = None"
  shows "\<exists>w'. play_chunks E icfg p i w = (Ret True, w') \<and> \<not> monitors_on w'
    \<and> interruption_signaled w' = interruption_signaled w"
proof -
  let ?w1 = "if i then w\<lparr>current_speaking_task := Some TaskRunning\<rparr> else w"
  have "\<not> monitors_on ?w1" using assms(1) by simp
  from suspend_unmonitored [OF this assms(2), of E icfg] obtain w2
    where s: "suspend E icfg (play_wait p) ?w1 = (False, w2)" "\<not> monitors_on w2"
      "current_speaking_task w2 = current_speaking_task ?w1" "interruption_signaled w2 = interruption_signaled ?w1"
    by blast
  then show ?thesis by (cases i) (simp_all add: play_chunks_def assms(3))
qed

text \<open>The greeting is not interruptible: with the monitors not yet started, it plays to its end
  whatever the customer says meanwhile, no interruption is signalled, and after the drain
  nothing that was recognised during it is left for the first turn.\<close>

theorem greeting_plays_in_full:
  assumes "\<not> monitors_on w" "fixed_greeting cfg = Some g" "g \<noteq> []"
    and "cancel_at (play_wait (greet_play env)) = NoCancel" "play_error (greet_play env) = None"
  shows "\<exists>w'. andthen (do_greeting E cfg env) drain_greeting_era_asr w = (Ret (), w')
    \<and> last (effects w') = PlayedOut g True \<and> interruption_signaled w' = interruption_signaled w
    \<and> finals w' = [] \<and> partials w' = [] \<and> current_user_speech_started_ms w' = None"
proof -
  obtain c cs where g: "g = c # cs" using assms(3) by (cases g) auto
  let ?w = "record_event E (now w) ''greeting'' [(lit ''text'', PStr g)] w"
  have "\<not> monitors_on ?w" using assms(1) by simp
  from play_chunks_unmonitored [OF this assms(4,5), of E "interruption cfg" True] obtain v
    where "play_chunks E (interruption cfg) (greet_play env) True ?w = (Ret True, v)"
      "interruption_signaled v = interruption_signaled w" by auto
  then show ?thesis
    using assms(2) g
    by (simp add: do_greeting_def generate_greeting_def Let_def act_def event_def upd_def ret_def play_tts_def emit_def
        drain_greeting_era_asr_def)
qed

theorem greeting_plays_in_full_witness:
  "\<exists>w'. \<not> monitors_on (demo_world\<lparr>monitors_on := False\<rparr>)
     \<and> andthen (do_greeting demo_env demo_config demo_session) drain_greeting_era_asr (demo_world\<lparr>monitors_on := False\<rparr>)
        = (Ret (), w') \<and> last (effects w') = PlayedOut (lit ''hello'') True \<and> finals w' = []"
  using greeting_plays_in_full [of "demo_world\<lparr>monitors_on := False\<rparr>" demo_config "lit ''hello''" demo_session demo_env]
  by (auto simp: demo_config_def demo_session_def calm_def)

subsection \<open>A silent line\<close>

definition quiet_wait :: "wait \<Rightarrow> bool" where
  "quiet_wait wt \<longleftrightarrow> arrivals wt = [] \<and> cancel_at wt = NoCancel"

definition quiet_play :: "play \<Rightarrow> bool" where
  "quiet_play p \<longleftrightarrow> quiet_wait (play_wait p) \<and> play_error p = None"

text \<open>From \<open>t\<close> on nobody speaks, nothing fails, and each wait lasts at least the silence threshold.\<close>

fun quiet_line :: "int \<Rightarrow> clock \<Rightarrow> loop_env list \<Rightarrow> bool" where
  "quiet_line threshold t [] = True"
| "quiet_line threshold t (e # es) =
     (quiet_wait (le_wait e) \<and> quiet_play (le_play e) \<and> t + threshold * 1000000 \<le> resumed (le_wait e)
      \<and> quiet_line threshold (max (resumed (le_wait e)) (resumed (play_wait (le_play e)))) es)"

lemma suspend_quiet: "quiet_wait wt \<Longrightarrow> suspend E icfg wt w = (False, advance (resumed wt) w)"
  by (simp add: quiet_wait_def suspend_def deliver_cancel_def)

lemma await_quiet: "quiet_wait wt \<Longrightarrow> await E icfg wt w = (Ret (), advance (resumed wt) w)"
  by (simp add: await_def suspend_quiet)

lemma play_tts_quiet:
  assumes "quiet_play p" "current_speaking_task w = None"
  shows "play_tts E icfg p txt True w = (Ret True, (advance (resumed (play_wait p)) w)
     \<lparr>last_tts_end_at := Some (max (now w) (resumed (play_wait p))), effects := effects w @ [PlayedOut txt True]\<rparr>)"
  using assms suspend_quiet [of "play_wait p" E icfg]
  by (simp add: quiet_play_def play_tts_def play_chunks_def act_def emit_def upd_def ret_def advance_def)

definition listening :: "pyenv \<Rightarrow> world \<Rightarrow> bool" where
  "listening E w \<longleftrightarrow> open_call E w \<and> \<not> hangup_event w \<and> finals w = [] \<and> \<not> in_wrap_up w"

lemma elapsed_at_least:
  assumes "0 \<le> th" "a + th * 1000000 \<le> b"
  shows "th \<le> elapsed_ms a (max a b)"
proof -
  have "a \<le> b" using assms by linarith
  moreover have "th * 1000000 div 1000000 \<le> (b - a) div 1000000" using assms by (intro zdiv_mono1) linarith+
  ultimately show ?thesis using assms by (simp add: elapsed_ms_def to_ms_def trunc_div_def)
qed

text \<open>What a silent wait decides.\<close>

lemma await_silent:
  assumes "listening E w" "quiet_wait wt" "0 \<le> threshold_ms (silence cfg)"
    and "now w + threshold_ms (silence cfg) * 1000000 \<le> resumed wt"
  shows "await_user_or_silence E cfg wt w =
    (Ret (if int (silence_activation_count w) < max_activations (silence cfg)
          then SilenceActivation (if silence_phrases (silence cfg) = [] then []
            else silence_phrases (silence cfg) !
              min (silence_activation_count w) (length (silence_phrases (silence cfg)) - 1))
          else SilenceHangsUp (Some (hangup_phrase (silence cfg)))), advance (resumed wt) w)"
proof -
  have "evaluate_silence (elapsed_ms (now w) (max (now w) (resumed wt))) (silence_activation_count w) (silence cfg) False =
     (if int (silence_activation_count w) < max_activations (silence cfg)
      then SilenceActivate (if silence_phrases (silence cfg) = [] then []
            else silence_phrases (silence cfg) !
              min (silence_activation_count w) (length (silence_phrases (silence cfg)) - 1))
      else SilenceHangup (Some (hangup_phrase (silence cfg))))"
    by (rule evaluate_silence_ladder, rule elapsed_at_least) (use assms in simp_all)
  then show ?thesis
    using assms(1,2)
    by (simp add: await_user_or_silence_def ask_def act_def ret_def listening_def await_quiet advance_def)
qed

lemma silent_activation:
  assumes "listening E w" "quiet_line (threshold_ms (silence cfg)) (now w) (e # es)" "0 \<le> threshold_ms (silence cfg)"
    and "int (silence_activation_count w) < max_activations (silence cfg)"
  shows "\<exists>w'. loop_step E dp cfg e w = (Ret CONTINUE, w') \<and> listening E w'
    \<and> silence_activation_count w' = Suc (silence_activation_count w) \<and> quiet_line (threshold_ms (silence cfg)) (now w') es"
proof -
  let ?p = "if silence_phrases (silence cfg) = [] then []
    else silence_phrases (silence cfg) ! min (silence_activation_count w) (length (silence_phrases (silence cfg)) - 1)"
  let ?w1 = "advance (resumed (le_wait e)) w"
  have q: "quiet_wait (le_wait e)" "quiet_play (le_play e)"
      "now w + threshold_ms (silence cfg) * 1000000 \<le> resumed (le_wait e)"
    using assms(2) by simp_all
  have a: "loop_step E dp cfg e w = silence_activation_branch E cfg e ?p ?w1"
    using await_silent [OF assms(1) q(1) assms(3) q(3)] assms(4) by (simp add: loop_step_def act_def)
  obtain w' where w': "silence_activation_branch E cfg e ?p ?w1 = (Ret CONTINUE, w')"
      "silence_activation_count w' = Suc (silence_activation_count w)" "hangup_event w' = hangup_event w"
      "finals w' = finals w" "in_wrap_up w' = in_wrap_up w"
      "now w' = max (max (now w) (resumed (le_wait e))) (resumed (play_wait (le_play e)))"
    using assms(1) q(2)
    by (simp add: silence_activation_branch_def act_def goto_def upd_def ask_def event_def ret_def play_tts_quiet
        advance_def listening_def open_call_def)
  have "open_call E w'"
    using endsD [OF ends_loop_step [of E dp cfg e] _ a [unfolded w'(1)]] assms(1) by (simp add: listening_def)
  moreover have "now w \<le> resumed (le_wait e)" using q(3) assms(3) by linarith
  ultimately show ?thesis
    using a w' assms(1,2) by (simp add: listening_def max_def)
qed

lemma silent_hangup:
  assumes "listening E w" "quiet_line (threshold_ms (silence cfg)) (now w) (e # es)" "0 \<le> threshold_ms (silence cfg)"
    and "\<not> int (silence_activation_count w) < max_activations (silence cfg)"
  shows "\<exists>w'. loop_step E dp cfg e w = (Ret RETURN, w') \<and> hangup_cause w' = Some (lit ''silence_max_reached'')"
proof -
  let ?p = "Some (hangup_phrase (silence cfg))"
  let ?w1 = "advance (resumed (le_wait e)) w"
  have q: "quiet_wait (le_wait e)" "quiet_play (le_play e)"
      "now w + threshold_ms (silence cfg) * 1000000 \<le> resumed (le_wait e)"
    using assms(2) by simp_all
  have "loop_step E dp cfg e w = silence_hangup_branch E cfg e ?p ?w1"
    using await_silent [OF assms(1) q(1) assms(3) q(3)] assms(4) by (simp add: loop_step_def act_def)
  moreover have "\<exists>w'. silence_hangup_branch E cfg e ?p ?w1 = (Ret RETURN, w')
      \<and> hangup_cause w' = Some (lit ''silence_max_reached'')"
    using assms(1) q(2)
    by (simp add: silence_hangup_branch_def act_def goto_def upd_def ask_def event_def ret_def play_tts_quiet
        advance_def listening_def open_call_def end_call_def)
  ultimately show ?thesis by metis
qed

text \<open>C6. On a silent line the call comes to an end: after the configured number of activations, one
  more silence closes it with the cause \<open>silence_max_reached\<close>.\<close>

theorem silence_ends_call:
  assumes "listening E w" "0 \<le> threshold_ms (silence cfg)"
    and "quiet_line (threshold_ms (silence cfg)) (now w) es" "es \<noteq> []"
    and "max_activations (silence cfg) - int (silence_activation_count w) < int (length es)"
  shows "\<exists>w'. main_turn_loop E dp cfg es w = (Ret Ended, w') \<and> closed_call E w'
    \<and> hangup_cause w' = Some (lit ''silence_max_reached'')"
  using assms
proof (induction es arbitrary: w)
  case (Cons e es)
  have st: "state w \<noteq> END" using Cons.prems(1) by (simp add: listening_def open_call_def)
  show ?case
  proof (cases "int (silence_activation_count w) < max_activations (silence cfg)")
    case True
    from silent_activation [OF Cons.prems(1,3,2) True, of dp] obtain w1 where w1:
      "loop_step E dp cfg e w = (Ret CONTINUE, w1)" "listening E w1"
      "silence_activation_count w1 = Suc (silence_activation_count w)"
      "quiet_line (threshold_ms (silence cfg)) (now w1) es" by blast
    have "es \<noteq> []" using True Cons.prems(5) by (cases es) simp_all
    moreover have "max_activations (silence cfg) - int (silence_activation_count w1) < int (length es)"
      using Cons.prems(5) w1(3) by simp
    ultimately obtain w' where "main_turn_loop E dp cfg es w1 = (Ret Ended, w')" "closed_call E w'"
        "hangup_cause w' = Some (lit ''silence_max_reached'')"
      using Cons.IH [OF w1(2) Cons.prems(2) w1(4)] by blast
    with st w1(1) show ?thesis by (simp add: ask_def act_def)
  next
    case False
    from silent_hangup [OF Cons.prems(1,3,2) False, of dp] obtain w1 where w1:
      "loop_step E dp cfg e w = (Ret RETURN, w1)" "hangup_cause w1 = Some (lit ''silence_max_reached'')" by blast
    then have "closed_call E w1"
      using endsD [OF ends_loop_step _ w1(1)] Cons.prems(1) by (simp add: listening_def)
    with st w1 show ?thesis by (simp add: ask_def act_def ret_def)
  qed
qed simp

theorem silence_ends_call_witness:
  "listening demo_env demo_world \<and>
   (\<exists>w'. main_turn_loop demo_env None demo_config
      [silent_step 6000000000 7000000000, silent_step 13000000000 14000000000, silent_step 20000000000 21000000000]
      demo_world = (Ret Ended, w') \<and> closed_call demo_env w' \<and> hangup_cause w' = Some (lit ''silence_max_reached''))"
proof -
  have l: "listening demo_env demo_world"
    using demo_world_open by (simp add: listening_def demo_world_def new_world_def new_session_def call_session.defs)
  have c: "silence_activation_count demo_world = 0" "now demo_world = 0"
    by (simp_all add: demo_world_def new_world_def new_session_def call_session.defs)
  have "quiet_line 5000 0 [silent_step 6000000000 7000000000, silent_step 13000000000 14000000000,
      silent_step 20000000000 21000000000]"
    by (simp add: silent_step_def calm_def quiet_wait_def quiet_play_def)
  then show ?thesis
    using silence_ends_call [OF l, of demo_config "[silent_step 6000000000 7000000000,
        silent_step 13000000000 14000000000, silent_step 20000000000 21000000000]" None] l c
    by (simp add: demo_config_def)
qed

subsection \<open>The length of a wrap-up\<close>

text \<open>Actions that leave the count of wrap-up rounds alone.\<close>

named_theorems leave_rules \<open>actions that leave the round count alone\<close>

definition leaves :: "'a action \<Rightarrow> bool" where
  "leaves m \<longleftrightarrow> (\<forall>w. wrap_up_round_count (snd (m w)) = wrap_up_round_count w)"

lemma leavesD: "leaves m \<Longrightarrow> m w = (r, w') \<Longrightarrow> wrap_up_round_count w' = wrap_up_round_count w"
  by (metis leaves_def snd_conv)

lemma leaves_ret [leave_rules]: "leaves (ret a)"
  by (simp add: leaves_def ret_def)

lemma leaves_act [leave_rules]: "leaves m \<Longrightarrow> (\<And>a. leaves (f a)) \<Longrightarrow> leaves (act m f)"
  by (auto simp: leaves_def act_def split: outcome.splits prod.splits) (metis snd_conv)+

lemma leaves_catching [leave_rules]: "leaves m \<Longrightarrow> (\<And>e. leaves (h e)) \<Longrightarrow> leaves (catching m h)"
  by (auto simp: leaves_def catching_def split: outcome.splits prod.splits) (metis snd_conv)+

lemma leaves_ask [leave_rules]: "(\<And>x. leaves (k x)) \<Longrightarrow> leaves (ask g k)"
  by (simp add: leaves_def ask_def)

lemma leaves_if [leave_rules]: "leaves m \<Longrightarrow> leaves n \<Longrightarrow> leaves (if b then m else n)"
  by simp

lemma leaves_option [leave_rules]: "leaves m \<Longrightarrow> (\<And>a. leaves (f a)) \<Longrightarrow> leaves (case x of None \<Rightarrow> m | Some a \<Rightarrow> f a)"
  by (cases x) auto

lemma leaves_prod [leave_rules]: "(\<And>a b. leaves (f a b)) \<Longrightarrow> leaves (case x of (a, b) \<Rightarrow> f a b)"
  by (cases x) auto

lemma leaves_sum [leave_rules]: "(\<And>a. leaves (f a)) \<Longrightarrow> (\<And>b. leaves (g b)) \<Longrightarrow> leaves (case x of Inl a \<Rightarrow> f a | Inr b \<Rightarrow> g b)"
  by (cases x) auto

lemma leaves_play_end [leave_rules]:
  "leaves a \<Longrightarrow> (\<And>k. leaves (b k)) \<Longrightarrow> (\<And>k e. leaves (c k e)) \<Longrightarrow>
   leaves (case x of PlayedAll \<Rightarrow> a | BargedIn k \<Rightarrow> b k | PlayFailed k e \<Rightarrow> c k e)"
  by (cases x) auto

lemma leaves_silence_decision [leave_rules]:
  "leaves a \<Longrightarrow> (\<And>p. leaves (b p)) \<Longrightarrow> (\<And>p. leaves (c p)) \<Longrightarrow>
   leaves (case d of SilenceWait \<Rightarrow> a | SilenceActivate p \<Rightarrow> b p | SilenceHangup p \<Rightarrow> c p)"
  by (cases d) auto

lemma leaves_lift_res [leave_rules]: "leaves (lift_res r)"
  by (simp add: leaves_def lift_res_def)

lemma leaves_upd [leave_rules]: "(\<And>w. wrap_up_round_count (f w) = wrap_up_round_count w) \<Longrightarrow> leaves (upd f)"
  by (simp add: leaves_def upd_def)

lemma leaves_small [leave_rules]:
  "leaves (event E ty kvs)" "leaves (goto E st why)" "leaves (emit ef)" "leaves (add_trace tr)" "leaves (set_last_trace k v)"
  "leaves (ai_reply E t i rid g y b)" "leaves note_interruption" "leaves (add_tokens res)"
  by (auto simp: event_def goto_def emit_def add_trace_def set_last_trace_def ai_reply_def note_interruption_def
      add_tokens_def intro!: leaves_upd)

lemma leaves_await [leave_rules]: "leaves (await E icfg wt)"
proof -
  have "wrap_up_round_count w' = wrap_up_round_count w" if "suspend E icfg wt w = (b, w')" for w b w'
    using suspend_background [OF that] by (simp add: background_def books_def)
  then show ?thesis by (auto simp: leaves_def await_def split: prod.splits)
qed

lemma leaves_play_chunks [leave_rules]: "leaves (play_chunks E icfg p i)"
proof (unfold leaves_def, rule allI)
  fix w :: world
  define w1 where "w1 = (if i then w\<lparr>current_speaking_task := Some TaskRunning\<rparr> else w)"
  obtain c w2 where s: "suspend E icfg (play_wait p) w1 = (c, w2)" by fastforce
  have "wrap_up_round_count w2 = wrap_up_round_count w"
    using suspend_background [OF s] by (simp add: background_def books_def w1_def split: if_splits)
  then show "wrap_up_round_count (snd (play_chunks E icfg p i w)) = wrap_up_round_count w"
    unfolding play_chunks_def w1_def [symmetric] Let_def s by (auto split: option.splits)
qed

lemma leaves_play_tts [leave_rules]: "leaves (play_tts E icfg p t i)"
  unfolding play_tts_def by (intro leave_rules)

lemma leaves_filler_phase [leave_rules]: "leaves (filler_phase E fill d t0 env)"
  unfolding filler_phase_def
  by (intro leave_rules) (auto simp: filler_play_end_def filler_start_def new_filler_def
      split: option.splits prod.splits task_status.splits)

lemma leaves_play_jobs [leave_rules]: "leaves stop \<Longrightarrow> leaves (play_jobs E icfg env stop k ss)"
proof (induction ss arbitrary: stop k)
  case (Cons s ss)
  have "leaves (play_jobs E icfg env (ret ()) (Suc k) ss)" by (rule Cons.IH) (rule leaves_ret)
  with Cons.prems show ?case by (auto intro!: leave_rules)
qed (auto intro!: leave_rules)

lemma leaves_reply_sentences [leave_rules]: "leaves (reply_sentences E c env)"
  by (auto simp: leaves_def reply_sentences_def sentences_def ensure_reply_def Let_def split: prod.splits)

lemma leaves_play_streaming [leave_rules]: "leaves (play_streaming E icfg env st eag fill d t0)"
  unfolding play_streaming_def Let_def by (intro leave_rules) auto

lemma leaves_run_pipeline [leave_rules]: "leaves (run_pipeline c b)"
  by (auto simp: leaves_def run_pipeline_def run_pipeline_stream_def dest: start_stream_turn split: prod.splits)

lemma leaves_run_restructure [leave_rules]: "leaves (run_restructure E cfg c env t tr)"
proof -
  have "leaves (\<lambda>w. case run_restructure_stream c t w of (st, w') \<Rightarrow> (Ret st, w'))"
    by (auto simp: leaves_def run_restructure_stream_def dest: start_stream_turn split: prod.splits)
  then show ?thesis unfolding run_restructure_def by (intro leave_rules)
qed

lemma leaves_lastly [leave_rules]:
  "leaves m \<Longrightarrow> (\<And>w. wrap_up_round_count (f w) = wrap_up_round_count w) \<Longrightarrow> leaves (lastly m f)"
  by (auto simp: leaves_def lastly_def split: prod.splits) (metis snd_conv)

lemma leaves_gate [leave_rules]: "leaves (gate E cfg c env)"
  unfolding gate_def by (intro leave_rules) simp_all

lemma leaves_more [leave_rules]:
  "leaves (perform_handoff E icfg sc ty d p)" "leaves (resolve_transfer_llm E cfg env b)" "leaves (override_action c rs a)"
  "leaves (await_wrap_referee E cfg env)" "leaves (referee_end E why)" "leaves (end_call E y z x)"
  "leaves (enter_wrap_up E cfg g)" "leaves (publish_status ps)"
  unfolding perform_handoff_def resolve_transfer_llm_def override_action_def await_wrap_referee_def referee_end_def
    end_call_def enter_wrap_up_def publish_status_def attempt_hangup_def
  by (intro leave_rules; simp add: leaves_def)+

lemma leaves_take_interrupt_text [leave_rules]: "leaves (take_interrupt_text so)"
  by (auto simp: leaves_def take_interrupt_text_def assemble_interrupt_text_def Let_def split: option.splits)

lemma leaves_routes [leave_rules]:
  "leaves tr \<Longrightarrow> leaves (tool_route E cfg env sel tr)"
  "(\<And>t. leaves (trt t)) \<Longrightarrow> leaves (restructure_route E cfg c env sel trt)"
  unfolding tool_route_def restructure_route_def Let_def by (intro leave_rules; simp)+

lemma leaves_dialogue_turn [leave_rules]:
  "(\<And>st res fa. leaves (tr st res fa)) \<Longrightarrow> leaves (dialogue_turn E cfg c cand sel tr fill t0)"
  by (cases cand) (auto simp: dialogue_turn_def Let_def split: prod.split intro!: leave_rules)

lemma leaves_gated_turn: "leaves (run_gated_turn E dp cfg c env u ts t0 False fill spawned)"
  unfolding run_gated_turn_def route_turn_def abort_turn_def Let_def if_False by (intro leave_rules)

text \<open>A wrap-up turn adds at most one round, and continues after a new round only below the limit.\<close>

definition round_ok :: "runtime_config \<Rightarrow> directive outcome \<Rightarrow> int \<Rightarrow> int \<Rightarrow> bool" where
  "round_ok cfg r n n' \<longleftrightarrow> n' = n \<or> (n' = n + 1 \<and> (r = Ret CONTINUE \<longrightarrow> n' < max_rounds (wrap_up cfg)))"

definition bounded :: "runtime_config \<Rightarrow> directive action \<Rightarrow> bool" where
  "bounded cfg m \<longleftrightarrow> (\<forall>w. round_ok cfg (fst (m w)) (wrap_up_round_count w) (wrap_up_round_count (snd (m w))))"

named_theorems bound_rules \<open>actions that respect the round limit\<close>

lemma bounded_leaves: "leaves m \<Longrightarrow> bounded cfg m"
  by (simp add: bounded_def leaves_def round_ok_def)

lemma bounded_act [bound_rules]:
  assumes "leaves m" "\<And>a. bounded cfg (f a)"
  shows "bounded cfg (act m f)"
proof (unfold bounded_def, rule allI)
  fix w
  obtain r v where m: "m w = (r, v)" by fastforce
  have v: "wrap_up_round_count v = wrap_up_round_count w" by (rule leavesD [OF assms(1) m])
  show "round_ok cfg (fst (act m f w)) (wrap_up_round_count w) (wrap_up_round_count (snd (act m f w)))"
  proof (cases r)
    case (Ret a)
    have "round_ok cfg (fst (f a v)) (wrap_up_round_count v) (wrap_up_round_count (snd (f a v)))"
      using assms(2) by (simp add: bounded_def)
    then show ?thesis using v by (simp add: act_def m Ret)
  qed (simp_all add: act_def m v round_ok_def)
qed

lemma bounded_ask [bound_rules]: "(\<And>x. bounded cfg (k x)) \<Longrightarrow> bounded cfg (ask g k)"
  by (simp add: bounded_def ask_def)

lemma bounded_if [bound_rules]: "bounded cfg m \<Longrightarrow> bounded cfg n \<Longrightarrow> bounded cfg (if b then m else n)"
  by simp

lemma bounded_option [bound_rules]:
  "bounded cfg m \<Longrightarrow> (\<And>a. bounded cfg (f a)) \<Longrightarrow> bounded cfg (case x of None \<Rightarrow> m | Some a \<Rightarrow> f a)"
  by (cases x) auto

lemma bounded_prod [bound_rules]: "(\<And>a b. bounded cfg (f a b)) \<Longrightarrow> bounded cfg (case x of (a, b) \<Rightarrow> f a b)"
  by (cases x) auto

lemma wrap_up_round_bounded [bound_rules]: "bounded cfg (wrap_up_round E cfg env)"
proof (unfold bounded_def, rule allI)
  fix w :: world
  let ?w = "w\<lparr>wrap_up_round_count := wrap_up_round_count w + 1\<rparr>"
  let ?d = "evaluate_wrap_up (te_draw env) (wrap_up_round_count ?w) (wrap_up_started_at_monotonic ?w) (wrap_up cfg) (now ?w)"
  let ?fin = "andthen (play_tts E (interruption cfg) (te_play env) (closing_phrase ?d) True)
                (andthen (event E ''wrap_up_completed'' [(lit ''reason'', PStr (lit (wrap_reason ?d)))])
                (andthen (end_call E ''wrap_up_completed'' ''wrap_up_completed'' ''ai'') (ret RETURN)))"
  have eq: "wrap_up_round E cfg env w = (if proceed ?d then (Ret CONTINUE, ?w) else ?fin ?w)"
    by (simp add: wrap_up_round_def act_def upd_def ask_def ret_def)
  have "leaves ?fin" by (intro leave_rules)
  then have n: "wrap_up_round_count (snd (?fin ?w)) = wrap_up_round_count w + 1" by (simp add: leaves_def)
  have "fst (?fin ?w) \<noteq> Ret CONTINUE"
    by (auto simp: act_def event_def upd_def end_call_def goto_def ret_def split: prod.splits outcome.splits)
  moreover have "proceed ?d \<Longrightarrow> wrap_up_round_count w + 1 < max_rounds (wrap_up cfg)"
    by (auto simp: evaluate_wrap_up_def split: if_splits)
  ultimately show "round_ok cfg (fst (wrap_up_round E cfg env w)) (wrap_up_round_count w)
      (wrap_up_round_count (snd (wrap_up_round E cfg env w)))"
    using n by (simp add: eq round_ok_def)
qed

lemma bounded_gated_turn: "bounded cfg (run_gated_turn E dp cfg c env u ts t0 wrap fill spawned)"
proof (cases wrap)
  case True
  have "bounded cfg (gated_wrap_up_turn E cfg c env u ts t0)"
    unfolding gated_wrap_up_turn_def by (intro bound_rules leave_rules bounded_leaves) simp
  with True show ?thesis by (simp add: run_gated_turn_def)
next
  case False
  then show ?thesis using bounded_leaves [OF leaves_gated_turn] by simp
qed

lemma bounded_user_await [bound_rules]:
  "(\<And>t. bounded cfg (a t)) \<Longrightarrow> (\<And>p. bounded cfg (b p)) \<Longrightarrow> (\<And>p. bounded cfg (c p)) \<Longrightarrow> bounded cfg d \<Longrightarrow> bounded cfg e \<Longrightarrow>
   bounded cfg (case u of UserFinal t \<Rightarrow> a t | SilenceActivation p \<Rightarrow> b p | SilenceHangsUp p \<Rightarrow> c p | RemoteHangup \<Rightarrow> d
     | NoProgress \<Rightarrow> e)"
  by (cases u) auto

lemma bounded_loop_step: "bounded cfg (loop_step E dp cfg env)"
  unfolding loop_step_def user_branch_def processing_branch_def silence_hangup_branch_def silence_activation_branch_def
    await_user_or_silence_def Let_def
  by (intro bound_rules leave_rules bounded_gated_turn bounded_leaves) simp_all



end
