(* ===== verification/Call_Lifecycle.thy ===== *)
theory Call_Lifecycle
  imports Run_Loop
begin

text \<open>
  From a message on the dial queue to the end of its call: the registry of live calls
  (\<^verbatim>\<open>session_manager.py\<close>), the dial consumer (\<^verbatim>\<open>dial_consumer.py\<close>), the sequence after a call
  (\<^verbatim>\<open>call_lifecycle.py\<close>, \<^verbatim>\<open>transcript_recorder.py\<close>) and the control consumer (\<^verbatim>\<open>event_consumer.py\<close> with
  the handlers of \<^verbatim>\<open>main.py\<close>).

  \<open>engine\<close> is the state of the process together with what it writes to: the database rows, the
  Redis lists and the concurrency counter. Each attempt of a remote operation succeeds or fails
  (\<open>attempt\<close>, a function of the attempt number); a failed attempt is assumed to have had no
  effect. The validation of messages and the enumerations of \<^verbatim>\<open>isales_common\<close> are parameters.

  Shown: every accepted dial is finalized exactly once whatever its runner and the remote
  services do: it leaves the registry with a valid hang-up cause, at most one end-of-call
  message is sent, and the counter goes down by at most one; a message that cannot be
  served never stops the loop; a control message reaches only the call it names.
\<close>

section \<open>State\<close>

record call_row =
  row_lead_id :: int
  row_campaign_id :: int
  row_caller_id :: pystr
  row_status :: call_status
  row_started_at :: clock
  row_ended_at :: "clock option"
  row_duration :: "int option"
  row_transcript :: "event list"
  row_transfer_status :: pystr
  row_transfer_reason :: "pystr option"
  row_wrap_up_started_at :: "clock option"
  row_prompt_versions :: event
  row_extract_status :: "pystr option"

record engine =
  sessions :: "(int \<times> world) list"
  rows :: "int \<rightharpoonup> call_row"
  trace_rows :: "(int \<times> event) list"
  call_ended_q :: "(int \<times> pystr \<times> clock) list"
  extract_q :: "(int \<times> dialog_turn list \<times> int \<times> int) list"
  dlq :: "pystr list"
  concurrency :: int

section \<open>The registry\<close>

definition register :: "world \<Rightarrow> engine \<Rightarrow> engine" where
  "register s g = (if call_record_id s \<in> fst ` set (sessions g) then g
     else g\<lparr>sessions := sessions g @ [(call_record_id s, s)]\<rparr>)"

definition unregister :: "int \<Rightarrow> engine \<Rightarrow> world option \<times> engine" where
  "unregister cid g = (map_of (sessions g) cid, g\<lparr>sessions := filter (\<lambda>(k, _). k \<noteq> cid) (sessions g)\<rparr>)"

definition get_session :: "int \<Rightarrow> engine \<Rightarrow> world option" where
  "get_session cid g = map_of (sessions g) cid"

definition active_count :: "engine \<Rightarrow> nat" where
  "active_count g = length (sessions g)"

definition all_sessions :: "engine \<Rightarrow> world list" where
  "all_sessions g = map snd (sessions g)"

text \<open>The session object is shared: an update through any reference is an update of the entry.\<close>

definition update_session :: "int \<Rightarrow> (world \<Rightarrow> world) \<Rightarrow> engine \<Rightarrow> engine" where
  "update_session cid f g = g\<lparr>sessions := map (\<lambda>(k, s). (k, if k = cid then f s else s)) (sessions g)\<rparr>"

text \<open>\<^verbatim>\<open>cancel_all\<close>: request the cancellation of every task of every session.\<close>

definition cancel_tasks :: "world \<Rightarrow> world" where
  "cancel_tasks s = s\<lparr>tasks := (\<lambda>n. cancel_task (tasks s n))\<rparr>"

definition cancel_all :: "engine \<Rightarrow> engine" where
  "cancel_all g = g\<lparr>sessions := map (\<lambda>(k, s). (k, cancel_tasks s)) (sessions g)\<rparr>"

section \<open>Retried operations\<close>

text \<open>At most \<open>n\<close> attempts, numbered from \<open>k\<close>.\<close>

fun attempts :: "nat \<Rightarrow> (nat \<Rightarrow> bool) \<Rightarrow> nat \<Rightarrow> (engine \<Rightarrow> engine) \<Rightarrow> engine \<Rightarrow> bool \<times> engine" where
  "attempts 0 att k f g = (False, g)"
| "attempts (Suc n) att k f g = (if att k then (True, f g) else attempts n att (Suc k) f g)"

definition max_retries :: nat where "max_retries = 3"

section \<open>Persisting a call\<close>

definition reserve_call_record :: "int \<Rightarrow> int \<Rightarrow> int \<Rightarrow> pystr \<Rightarrow> event \<Rightarrow> clock \<Rightarrow> engine \<Rightarrow> engine" where
  "reserve_call_record cid ld camp caller versions t g = g\<lparr>rows := (rows g)(cid \<mapsto>
     \<lparr>row_lead_id = ld, row_campaign_id = camp, row_caller_id = caller, row_status = INIT,
      row_started_at = t, row_ended_at = None, row_duration = None, row_transcript = [],
      row_transfer_status = lit ''none'', row_transfer_reason = None, row_wrap_up_started_at = None,
      row_prompt_versions = versions, row_extract_status = None\<rparr>)\<rparr>"

definition trace_keys :: "pystr list" where
  "trace_keys = map lit [''ts_end'', ''user_input'', ''main_reply_text'', ''main_duration_ms'', ''main_first_token_ms'',
     ''main_first_sentence_ms'', ''main_tokens_in'', ''main_tokens_out'', ''matched_rule'', ''restructure_trigger'',
     ''restructure_source_text'', ''first_audio_ms'', ''error'']"

text \<open>The columns of a \<^verbatim>\<open>PipelineTrace\<close> row; a trace without a turn number raises.\<close>

definition trace_row :: "clock \<Rightarrow> event \<Rightarrow> event res" where
  "trace_row t_start tr = (case map_of tr (lit ''turn_id'') of
       None \<Rightarrow> Inl KeyError
     | Some v \<Rightarrow> (case py_int v of
           Inl e \<Rightarrow> Inl e
         | Inr i \<Rightarrow> Inr ([(lit ''turn_id'', PInt i),
             (lit ''ts_start'', py_or (dget tr (lit ''ts_start'')) (PInt t_start)),
             (lit ''main_fallback_used'', PBool (truthy (dget tr (lit ''main_fallback_used'')))),
             (lit ''referee_results'', py_or (dget tr (lit ''referee_results'')) (PList [])),
             (lit ''restructure_active'', PBool (truthy (dget tr (lit ''restructure_active''))))]
             @ map (\<lambda>k. (k, dget tr k)) trace_keys)))"

definition write_row :: "pystr list \<Rightarrow> clock \<Rightarrow> clock \<Rightarrow> world \<Rightarrow> call_row option \<Rightarrow> call_row" where
  "write_row transfer_values t_start ended s old =
     (let r = (case old of Some r \<Rightarrow> r | None \<Rightarrow>
            \<lparr>row_lead_id = lead_id s, row_campaign_id = campaign_id s, row_caller_id = caller_id s, row_status = INIT,
             row_started_at = t_start, row_ended_at = None, row_duration = None, row_transcript = [],
             row_transfer_status = lit ''none'', row_transfer_reason = None, row_wrap_up_started_at = None,
             row_prompt_versions = prompt_versions_snapshot s, row_extract_status = None\<rparr>)
      in r\<lparr>row_status := END, row_started_at := t_start, row_ended_at := Some ended,
           row_duration := Some (max 0 (trunc_div (ended - t_start) 1000000000)),
           row_transcript := full_transcript s,
           row_transfer_status := (if transfer_status s \<in> set transfer_values then transfer_status s else lit ''none''),
           row_transfer_reason := transfer_reason s,
           row_wrap_up_started_at := (case wrap_up_started_at_wallclock s of
               Some t \<Rightarrow> Some t | None \<Rightarrow> row_wrap_up_started_at r),
           row_prompt_versions := prompt_versions_snapshot s\<rparr>)"

definition write_in_transaction :: "pystr list \<Rightarrow> clock \<Rightarrow> clock \<Rightarrow> world \<Rightarrow> engine \<Rightarrow> engine res" where
  "write_in_transaction transfer_values t_start ended s g =
     (case map_res (trace_row t_start) (pipeline_trace_records s) of
        Inl e \<Rightarrow> Inl e
      | Inr ts \<Rightarrow> Inr (g\<lparr>rows := (rows g)(call_record_id s \<mapsto>
              write_row transfer_values t_start ended s (rows g (call_record_id s))),
            trace_rows := trace_rows g @ map (Pair (call_record_id s)) ts\<rparr>))"

definition persist_call_record :: "pystr list \<Rightarrow> (nat \<Rightarrow> bool) \<Rightarrow> clock \<Rightarrow> clock \<Rightarrow> world \<Rightarrow> engine \<Rightarrow> bool \<times> engine" where
  "persist_call_record transfer_values att t_start ended s g =
     (case write_in_transaction transfer_values t_start ended s g of
        Inl e \<Rightarrow> (False, g)
      | Inr g' \<Rightarrow> attempts max_retries att 1 (\<lambda>_. g') g)"

section \<open>After a call\<close>

text \<open>\<open>causes\<close> are the values of \<^verbatim>\<open>HangupCause\<close>.\<close>

definition resolve_hangup_cause :: "pystr list \<Rightarrow> 'a call_session_scheme \<Rightarrow> pystr" where
  "resolve_hangup_cause causes s =
     (let raw = str_or (hangup_cause s) (lit ''normal_clearing'')
      in if raw \<in> set causes then raw else lit ''normal_clearing'')"

definition lpush_call_ended :: "(nat \<Rightarrow> bool) \<Rightarrow> int \<Rightarrow> pystr \<Rightarrow> clock \<Rightarrow> engine \<Rightarrow> bool \<times> engine" where
  "lpush_call_ended att cid cause ended =
     attempts max_retries att 1 (\<lambda>g. g\<lparr>call_ended_q := (cid, cause, ended) # call_ended_q g\<rparr>)"

definition lpush_extract :: "(nat \<Rightarrow> bool) \<Rightarrow> bool \<Rightarrow> world \<Rightarrow> engine \<Rightarrow> bool \<times> engine" where
  "lpush_extract att marked s g =
     (let (pushed, g1) = attempts max_retries att 1 (\<lambda>g. g\<lparr>extract_q :=
            (call_record_id s, dialog_history s, extractor_role_config_id s, extractor_prompt_version_id s) # extract_q g\<rparr>) g
      in (pushed, if pushed \<and> marked
            then g1\<lparr>rows := (rows g1)(call_record_id s :=
                   map_option (\<lambda>r. r\<lparr>row_extract_status := Some (lit ''pending'')\<rparr>) (rows g1 (call_record_id s)))\<rparr>
            else g1))"

text \<open>An attempt of \<^verbatim>\<open>DECR\<close>: it fails, or it succeeds and the correction of a negative value, when it is
  needed, succeeds or fails.\<close>

datatype decr_attempt = DecrFails | DecrDone | DecrUncorrected

fun decr_attempts :: "nat \<Rightarrow> (nat \<Rightarrow> decr_attempt) \<Rightarrow> nat \<Rightarrow> engine \<Rightarrow> bool \<times> engine" where
  "decr_attempts 0 att k g = (False, g)"
| "decr_attempts (Suc n) att k g =
     (if att k = DecrFails then decr_attempts n att (Suc k) g
      else (let g1 = g\<lparr>concurrency := concurrency g - 1\<rparr> in
        if concurrency g1 \<ge> 0 then (True, g1)
        else if att k = DecrDone then (True, g1\<lparr>concurrency := 0\<rparr>)
        else decr_attempts n att (Suc k) g1))"

definition decr_concurrency :: "(nat \<Rightarrow> decr_attempt) \<Rightarrow> engine \<Rightarrow> bool \<times> engine" where
  "decr_concurrency att g = decr_attempts max_retries att 1 g"

record finalize_env =
  fe_persist :: "nat \<Rightarrow> bool"
  fe_extract :: "nat \<Rightarrow> bool"
  fe_extract_marked :: bool
  fe_call_ended :: "nat \<Rightarrow> bool"
  fe_decr :: "nat \<Rightarrow> decr_attempt"
  fe_ended_at :: clock

definition finalize_session :: "pystr list \<Rightarrow> pystr list \<Rightarrow> finalize_env \<Rightarrow> clock \<Rightarrow> world \<Rightarrow> engine \<Rightarrow> engine" where
  "finalize_session causes transfer_values env t_start s0 g0 =
     (let cause = resolve_hangup_cause causes s0;
          s = s0\<lparr>hangup_cause := Some cause\<rparr>;
          g1 = snd (persist_call_record transfer_values (fe_persist env) t_start (fe_ended_at env) s g0);
          g2 = (if extractor_role_config_id s \<noteq> 0 \<and> dialog_history s \<noteq> []
                then snd (lpush_extract (fe_extract env) (fe_extract_marked env) s g1) else g1);
          g3 = snd (lpush_call_ended (fe_call_ended env) (call_record_id s) cause (fe_ended_at env) g2);
          g4 = snd (decr_concurrency (fe_decr env) g3)
      in snd (unregister (call_record_id s) g4))"

section \<open>The dial consumer\<close>

definition peek_schema_version :: "pyenv \<Rightarrow> pystr \<Rightarrow> int option" where
  "peek_schema_version E raw = (case json_loads E raw of
       Some (PDict d) \<Rightarrow> (case dget d (lit ''schema_version'') of
           PInt i \<Rightarrow> Some i | PBool b \<Rightarrow> Some (if b then 1 else 0) | _ \<Rightarrow> None)
     | _ \<Rightarrow> None)"

definition SUPPORTED_SCHEMA_VERSIONS :: "int set" where
  "SUPPORTED_SCHEMA_VERSIONS = {1}"

text \<open>What the consumer reads of a validated \<^verbatim>\<open>DialRequest\<close>.\<close>

record dial_request =
  dr_lead_id :: int
  dr_campaign_id :: int
  dr_caller_id :: pystr
  dr_versions :: event
  dr_device_id :: int

text \<open>The environment of one message: whether the dead-letter push works, the row identifier the
  database returns (\<open>None\<close> for an error), and the clock.\<close>

record dial_env =
  de_dlq_ok :: bool
  de_record_id :: "int option"
  de_now :: clock
  de_publishing :: bool

definition push_dlq :: "bool \<Rightarrow> pystr \<Rightarrow> engine \<Rightarrow> world option res \<times> engine" where
  "push_dlq ok raw g = (if ok then (Inr None, g\<lparr>dlq := raw # dlq g\<rparr>) else (Inl (OtherErr (lit ''redis'')), g))"

definition session_for :: "int \<Rightarrow> dial_request \<Rightarrow> dial_env \<Rightarrow> world" where
  "session_for cid req env =
     (new_world (new_session cid (dr_campaign_id req) (dr_lead_id req) (dr_caller_id req) (dr_versions req) (de_now env))
        (de_now env) (de_publishing env))\<lparr>device_id := dr_device_id req, tasks := [''main'' \<mapsto> TaskRunning]\<rparr>"

definition handle_dial :: "pyenv \<Rightarrow> (pystr \<Rightarrow> dial_request option) \<Rightarrow> dial_env \<Rightarrow> pystr \<Rightarrow> engine
    \<Rightarrow> world option res \<times> engine" where
  "handle_dial E parse_dial env raw g =
     (case peek_schema_version E raw of
        None \<Rightarrow> push_dlq (de_dlq_ok env) raw g
      | Some sv \<Rightarrow>
          if sv \<notin> SUPPORTED_SCHEMA_VERSIONS then push_dlq (de_dlq_ok env) raw g
          else case parse_dial raw of
            None \<Rightarrow> push_dlq (de_dlq_ok env) raw g
          | Some req \<Rightarrow> (case de_record_id env of
                None \<Rightarrow> push_dlq (de_dlq_ok env) raw g
              | Some cid \<Rightarrow>
                  (let s = session_for cid req env;
                       g1 = reserve_call_record cid (dr_lead_id req) (dr_campaign_id req) (dr_caller_id req)
                              (dr_versions req) (de_now env) g
                   in (Inr (Some s), register s g1))))"

text \<open>How a runner ends.\<close>

datatype run_end = RunOk | RunCancelled | RunRaised

definition after_run :: "run_end \<Rightarrow> world \<Rightarrow> world" where
  "after_run r s = (case r of
       RunOk \<Rightarrow> s
     | RunCancelled \<Rightarrow> if hangup_cause s = None then s\<lparr>hangup_cause := Some (lit ''manual_hangup'')\<rparr> else s
     | RunRaised \<Rightarrow> if hangup_cause s = None then s\<lparr>hangup_cause := Some (lit ''no_progress_timeout'')\<rparr> else s)"

definition runner_with_finalize :: "pystr list \<Rightarrow> pystr list \<Rightarrow> finalize_env \<Rightarrow> clock \<Rightarrow> run_end \<times> world \<Rightarrow> engine \<Rightarrow> engine" where
  "runner_with_finalize causes transfer_values env t_start = (\<lambda>(r, s) g.
     let s1 = after_run r s in
     finalize_session causes transfer_values env t_start s1 (update_session (call_record_id s1) (\<lambda>_. s1) g))"

text \<open>One round of the loop: the blocking pop fails, times out or gives a message; an error of the
  handler is logged.\<close>

datatype popped = PopError | PopNone | PopMsg dial_env pystr

fun dial_step :: "pyenv \<Rightarrow> (pystr \<Rightarrow> dial_request option) \<Rightarrow> popped \<Rightarrow> engine \<Rightarrow> engine" where
  "dial_step E parse_dial PopError g = g"
| "dial_step E parse_dial PopNone g = g"
| "dial_step E parse_dial (PopMsg env raw) g = snd (handle_dial E parse_dial env raw g)"

definition dial_loop :: "pyenv \<Rightarrow> (pystr \<Rightarrow> dial_request option) \<Rightarrow> popped list \<Rightarrow> engine \<Rightarrow> engine" where
  "dial_loop E parse_dial ps g = fold (dial_step E parse_dial) ps g"

section \<open>The control consumer\<close>

datatype engine_control = CtlManualHangup int "pystr option" | CtlTransfer int int | CtlOther int

fun ctl_call :: "engine_control \<Rightarrow> int" where
  "ctl_call (CtlManualHangup c _) = c"
| "ctl_call (CtlTransfer c _) = c"
| "ctl_call (CtlOther c) = c"

definition post_to :: "int \<Rightarrow> bus_event \<Rightarrow> engine \<Rightarrow> engine" where
  "post_to cid ev g = update_session cid (\<lambda>s. s\<lparr>session_bus := post ev (session_bus s)\<rparr>) g"

definition on_manual_hangup :: "int \<Rightarrow> pystr option \<Rightarrow> engine \<Rightarrow> engine" where
  "on_manual_hangup cid operator g =
     (if get_session cid g = None then g else post_to cid (ManualHangupRequested operator) g)"

definition on_transfer :: "int \<Rightarrow> int \<Rightarrow> engine \<Rightarrow> engine" where
  "on_transfer cid agent g =
     (if get_session cid g = None then g else post_to cid (TransferRequested (Some (show_int agent))) g)"

definition dispatch_control :: "(pystr \<Rightarrow> engine_control option) \<Rightarrow> pystr \<Rightarrow> engine \<Rightarrow> engine" where
  "dispatch_control parse_control raw g = (case parse_control raw of
       None \<Rightarrow> g
     | Some m \<Rightarrow>
         if get_session (ctl_call m) g = None then g
         else case m of
           CtlManualHangup cid op \<Rightarrow> on_manual_hangup cid op g
         | CtlTransfer cid agent \<Rightarrow> on_transfer cid agent g
         | CtlOther _ \<Rightarrow> g)"

text \<open>One round of \<^verbatim>\<open>subscribe_loop\<close>: the read fails, gives nothing, a message of another kind or with other
  data, a text, or bytes (with the text they decode to, \<open>None\<close> for a decoding error, which is not
  caught).\<close>

datatype control_input = GetError | GetNone | OtherMessage | TextMessage pystr | BytesMessage "pystr option"

fun subscribe_loop :: "(pystr \<Rightarrow> engine_control option) \<Rightarrow> control_input list \<Rightarrow> engine \<Rightarrow> unit res \<times> engine" where
  "subscribe_loop pc [] g = (Inr (), g)"
| "subscribe_loop pc (TextMessage raw # ms) g = subscribe_loop pc ms (dispatch_control pc raw g)"
| "subscribe_loop pc (BytesMessage d # ms) g = (case d of
       None \<Rightarrow> (Inl (OtherErr (lit ''UnicodeDecodeError'')), g)
     | Some raw \<Rightarrow> subscribe_loop pc ms (dispatch_control pc raw g))"
| "subscribe_loop pc (_ # ms) g = subscribe_loop pc ms g"

section \<open>Lemmas\<close>

definition some_attempt :: "(nat \<Rightarrow> bool) \<Rightarrow> bool" where
  "some_attempt att \<longleftrightarrow> att 1 \<or> att 2 \<or> att 3"

lemma three_attempts: "attempts max_retries att (Suc 0) f g = (if some_attempt att then (True, f g) else (False, g))"
  by (simp add: max_retries_def some_attempt_def numeral_3_eq_3 numeral_2_eq_2)

lemma decr_attempts_frame: "\<exists>c. snd (decr_attempts n att k g) = g\<lparr>concurrency := c\<rparr>"
proof (induction n arbitrary: k g)
  case 0
  show ?case by (intro exI [of _ "concurrency g"]) simp
next
  case (Suc n)
  obtain c where "snd (decr_attempts n att (Suc k) (g\<lparr>concurrency := concurrency g - 1\<rparr>)) = g\<lparr>concurrency := c\<rparr>"
    using Suc [of "Suc k" "g\<lparr>concurrency := concurrency g - 1\<rparr>"] by auto
  with Suc [of "Suc k" g] show ?case by (auto simp: Let_def)
qed

lemma decr_concurrency_positive:
  assumes "1 \<le> concurrency g"
  shows "decr_concurrency att g =
    (if some_attempt (\<lambda>k. att k \<noteq> DecrFails) then (True, g\<lparr>concurrency := concurrency g - 1\<rparr>) else (False, g))"
  using assms by (simp add: decr_concurrency_def max_retries_def some_attempt_def numeral_3_eq_3 numeral_2_eq_2)

lemma decr_concurrency_corrects:
  "\<not> 1 \<le> concurrency g \<Longrightarrow> att 1 = DecrDone \<Longrightarrow> concurrency (snd (decr_concurrency att g)) = 0"
  by (simp add: decr_concurrency_def max_retries_def numeral_3_eq_3)

lemma resolve_in_causes: "lit ''normal_clearing'' \<in> set causes \<Longrightarrow> resolve_hangup_cause causes s \<in> set causes"
  by (simp add: resolve_hangup_cause_def Let_def)

lemma resolve_valid: "hangup_cause s = Some c \<Longrightarrow> c \<noteq> [] \<Longrightarrow> c \<in> set causes \<Longrightarrow> resolve_hangup_cause causes s = c"
  by (simp add: resolve_hangup_cause_def str_or_def Let_def)

lemma persist_frame:
  "sessions (snd (persist_call_record tv att t u s g)) = sessions g
   \<and> call_ended_q (snd (persist_call_record tv att t u s g)) = call_ended_q g
   \<and> concurrency (snd (persist_call_record tv att t u s g)) = concurrency g
   \<and> extract_q (snd (persist_call_record tv att t u s g)) = extract_q g"
  by (auto simp: persist_call_record_def write_in_transaction_def three_attempts split: sum.splits)

lemma extract_frame:
  "sessions (snd (lpush_extract att m s g)) = sessions g
   \<and> call_ended_q (snd (lpush_extract att m s g)) = call_ended_q g
   \<and> concurrency (snd (lpush_extract att m s g)) = concurrency g
   \<and> (\<forall>c. map_option row_status (rows (snd (lpush_extract att m s g)) c) = map_option row_status (rows g c))
   \<and> (\<forall>c. map_option row_transcript (rows (snd (lpush_extract att m s g)) c) = map_option row_transcript (rows g c))"
  by (auto simp: lpush_extract_def three_attempts option.map_comp comp_def)

lemma call_ended_result:
  "snd (lpush_call_ended att cid cause t g) =
     (if some_attempt att then g\<lparr>call_ended_q := (cid, cause, t) # call_ended_q g\<rparr> else g)"
  by (simp add: lpush_call_ended_def three_attempts)

section \<open>Properties\<close>

lemma finalize_effect:
  assumes "lit ''normal_clearing'' \<in> set causes" "1 \<le> concurrency g"
    and "g' = finalize_session causes tv env t_start s g"
  shows "sessions g' = filter (\<lambda>(k, _). k \<noteq> call_record_id s) (sessions g)
    \<and> (\<exists>cause \<in> set causes. call_ended_q g' =
          (if some_attempt (fe_call_ended env) then [(call_record_id s, cause, fe_ended_at env)] else []) @ call_ended_q g)
    \<and> concurrency g' = concurrency g - (if some_attempt (\<lambda>k. fe_decr env k \<noteq> DecrFails) then 1 else 0)"
proof -
  define cause where "cause = resolve_hangup_cause causes s"
  define s1 where "s1 = s\<lparr>hangup_cause := Some cause\<rparr>"
  define g1 where "g1 = snd (persist_call_record tv (fe_persist env) t_start (fe_ended_at env) s1 g)"
  define g2 where "g2 = (if extractor_role_config_id s1 \<noteq> 0 \<and> dialog_history s1 \<noteq> []
      then snd (lpush_extract (fe_extract env) (fe_extract_marked env) s1 g1) else g1)"
  define g3 where "g3 = snd (lpush_call_ended (fe_call_ended env) (call_record_id s1) cause (fe_ended_at env) g2)"
  define g4 where "g4 = snd (decr_concurrency (fe_decr env) g3)"
  have g': "g' = snd (unregister (call_record_id s1) g4)"
    by (simp add: assms(3) finalize_session_def cause_def s1_def g1_def g2_def g3_def g4_def Let_def)
  have 2: "sessions g2 = sessions g" "call_ended_q g2 = call_ended_q g" "concurrency g2 = concurrency g"
    using persist_frame [of tv "fe_persist env" t_start "fe_ended_at env" s1 g]
      extract_frame [of "fe_extract env" "fe_extract_marked env" s1 g1] by (simp_all add: g1_def g2_def)
  have 3: "sessions g3 = sessions g" "concurrency g3 = concurrency g" "call_ended_q g3 =
      (if some_attempt (fe_call_ended env) then [(call_record_id s, cause, fe_ended_at env)] else []) @ call_ended_q g"
    by (simp_all add: g3_def call_ended_result 2 s1_def)
  have 4: "g4 = (if some_attempt (\<lambda>k. fe_decr env k \<noteq> DecrFails) then g3\<lparr>concurrency := concurrency g3 - 1\<rparr> else g3)"
    using decr_concurrency_positive [of g3 "fe_decr env"] assms(2) by (simp add: g4_def 3)
  have "cause \<in> set causes" by (simp add: cause_def resolve_in_causes assms(1))
  then show ?thesis by (simp add: g' unregister_def 4 3 s1_def) blast
qed


definition demo_causes :: "pystr list" where
  "demo_causes = map lit [''normal_clearing'', ''user_hangup'', ''manual_hangup'', ''no_answer'', ''no_progress_timeout'',
     ''silence_max_reached'', ''referee_hangup'', ''wrap_up_completed'', ''marked_for_handoff'']"

definition demo_engine :: engine where
  "demo_engine = \<lparr>sessions = [], rows = Map.empty, trace_rows = [], call_ended_q = [], extract_q = [], dlq = [],
     concurrency = 1\<rparr>"

definition demo_finalize :: finalize_env where
  "demo_finalize = \<lparr>fe_persist = (\<lambda>k. k = 2), fe_extract = (\<lambda>_. False), fe_extract_marked = False,
     fe_call_ended = (\<lambda>k. k = 3), fe_decr = (\<lambda>_. DecrDone), fe_ended_at = 9\<rparr>"


subsection \<open>From dial to end\<close>

lemma session_for_open: "open_call E (session_for cid req env)"
proof -
  have "open_call E (new_world (new_session cid (dr_campaign_id req) (dr_lead_id req) (dr_caller_id req)
      (dr_versions req) (de_now env)) (de_now env) (de_publishing env))"
    by (rule new_world_open [OF new_session_inv]) (simp_all add: new_session_def hangups_def traces_ok_def)
  then show ?thesis
    unfolding session_for_def
    by (simp add: open_call_def session_inv_def warnings_def hangups_def traces_ok_def)
qed

lemma session_for_id [simp]: "call_record_id (session_for cid req env) = cid"
  by (simp add: session_for_def new_world_def call_session.defs new_session_def)

lemma handle_dial_accepts:
  assumes "handle_dial E pd env raw g = (Inr (Some s), g')"
  shows "\<exists>cid req. s = session_for cid req env \<and> de_record_id env = Some cid \<and> pd raw = Some req
    \<and> sessions g' = (if cid \<in> fst ` set (sessions g) then sessions g else sessions g @ [(cid, s)])
    \<and> call_record_id s = cid \<and> concurrency g' = concurrency g"
proof -
  obtain req cid where o: "pd raw = Some req" "de_record_id env = Some cid" "s = session_for cid req env"
      "g' = register s (reserve_call_record cid (dr_lead_id req) (dr_campaign_id req) (dr_caller_id req)
              (dr_versions req) (de_now env) g)"
    using assms by (auto simp: handle_dial_def push_dlq_def Let_def split: option.splits if_splits)
  then show ?thesis by (simp add: register_def reserve_call_record_def)
qed

text \<open>How \<^verbatim>\<open>run_session\<close> ends for the runner; \<open>Running\<close> is not an end.\<close>

fun run_end_of :: "loop_end outcome \<Rightarrow> run_end" where
  "run_end_of (Ret _) = RunOk"
| "run_end_of (Raised _) = RunRaised"
| "run_end_of Cancelled = RunCancelled"

lemma trace_rows_ok:
  assumes "traces_ok s"
  shows "\<exists>ts. map_res (trace_row t) (pipeline_trace_records s) = Inr ts"
proof -
  have "trace_row t tr = Inr (projr (trace_row t tr))" if tr: "tr \<in> set (pipeline_trace_records s)" for tr
  proof -
    have "has_turn tr" using assms tr by (simp add: traces_ok_def list_all_iff)
    then obtain i where "map_of tr (lit ''turn_id'') = Some (PInt i)" by (auto simp: has_turn_def)
    then show ?thesis by (simp add: trace_row_def)
  qed
  then have "map_res (trace_row t) (pipeline_trace_records s)
      = Inr (map (\<lambda>tr. projr (trace_row t tr)) (pipeline_trace_records s))" by (rule map_res_all)
  then show ?thesis by blast
qed

lemma persist_writes:
  assumes "traces_ok s" "some_attempt att"
  shows "rows (snd (persist_call_record tv att t u s g)) (call_record_id s) = Some (write_row tv t u s (rows g (call_record_id s)))"
proof -
  obtain ts where "map_res (trace_row t) (pipeline_trace_records s) = Inr ts" using trace_rows_ok assms(1) by blast
  with assms(2) show ?thesis by (simp add: persist_call_record_def write_in_transaction_def three_attempts)
qed

lemma write_row_columns [simp]:
  "row_status (write_row tv t u s r) = END" "row_transcript (write_row tv t u s r) = full_transcript s"
  by (simp_all add: write_row_def Let_def)

lemma finalize_row:
  assumes "traces_ok s" "some_attempt (fe_persist env)"
  shows "\<exists>r. rows (finalize_session causes tv env t s g) (call_record_id s) = Some r
    \<and> row_status r = END \<and> row_transcript r = full_transcript s"
proof -
  define cause where "cause = resolve_hangup_cause causes s"
  define s1 where "s1 = s\<lparr>hangup_cause := Some cause\<rparr>"
  define g1 where "g1 = snd (persist_call_record tv (fe_persist env) t (fe_ended_at env) s1 g)"
  define g2 where "g2 = (if extractor_role_config_id s1 \<noteq> 0 \<and> dialog_history s1 \<noteq> []
      then snd (lpush_extract (fe_extract env) (fe_extract_marked env) s1 g1) else g1)"
  define g3 where "g3 = snd (lpush_call_ended (fe_call_ended env) (call_record_id s1) cause (fe_ended_at env) g2)"
  have g': "rows (finalize_session causes tv env t s g) = rows (snd (decr_concurrency (fe_decr env) g3))"
    by (simp add: finalize_session_def cause_def s1_def g1_def g2_def g3_def Let_def unregister_def)
  also have "\<dots> = rows g2"
    using decr_attempts_frame [of max_retries "fe_decr env" 1 g3] by (auto simp: decr_concurrency_def g3_def call_ended_result)
  finally have r: "rows (finalize_session causes tv env t s g) (call_record_id s) = rows g2 (call_record_id s)" by simp
  have "traces_ok s1" using assms(1) by (simp add: s1_def traces_ok_def)
  from persist_writes [OF this assms(2), of tv t "fe_ended_at env" g]
  have "map_option row_status (rows g1 (call_record_id s)) = Some END"
    "map_option row_transcript (rows g1 (call_record_id s)) = Some (full_transcript s)"
    by (simp_all add: g1_def s1_def)
  moreover have "map_option row_status (rows g2 c) = map_option row_status (rows g1 c)"
    "map_option row_transcript (rows g2 c) = map_option row_transcript (rows g1 c)" for c
    using extract_frame [of "fe_extract env" "fe_extract_marked env" s1 g1] by (simp_all add: g2_def)
  ultimately have "map_option row_status (rows g2 (call_record_id s)) = Some END"
    "map_option row_transcript (rows g2 (call_record_id s)) = Some (full_transcript s)" by metis+
  then show ?thesis unfolding r by auto
qed

lemma update_session_same_keys [simp]: "fst ` set (sessions (update_session cid f g)) = fst ` set (sessions g)"
  by (force simp: update_session_def)

lemma sessions_update_filter:
  "filter (\<lambda>(k, _). k \<noteq> cid) (sessions (update_session cid f g)) = filter (\<lambda>(k, _). k \<noteq> cid) (sessions g)"
proof -
  have "filter (\<lambda>(k, _). k \<noteq> cid) (map (\<lambda>(k, s). (k, if k = cid then f s else s)) xs) = filter (\<lambda>(k, _). k \<noteq> cid) xs" for xs
    by (induction xs) auto
  then show ?thesis by (simp add: update_session_def)
qed

lemma after_run_fields [simp]:
  "call_record_id (after_run r s) = call_record_id s" "full_transcript (after_run r s) = full_transcript s"
  "traces_ok (after_run r s) = traces_ok s"
  by (simp_all add: after_run_def traces_ok_def split: run_end.splits)

text \<open>C2. End to end: a dial request that is accepted and whose call comes to an end, by itself or by a
  cancellation, is finalized. The registry is as before the request; one end-of-call message for
  this call with a valid cause is sent unless its three attempts fail; and unless the three
  attempts of the database fail, the stored record is in state \<open>END\<close> with the transcript of the call,
  which ends with the hang-up unless the call was cancelled.\<close>

theorem dial_to_end:
  assumes "handle_dial E pd de raw g = (Inr (Some s), g1)" "call_record_id s \<notin> fst ` set (sessions g)"
    and "run_session E dp hc budget cfg phone se script s = (r, s')" "r \<noteq> Ret Running"
    and "g' = runner_with_finalize causes tv fe t (run_end_of r, s') g1"
    and "lit ''normal_clearing'' \<in> set causes" "1 \<le> concurrency g"
  shows "sessions g' = sessions g
    \<and> (some_attempt (fe_call_ended fe) \<longrightarrow>
        (\<exists>cause \<in> set causes. (call_record_id s, cause, fe_ended_at fe) \<in> set (call_ended_q g')))
    \<and> (some_attempt (fe_persist fe) \<longrightarrow> (\<exists>row. rows g' (call_record_id s) = Some row \<and> row_status row = END
        \<and> row_transcript row = full_transcript s'
        \<and> (r = Ret Ended \<longrightarrow> row_transcript row \<noteq> [] \<and> event_is ''hangup'' (last (row_transcript row)))))"
proof -
  obtain cid req where s: "s = session_for cid req de" "call_record_id s = cid"
      "sessions g1 = (if cid \<in> fst ` set (sessions g) then sessions g else sessions g @ [(cid, s)])"
      "concurrency g1 = concurrency g"
    using handle_dial_accepts [OF assms(1)] by blast
  have op: "open_call E s" unfolding s(1) by (rule session_for_open)
  note rs = run_session_ends [OF op assms(3)]
  have tr: "traces_ok s'"
    using rs assms(4) by (cases r) (auto simp: open_call_def closed_call_def split: loop_end.splits)
  have cl: "r = Ret Ended \<Longrightarrow> full_transcript s' \<noteq> [] \<and> event_is ''hangup'' (last (full_transcript s'))"
    using rs by (auto simp: closed_call_def)
  define s1 where "s1 = after_run (run_end_of r) s'"
  define g2 where "g2 = update_session (call_record_id s1) (\<lambda>_. s1) g1"
  have g': "g' = finalize_session causes tv fe t s1 g2"
    by (simp add: assms(5) runner_with_finalize_def s1_def g2_def Let_def)
  have c2: "1 \<le> concurrency g2" using assms(7) s(4) by (simp add: g2_def update_session_def)
  have id: "call_record_id s1 = cid" using rs s(2) by (simp add: s1_def)
  note fin = finalize_effect [OF assms(6) c2 g', unfolded id]
  have "filter (\<lambda>(k, _). k \<noteq> cid) (sessions g) = sessions g"
    using assms(2) s(2) by (intro filter_True) force
  then have 1: "sessions g' = sessions g"
    using fin assms(2) s id by (simp add: g2_def sessions_update_filter)
  have 2: "some_attempt (fe_call_ended fe) \<longrightarrow>
      (\<exists>cause \<in> set causes. (cid, cause, fe_ended_at fe) \<in> set (call_ended_q g'))"
    using fin by auto
  have 3: "some_attempt (fe_persist fe) \<longrightarrow> (\<exists>row. rows g' cid = Some row \<and> row_status row = END
      \<and> row_transcript row = full_transcript s')"
    using finalize_row [of s1 fe causes tv t g2] tr id by (simp add: g' s1_def)
  have 4: "\<exists>row. rows g' cid = Some row \<and> row_status row = END \<and> row_transcript row = full_transcript s'
      \<and> (r = Ret Ended \<longrightarrow> row_transcript row \<noteq> [] \<and> event_is ''hangup'' (last (row_transcript row)))"
    if a: "some_attempt (fe_persist fe)"
  proof -
    obtain row where row: "rows g' cid = Some row" "row_status row = END" "row_transcript row = full_transcript s'"
      using 3 a by blast
    show ?thesis by (rule exI [of _ row]) (use row cl in simp)
  qed
  show ?thesis unfolding s(2) using 1 2 4 by blast
qed

lemma unanswered_call_ends:
  assumes "\<not> wait_connected (dial_events se)" "dial_error se = None" "cancel_at (dial_wait se) = NoCancel"
  shows "fst (run_session E dp hc budget cfg phone se script s) = Ret Ended"
proof -
  define f where "f w = snd (suspend E (interruption cfg) (dial_wait se) w)" for w
  have s: "suspend E (interruption cfg) (dial_wait se) w = (False, f w)" for w
    using assms(3) by (simp add: suspend_def deliver_cancel_def f_def)
  have e: "fst (session_body E dp cfg phone se script w) = Ret Ended" for w
    using assms(1,2) by (simp add: session_body_def dial_and_wait_connected_def subscribe_control_bridges_def
        end_call_def act_def emit_def upd_def ret_def await_def goto_def event_def s)
  obtain v where "session_setup budget cfg s = (Ret (), v)"
    by (cases "publishing s") (auto simp: session_setup_def act_def upd_def ask_def emit_def ret_def)
  moreover obtain u where "session_body E dp cfg phone se script v = (Ret Ended, u)"
    using e [of v] by (cases "session_body E dp cfg phone se script v") simp
  ultimately show ?thesis by (simp add: run_session_def act_def lastly_def catching_def)
qed

definition demo_dial_env :: pyenv where
  "demo_dial_env = demo_env\<lparr>json_loads := (\<lambda>_. Some (PDict [(lit ''schema_version'', PInt 1)]))\<rparr>"

definition demo_request :: dial_request where
  "demo_request = \<lparr>dr_lead_id = 5, dr_campaign_id = 6, dr_caller_id = lit ''100'', dr_versions = [], dr_device_id = 0\<rparr>"

definition demo_dial :: dial_env where
  "demo_dial = \<lparr>de_dlq_ok = True, de_record_id = Some 7, de_now = 0, de_publishing = False\<rparr>"

definition demo_unanswered :: session_env where
  "demo_unanswered = demo_session\<lparr>dial_events := []\<rparr>"

theorem dial_to_end_witness:
  "\<exists>s g1 r s' g' row. handle_dial demo_dial_env (\<lambda>_. Some demo_request) demo_dial (lit ''{}'') demo_engine = (Inr (Some s), g1)
    \<and> call_record_id s \<notin> fst ` set (sessions demo_engine)
    \<and> run_session demo_dial_env None (\<lambda>_ _. ([], HOk)) 50000 demo_config (lit ''100'') demo_unanswered [] s = (r, s')
    \<and> r = Ret Ended \<and> lit ''normal_clearing'' \<in> set demo_causes \<and> 1 \<le> concurrency demo_engine
    \<and> g' = runner_with_finalize demo_causes [] demo_finalize 0 (run_end_of r, s') g1
    \<and> sessions g' = [] \<and> rows g' 7 = Some row \<and> row_transcript row = full_transcript s'
    \<and> event_is ''hangup'' (last (row_transcript row))"
proof -
  let ?s = "session_for 7 demo_request demo_dial"
  have h: "handle_dial demo_dial_env (\<lambda>_. Some demo_request) demo_dial (lit ''{}'') demo_engine
      = (Inr (Some ?s), register ?s (reserve_call_record 7 5 6 (lit ''100'') [] 0 demo_engine))"
    by (simp add: handle_dial_def peek_schema_version_def demo_dial_env_def SUPPORTED_SCHEMA_VERSIONS_def demo_request_def
        demo_dial_def Let_def)
  obtain r s' where r: "run_session demo_dial_env None (\<lambda>_ _. ([], HOk)) 50000 demo_config (lit ''100'') demo_unanswered [] ?s
      = (r, s')" by fastforce
  have e: "r = Ret Ended"
    using unanswered_call_ends [of demo_unanswered demo_dial_env None "\<lambda>_ _. ([], HOk)" 50000 demo_config "lit ''100''" "[]" ?s] r
    by (simp add: demo_unanswered_def demo_session_def calm_def)
  define g' where "g' = runner_with_finalize demo_causes [] demo_finalize 0 (run_end_of r, s')
      (register ?s (reserve_call_record 7 5 6 (lit ''100'') [] 0 demo_engine))"
  have c: "call_record_id ?s \<notin> fst ` set (sessions demo_engine)" "r \<noteq> Ret Running"
      "lit ''normal_clearing'' \<in> set demo_causes" "1 \<le> concurrency demo_engine"
    by (simp_all add: e demo_engine_def demo_causes_def)
  note t = dial_to_end [OF h c(1) r c(2) g'_def c(3,4)]
  have "some_attempt (fe_persist demo_finalize)" by (simp add: some_attempt_def demo_finalize_def)
  then obtain row where "rows g' 7 = Some row" "row_transcript row = full_transcript s'" "event_is ''hangup'' (last (row_transcript row))"
    using t e by auto
  moreover have "sessions g' = []" using t by (simp add: demo_engine_def)
  ultimately show ?thesis using h c r e g'_def by blast
qed

subsection \<open>The dial loop\<close>

text \<open>Which messages are served: the session of an accepted message, the text of one that goes to the
  dead-letter list.\<close>

fun served :: "pyenv \<Rightarrow> (pystr \<Rightarrow> dial_request option) \<Rightarrow> popped \<Rightarrow> world list" where
  "served E pd (PopMsg env raw) =
     (if peek_schema_version E raw = Some 1 then
        (case (pd raw, de_record_id env) of (Some req, Some cid) \<Rightarrow> [session_for cid req env] | _ \<Rightarrow> [])
      else [])"
| "served E pd _ = []"

fun refused :: "pyenv \<Rightarrow> (pystr \<Rightarrow> dial_request option) \<Rightarrow> popped \<Rightarrow> pystr list" where
  "refused E pd (PopMsg env raw) = (if served E pd (PopMsg env raw) = [] \<and> de_dlq_ok env then [raw] else [])"
| "refused E pd _ = []"

lemma dial_step_serves:
  assumes "\<forall>s \<in> set (served E pd p). call_record_id s \<notin> fst ` set (sessions g)"
  shows "sessions (dial_step E pd p g) = sessions g @ map (\<lambda>s. (call_record_id s, s)) (served E pd p)
    \<and> dlq (dial_step E pd p g) = rev (refused E pd p) @ dlq g \<and> concurrency (dial_step E pd p g) = concurrency g"
proof (cases p)
  case (PopMsg env raw)
  show ?thesis
  proof (cases "served E pd p")
    case Nil
    then show ?thesis using PopMsg
      by (auto simp: handle_dial_def push_dlq_def SUPPORTED_SCHEMA_VERSIONS_def split: option.splits if_splits)
  next
    case (Cons s ss)
    then obtain req cid where "peek_schema_version E raw = Some 1" "pd raw = Some req" "de_record_id env = Some cid"
        "s = session_for cid req env" "ss = []"
      using PopMsg by (auto split: option.splits if_splits)
    then show ?thesis using Cons PopMsg assms
      by (simp add: handle_dial_def SUPPORTED_SCHEMA_VERSIONS_def Let_def register_def reserve_call_record_def)
  qed
qed simp_all

text \<open>C26. No message stops the dial loop: in any sequence of pops, failing pops and messages, every message is
  either served, in order, or, unless the push fails, put on the dead-letter list; the calls that
  were live stay. A refused message leaves the concurrency counter as it was: the slot taken for it
  is not given back.\<close>

theorem dial_loop_serves_all:
  assumes "distinct (map fst (sessions g) @ map call_record_id (concat (map (served E pd) ps)))"
  shows "sessions (dial_loop E pd ps g) = sessions g @ map (\<lambda>s. (call_record_id s, s)) (concat (map (served E pd) ps))
    \<and> dlq (dial_loop E pd ps g) = rev (concat (map (refused E pd) ps)) @ dlq g
    \<and> concurrency (dial_loop E pd ps g) = concurrency g"
  using assms
proof (induction ps arbitrary: g)
  case Nil
  then show ?case by (simp add: dial_loop_def)
next
  case (Cons p ps)
  have "\<forall>s \<in> set (served E pd p). call_record_id s \<notin> fst ` set (sessions g)"
    using Cons.prems by auto
  note st = dial_step_serves [OF this]
  have "distinct (map fst (sessions (dial_step E pd p g)) @ map call_record_id (concat (map (served E pd) ps)))"
    using Cons.prems st by (simp add: comp_def Un_assoc Int_Un_distrib2)
  from Cons.IH [OF this] st show ?case by (simp add: dial_loop_def)
qed

theorem dial_loop_serves_all_witness:
  "sessions (dial_loop demo_dial_env (\<lambda>r. if r = lit ''bad'' then None else Some demo_request)
       [PopError, PopMsg demo_dial (lit ''bad''), PopNone, PopMsg demo_dial (lit ''{}'')] demo_engine)
     = [(7, session_for 7 demo_request demo_dial)]
   \<and> dlq (dial_loop demo_dial_env (\<lambda>r. if r = lit ''bad'' then None else Some demo_request)
       [PopError, PopMsg demo_dial (lit ''bad''), PopNone, PopMsg demo_dial (lit ''{}'')] demo_engine) = [lit ''bad'']
   \<and> concurrency (dial_loop demo_dial_env (\<lambda>r. if r = lit ''bad'' then None else Some demo_request)
       [PopError, PopMsg demo_dial (lit ''bad''), PopNone, PopMsg demo_dial (lit ''{}'')] demo_engine) = 1"
  using dial_loop_serves_all [of demo_engine demo_dial_env "\<lambda>r. if r = lit ''bad'' then None else Some demo_request"
      "[PopError, PopMsg demo_dial (lit ''bad''), PopNone, PopMsg demo_dial (lit ''{}'')]"]
  by (simp add: demo_engine_def demo_dial_def demo_dial_env_def peek_schema_version_def lit_def)

subsection \<open>Control messages\<close>

lemma map_of_update_session:
  "map_of (sessions (update_session cid f g)) c = (if c = cid then map_option f (map_of (sessions g) c) else map_of (sessions g) c)"
proof -
  have "map_of (map (\<lambda>(k, s). (k, if k = cid then f s else s)) xs) c = (if c = cid then map_option f (map_of xs c) else map_of xs c)" for xs
    by (induction xs) auto
  then show ?thesis by (simp add: update_session_def)
qed

text \<open>What a control message posts.\<close>

fun control_event :: "engine_control \<Rightarrow> bus_event option" where
  "control_event (CtlManualHangup _ op) = Some (ManualHangupRequested op)"
| "control_event (CtlTransfer _ agent) = Some (TransferRequested (Some (show_int agent)))"
| "control_event (CtlOther _) = None"

text \<open>A control message reaches exactly the call it names: its event goes to the bus of that call, if
  the call is live and the message has an event; the rest of the engine, every other call included,
  is as before. A message that does not parse has no effect.\<close>

theorem control_reaches_only_its_call:
  "get_session c (dispatch_control pc raw g) =
     (case pc raw of
        None \<Rightarrow> get_session c g
      | Some m \<Rightarrow> (case control_event m of
            Some ev \<Rightarrow> if c = ctl_call m
              then map_option (\<lambda>s. s\<lparr>session_bus := post ev (session_bus s)\<rparr>) (get_session c g) else get_session c g
          | None \<Rightarrow> get_session c g))
   \<and> (dispatch_control pc raw g)\<lparr>sessions := []\<rparr> = g\<lparr>sessions := []\<rparr>"
proof (cases "pc raw")
  case (Some m)
  then show ?thesis
    by (cases m) (auto simp: dispatch_control_def on_manual_hangup_def on_transfer_def post_to_def get_session_def
        map_of_update_session, auto simp: update_session_def)
qed (simp add: dispatch_control_def)

end
