(* ===== verification/Tts_Cache.thy ===== *)
theory Tts_Cache
  imports Py_Async Py_Bytes
begin

text \<open>
  The cache of synthesised phrases (\<^verbatim>\<open>providers/tts_cache.py\<close>): \<open>tts_store\<close> is \<^verbatim>\<open>TtsCacheStore\<close>, the ordered
  dictionary as an association list with the least recently used entry first, and
  \<open>synthesize_stream\<close> the generator of \<^verbatim>\<open>CachingTTSProvider\<close>. The inner provider is a script per
  request: the chunks it would yield and how it ends. A request touches the store twice, when it
  looks the phrase up and when a complete synthesis is stored; \<open>tts_step\<close> interleaves these two
  steps of any number of concurrent calls.

  The locale \<open>phrase_cache\<close> is what the provider relies on: a cache may forget, and never answers
  with anything but what was stored last under the key.

  Shown: the store keeps its two bounds and its byte count in every interleaving; a put keeps
  the longest run of most recently used entries that fits; a cached phrase is always a
  complete synthesis of that text in that voice.
\<close>

section \<open>The store\<close>

type_synonym tts_key = "pystr \<times> pystr"

record tts_store =
  max_entries :: int
  max_total_bytes :: int
  entries :: "(tts_key \<times> bytes list) list"
  total_bytes :: int

definition DEFAULT_MAX_ENTRIES :: int where "DEFAULT_MAX_ENTRIES = 256"

definition DEFAULT_MAX_TOTAL_BYTES :: int where "DEFAULT_MAX_TOTAL_BYTES = 32 * 2 ^ 20"

definition DEFAULT_MAX_CACHEABLE_CHARS :: nat where "DEFAULT_MAX_CACHEABLE_CHARS = 60"

definition new_store :: "int \<Rightarrow> int \<Rightarrow> tts_store" where
  "new_store n b = \<lparr>max_entries = n, max_total_bytes = b, entries = [], total_bytes = 0\<rparr>"

definition pcm_size :: "bytes list \<Rightarrow> int" where
  "pcm_size chunks = sum_list (map (\<lambda>c. int (length c)) chunks)"

definition cache_get :: "tts_key \<Rightarrow> tts_store \<Rightarrow> bytes list option \<times> tts_store" where
  "cache_get key st = (case map_of (entries st) key of
       None \<Rightarrow> (None, st)
     | Some chunks \<Rightarrow> (Some chunks, st\<lparr>entries := filter (\<lambda>e. fst e \<noteq> key) (entries st) @ [(key, chunks)]\<rparr>))"

fun evict_loop :: "int \<Rightarrow> int \<Rightarrow> (tts_key \<times> bytes list) list \<Rightarrow> int \<Rightarrow> (tts_key \<times> bytes list) list \<times> int" where
  "evict_loop n b [] t = ([], t)"
| "evict_loop n b (e # es) t =
     (if int (length (e # es)) > n \<or> t > b then evict_loop n b es (t - pcm_size (snd e)) else (e # es, t))"

definition evict :: "tts_store \<Rightarrow> tts_store" where
  "evict st = (let (es, t) = evict_loop (max_entries st) (max_total_bytes st) (entries st) (total_bytes st)
     in st\<lparr>entries := es, total_bytes := t\<rparr>)"

definition cache_put :: "tts_key \<Rightarrow> bytes list \<Rightarrow> tts_store \<Rightarrow> tts_store" where
  "cache_put key chunks st =
     (let st1 = (case map_of (entries st) key of
             Some old \<Rightarrow> st\<lparr>total_bytes := total_bytes st - pcm_size old, entries := filter (\<lambda>e. fst e \<noteq> key) (entries st)\<rparr>
           | None \<Rightarrow> st);
          size = pcm_size chunks
      in if size > max_total_bytes st1 then st1
         else evict (st1\<lparr>entries := entries st1 @ [(key, chunks)], total_bytes := total_bytes st1 + size\<rparr>))"

definition store_len :: "tts_store \<Rightarrow> nat" where
  "store_len st = length (entries st)"

section \<open>The provider\<close>

text \<open>How the inner stream ends after its chunks, and how the outer one ends for the consumer, who may
  close it after some number of chunks.\<close>

datatype synth_end = SynthDone | SynthFailed pyerr

datatype stream_end = Exhausted | Closed | StreamRaised pyerr

record synth_request =
  synth_text :: pystr
  synth_voice :: pystr
  inner_chunks :: "bytes list"
  inner_end :: synth_end
  closed_after :: "nat option"

definition synth_key :: "synth_request \<Rightarrow> tts_key" where
  "synth_key r = (synth_text r, synth_voice r)"

fun end_of :: "synth_end \<Rightarrow> stream_end" where
  "end_of SynthDone = Exhausted"
| "end_of (SynthFailed e) = StreamRaised e"

definition stream_out :: "bytes list \<Rightarrow> synth_end \<Rightarrow> nat option \<Rightarrow> bytes list \<times> stream_end" where
  "stream_out cs fin stop = (case stop of
       Some n \<Rightarrow> if n \<le> length cs then (take n cs, Closed) else (cs, end_of fin)
     | None \<Rightarrow> (cs, end_of fin))"

text \<open>The lookup, and what is left to do after the last chunk of a miss.\<close>

definition synth_begin :: "synth_request \<Rightarrow> tts_store \<Rightarrow> bytes list option \<times> tts_store" where
  "synth_begin r st = cache_get (synth_key r) st"

definition synth_finish :: "nat \<Rightarrow> synth_request \<Rightarrow> tts_store \<Rightarrow> (bytes list \<times> stream_end) \<times> tts_store" where
  "synth_finish limit r st =
     (let out = stream_out (inner_chunks r) (inner_end r) (closed_after r)
      in (out, if length (synth_text r) \<le> limit \<and> snd out = Exhausted
               then cache_put (synth_key r) (inner_chunks r) st else st))"

text \<open>One request on its own. A generator closed before its first chunk never starts.\<close>

definition synthesize_stream :: "nat \<Rightarrow> synth_request \<Rightarrow> tts_store \<Rightarrow> (bytes list \<times> stream_end) \<times> tts_store" where
  "synthesize_stream limit r st =
     (if closed_after r = Some 0 then (([], Closed), st)
      else case synth_begin r st of
        (Some hit, st') \<Rightarrow> (stream_out hit SynthDone (closed_after r), st')
      | (None, st') \<Rightarrow> synth_finish limit r st')"

text \<open>Concurrent requests.\<close>

record tts_sys =
  store :: tts_store
  begun :: "synth_request list"
  running :: "synth_request list"
  replies :: "(synth_request \<times> bytes list \<times> stream_end) list"

datatype tts_act = Begin synth_request | Finish nat

fun tts_step :: "nat \<Rightarrow> tts_act \<Rightarrow> tts_sys \<Rightarrow> tts_sys option" where
  "tts_step limit (Begin r) s =
     (if closed_after r = Some 0 then None
      else case synth_begin r (store s) of
        (Some hit, st) \<Rightarrow> Some (s\<lparr>store := st, begun := begun s @ [r],
            replies := replies s @ [(r, stream_out hit SynthDone (closed_after r))]\<rparr>)
      | (None, st) \<Rightarrow> Some (s\<lparr>store := st, begun := begun s @ [r], running := running s @ [r]\<rparr>))"
| "tts_step limit (Finish i) s =
     (if i < length (running s) then
        (let r = running s ! i; (out, st) = synth_finish limit r (store s)
         in Some (s\<lparr>store := st, running := take i (running s) @ drop (Suc i) (running s),
                replies := replies s @ [(r, out)]\<rparr>))
      else None)"

definition tts_init :: "int \<Rightarrow> int \<Rightarrow> tts_sys \<Rightarrow> bool" where
  "tts_init n b s \<longleftrightarrow> s = \<lparr>store = new_store n b, begun = [], running = [], replies = []\<rparr>"

section \<open>The contract of a cache\<close>

datatype ('k, 'v) cache_op = OpGet 'k | OpPut 'k 'v

locale phrase_cache =
  fixes get :: "'k \<Rightarrow> 's \<Rightarrow> 'v option \<times> 's"
    and put :: "'k \<Rightarrow> 'v \<Rightarrow> 's \<Rightarrow> 's"
    and content :: "'s \<Rightarrow> 'k \<rightharpoonup> 'v"
    and invar :: "'s \<Rightarrow> bool"
  assumes get_result: "invar s \<Longrightarrow> fst (get k s) = content s k"
    and get_content: "invar s \<Longrightarrow> content (snd (get k s)) = content s"
    and get_invar: "invar s \<Longrightarrow> invar (snd (get k s))"
    and put_content: "invar s \<Longrightarrow> content (put k v s) \<subseteq>\<^sub>m (content s)(k \<mapsto> v)"
    and put_invar: "invar s \<Longrightarrow> invar (put k v s)"
begin

text \<open>A client's view: a script of operations with the answers of its lookups, beside a map that
  never forgets.\<close>

fun cache_run :: "('k, 'v) cache_op list \<Rightarrow> 's \<Rightarrow> 's" where
  "cache_run [] s = s"
| "cache_run (OpGet k # ops) s = cache_run ops (snd (get k s))"
| "cache_run (OpPut k v # ops) s = cache_run ops (put k v s)"

fun last_put :: "('k, 'v) cache_op list \<Rightarrow> ('k \<rightharpoonup> 'v) \<Rightarrow> 'k \<rightharpoonup> 'v" where
  "last_put [] m = m"
| "last_put (OpGet k # ops) m = last_put ops m"
| "last_put (OpPut k v # ops) m = last_put ops (m(k \<mapsto> v))"

lemma cache_run_refines:
  "invar s \<Longrightarrow> content s \<subseteq>\<^sub>m m \<Longrightarrow> invar (cache_run ops s) \<and> content (cache_run ops s) \<subseteq>\<^sub>m last_put ops m"
proof (induction ops s arbitrary: m rule: cache_run.induct)
  case (2 k ops s)
  then show ?case using get_content get_invar by simp
next
  case (3 k v ops s)
  have "(content s)(k \<mapsto> v) \<subseteq>\<^sub>m m(k \<mapsto> v)" using 3(3) by (simp add: map_le_def)
  then have "content (put k v s) \<subseteq>\<^sub>m m(k \<mapsto> v)" using put_content [OF 3(2)] map_le_trans by blast
  then show ?case using 3(1) put_invar [OF 3(2)] by simp
qed simp

lemma answer_is_last_put:
  assumes "invar s" "content s = Map.empty" "fst (get k (cache_run ops s)) = Some v"
  shows "last_put ops Map.empty k = Some v"
proof -
  have "content s \<subseteq>\<^sub>m Map.empty" using assms(2) by simp
  from cache_run_refines [OF assms(1) this, of ops] show ?thesis
    using assms(3) get_result by (auto simp: map_le_def dom_def)
qed

end

section \<open>The store is such a cache\<close>

definition sizes :: "(tts_key \<times> bytes list) list \<Rightarrow> int" where
  "sizes es = sum_list (map (\<lambda>e. pcm_size (snd e)) es)"

definition store_inv :: "tts_store \<Rightarrow> bool" where
  "store_inv st \<longleftrightarrow> distinct (map fst (entries st)) \<and> total_bytes st = sizes (entries st)
     \<and> (entries st = [] \<or> int (length (entries st)) \<le> max_entries st \<and> total_bytes st \<le> max_total_bytes st)"

lemma sizes_simps [simp]:
  "sizes [] = 0" "sizes (e # es) = pcm_size (snd e) + sizes es" "sizes (es @ fs) = sizes es + sizes fs"
  by (simp_all add: sizes_def)

lemma pcm_size_nonneg [simp]: "0 \<le> pcm_size c"
  unfolding pcm_size_def by (induction c) simp_all

lemma sizes_nonneg [simp]: "0 \<le> sizes es"
  by (induction es) (simp_all add: add_nonneg_nonneg)

lemma filter_absent: "k \<notin> fst ` set es \<Longrightarrow> filter (\<lambda>e. fst e \<noteq> k) es = es"
  by (rule filter_True) force

lemma sizes_remove:
  "distinct (map fst es) \<Longrightarrow> map_of es k = Some c \<Longrightarrow> sizes (filter (\<lambda>e. fst e \<noteq> k) es) = sizes es - pcm_size c"
proof (induction es)
  case (Cons e es)
  show ?case
  proof (cases "fst e = k")
    case True
    then have "filter (\<lambda>e. fst e \<noteq> k) es = es" using Cons.prems(1) by (intro filter_absent) simp
    then show ?thesis using Cons.prems True by (cases e) simp
  next
    case False
    then show ?thesis using Cons by (cases e) auto
  qed
qed simp

lemma length_remove:
  "distinct (map fst es) \<Longrightarrow> map_of es k = Some c \<Longrightarrow> Suc (length (filter (\<lambda>e. fst e \<noteq> k) es)) = length es"
proof (induction es)
  case (Cons e es)
  show ?case
  proof (cases "fst e = k")
    case True
    then have "filter (\<lambda>e. fst e \<noteq> k) es = es" using Cons.prems(1) by (intro filter_absent) simp
    then show ?thesis using True by simp
  next
    case False
    then show ?thesis using Cons by (cases e) auto
  qed
qed simp

lemma distinct_remove: "distinct (map fst es) \<Longrightarrow> distinct (map fst (filter P es))"
  by (induction es) auto

lemma map_of_remove: "map_of (filter (\<lambda>e. fst e \<noteq> k) es) = (map_of es)(k := None)"
  by (induction es) auto

text \<open>Eviction keeps the longest suffix that fits.\<close>

definition fits :: "int \<Rightarrow> int \<Rightarrow> (tts_key \<times> bytes list) list \<Rightarrow> bool" where
  "fits n b es \<longleftrightarrow> es = [] \<or> int (length es) \<le> n \<and> sizes es \<le> b"

lemma evict_loop_suffix:
  assumes "evict_loop n b es (sizes es) = (es', t)"
  shows "suffix es' es \<and> t = sizes es' \<and> fits n b es' \<and> (\<forall>fs. suffix fs es \<and> fits n b fs \<longrightarrow> length fs \<le> length es')"
  using assms
proof (induction es)
  case (Cons e es)
  show ?case
  proof (cases "int (length (e # es)) > n \<or> sizes (e # es) > b")
    case True
    then have "evict_loop n b es (sizes es) = (es', t)" using Cons.prems by auto
    from Cons.IH [OF this] show ?thesis using True
      by (auto simp: suffix_Cons fits_def)
  next
    case False
    then show ?thesis using Cons.prems by (auto simp: fits_def dest: suffix_length_le)
  qed
qed (simp add: fits_def)

lemma suffix_map_of:
  assumes "suffix es' es" "distinct (map fst es)"
  shows "map_of es' \<subseteq>\<^sub>m map_of es"
proof -
  obtain zs where es: "es = zs @ es'" using assms(1) by (auto simp: suffix_def)
  have "map_of zs k = None" if "map_of es' k \<noteq> None" for k
    using that assms(2) unfolding es by (auto simp: map_of_eq_None_iff)
  then show ?thesis unfolding es by (auto simp: map_le_def map_add_def split: option.splits)
qed

text \<open>The state of a put before eviction.\<close>

lemma cache_put_parts:
  assumes "store_inv st"
  shows "\<exists>es. es = filter (\<lambda>e. fst e \<noteq> k) (entries st) \<and> distinct (map fst es) \<and> fits (max_entries st) (max_total_bytes st) es
    \<and> cache_put k c st = (if pcm_size c > max_total_bytes st then st\<lparr>entries := es, total_bytes := sizes es\<rparr>
        else evict (st\<lparr>entries := es @ [(k, c)], total_bytes := sizes (es @ [(k, c)])\<rparr>))"
proof -
  let ?es = "filter (\<lambda>e. fst e \<noteq> k) (entries st)"
  have d: "distinct (map fst (entries st))" and t: "total_bytes st = sizes (entries st)"
    using assms by (simp_all add: store_inv_def)
  have s: "st\<lparr>entries := entries st, total_bytes := sizes (entries st)\<rparr> = st" by (simp add: t [symmetric])
  show ?thesis
  proof (cases "map_of (entries st) k")
    case None
    then have e: "?es = entries st" by (intro filter_absent) (simp add: map_of_eq_None_iff)
    show ?thesis
      by (rule exI [of _ ?es]) (use None d t assms s in \<open>simp add: e cache_put_def Let_def store_inv_def fits_def\<close>)
  next
    case (Some old)
    have z: "sizes ?es = sizes (entries st) - pcm_size old" by (rule sizes_remove [OF d Some])
    have "fits (max_entries st) (max_total_bytes st) ?es"
      using length_remove [OF d Some] assms t unfolding fits_def store_inv_def z
      by (auto intro: order_trans [of _ "sizes (entries st)"])
    then show ?thesis
      by (intro exI [of _ ?es]) (use Some d t z in \<open>simp add: cache_put_def Let_def distinct_remove\<close>)
  qed
qed

lemma evict_result:
  assumes "total_bytes st = sizes (entries st)"
  shows "\<exists>es. evict st = st\<lparr>entries := es, total_bytes := sizes es\<rparr> \<and> suffix es (entries st)
    \<and> fits (max_entries st) (max_total_bytes st) es
    \<and> (\<forall>fs. suffix fs (entries st) \<and> fits (max_entries st) (max_total_bytes st) fs \<longrightarrow> length fs \<le> length es)"
proof -
  obtain es t where e: "evict_loop (max_entries st) (max_total_bytes st) (entries st) (sizes (entries st)) = (es, t)"
    by fastforce
  from evict_loop_suffix [OF e] show ?thesis
    by (intro exI [of _ es]) (simp add: evict_def assms e)
qed

lemma cache_put_bounds: "max_entries (cache_put k c st) = max_entries st" "max_total_bytes (cache_put k c st) = max_total_bytes st"
  by (auto simp: cache_put_def evict_def Let_def split: option.splits prod.splits)

lemma suffix_distinct: "suffix xs ys \<Longrightarrow> distinct (map fst ys) \<Longrightarrow> distinct (map fst xs)"
  by (auto simp: suffix_def)

lemma cache_put_store:
  assumes "store_inv st"
  shows "store_inv (cache_put k c st) \<and> map_of (entries (cache_put k c st)) \<subseteq>\<^sub>m (map_of (entries st))(k \<mapsto> c)"
proof -
  let ?es = "filter (\<lambda>e. fst e \<noteq> k) (entries st)"
  have p: "distinct (map fst ?es)" "fits (max_entries st) (max_total_bytes st) ?es"
    "cache_put k c st = (if pcm_size c > max_total_bytes st then st\<lparr>entries := ?es, total_bytes := sizes ?es\<rparr>
        else evict (st\<lparr>entries := ?es @ [(k, c)], total_bytes := sizes (?es @ [(k, c)])\<rparr>))"
    using cache_put_parts [OF assms] by auto
  have m: "map_of ?es \<subseteq>\<^sub>m (map_of (entries st))(k \<mapsto> c)" by (auto simp: map_of_remove map_le_def)
  show ?thesis
  proof (cases "pcm_size c > max_total_bytes st")
    case True
    then show ?thesis using p m by (simp add: store_inv_def fits_def)
  next
    case False
    let ?st = "st\<lparr>entries := ?es @ [(k, c)], total_bytes := sizes (?es @ [(k, c)])\<rparr>"
    have d: "distinct (map fst (entries ?st))" using p(1) by auto
    obtain es where e: "evict ?st = ?st\<lparr>entries := es, total_bytes := sizes es\<rparr>" "suffix es (entries ?st)"
        "fits (max_entries st) (max_total_bytes st) es"
      using evict_result [of ?st] by auto
    have "map_of es \<subseteq>\<^sub>m map_of (entries ?st)" by (rule suffix_map_of [OF e(2) d])
    moreover have "map_of (entries ?st) = (map_of (entries st))(k \<mapsto> c)"
      by (rule ext) (simp add: map_of_remove map_add_def split: option.split)
    moreover have "distinct (map fst es)" by (rule suffix_distinct [OF e(2) d])
    ultimately show ?thesis using p(3) False e by (simp add: store_inv_def fits_def)
  qed
qed

lemma cache_get_store:
  assumes "store_inv st"
  shows "fst (cache_get k st) = map_of (entries st) k \<and> map_of (entries (snd (cache_get k st))) = map_of (entries st)
    \<and> store_inv (snd (cache_get k st)) \<and> max_entries (snd (cache_get k st)) = max_entries st
    \<and> max_total_bytes (snd (cache_get k st)) = max_total_bytes st"
proof (cases "map_of (entries st) k")
  case None
  then show ?thesis using assms by (simp add: cache_get_def)
next
  case (Some c)
  let ?es = "filter (\<lambda>e. fst e \<noteq> k) (entries st)"
  have d: "distinct (map fst (entries st))" using assms by (simp add: store_inv_def)
  have "map_of (?es @ [(k, c)]) = map_of (entries st)"
    by (rule ext) (use Some in \<open>simp add: map_of_remove map_add_def split: option.split\<close>)
  moreover have "distinct (map fst (?es @ [(k, c)]))" using distinct_remove [OF d] by auto
  moreover have "sizes (?es @ [(k, c)]) = sizes (entries st)" using sizes_remove [OF d Some] by simp
  moreover have "length (?es @ [(k, c)]) = length (entries st)" using length_remove [OF d Some] by simp
  moreover have "entries st \<noteq> []" using Some by auto
  ultimately show ?thesis using assms Some by (simp add: cache_get_def store_inv_def del: filter_append map_append length_append)
qed

interpretation lru: phrase_cache cache_get cache_put "\<lambda>st. map_of (entries st)" store_inv
  by unfold_locales (simp_all add: cache_get_store cache_put_store)

lemma new_store_inv [simp]: "store_inv (new_store n b)"
  by (simp add: store_inv_def new_store_def)

section \<open>Properties\<close>

text \<open>C18. The store as a cache: after any script of lookups and puts its keys are distinct, it holds at most
  the configured number of entries and bytes, its byte count is exact, and a lookup that
  answers gives what was put last under the key.\<close>

theorem tts_store_refines_map:
  assumes "st = lru.cache_run ops (new_store n b)"
  shows "distinct (map fst (entries st)) \<and> total_bytes st = sizes (entries st)
    \<and> int (store_len st) \<le> max 0 (max_entries st) \<and> total_bytes st \<le> max 0 (max_total_bytes st)
    \<and> (\<forall>k c. fst (cache_get k st) = Some c \<longrightarrow> lru.last_put ops Map.empty k = Some c)"
proof -
  have "map_of (entries (new_store n b)) = Map.empty" by (simp add: new_store_def)
  note a = lru.answer_is_last_put [OF new_store_inv this]
  have "store_inv st" using lru.cache_run_refines [OF new_store_inv map_le_refl] assms by simp
  then have "distinct (map fst (entries st)) \<and> total_bytes st = sizes (entries st)
      \<and> int (store_len st) \<le> max 0 (max_entries st) \<and> total_bytes st \<le> max 0 (max_total_bytes st)"
    by (auto simp: store_inv_def store_len_def)
  then show ?thesis using a assms by blast
qed


definition demo_store :: tts_store where
  "demo_store = lru.cache_run [OpPut (lit ''a'', lit ''v'') [[1, 2]], OpPut (lit ''b'', lit ''v'') [[3]],
     OpGet (lit ''a'', lit ''v'')] (new_store 2 3)"

lemma demo_store_entries:
  "demo_store = \<lparr>max_entries = 2, max_total_bytes = 3,
     entries = [((lit ''b'', lit ''v''), [[3]]), ((lit ''a'', lit ''v''), [[1, 2]])], total_bytes = 3\<rparr>"
  by (simp add: demo_store_def new_store_def cache_put_def cache_get_def evict_def pcm_size_def lit_def)

theorem tts_store_refines_map_witness:
  "demo_store = lru.cache_run [OpPut (lit ''a'', lit ''v'') [[1, 2]], OpPut (lit ''b'', lit ''v'') [[3]],
     OpGet (lit ''a'', lit ''v'')] (new_store 2 3)
   \<and> int (store_len demo_store) \<le> 2 \<and> total_bytes demo_store \<le> 3
   \<and> lru.last_put [OpPut (lit ''a'', lit ''v'') [[1, 2]], OpPut (lit ''b'', lit ''v'') [[3]], OpGet (lit ''a'', lit ''v'')]
       Map.empty (lit ''a'', lit ''v'') = Some [[1, 2]]"
proof -
  note t = tts_store_refines_map [OF demo_store_def]
  have "fst (cache_get (lit ''a'', lit ''v'') demo_store) = Some [[1, 2]]"
    by (simp add: demo_store_entries cache_get_def lit_def)
  then have "lru.last_put [OpPut (lit ''a'', lit ''v'') [[1, 2]], OpPut (lit ''b'', lit ''v'') [[3]], OpGet (lit ''a'', lit ''v'')]
       Map.empty (lit ''a'', lit ''v'') = Some [[1, 2]]" using t by blast
  moreover have "int (store_len demo_store) \<le> 2 \<and> total_bytes demo_store \<le> 3"
    using t by (simp add: demo_store_entries)
  ultimately show ?thesis using demo_store_def by blast
qed


subsection \<open>Concurrent synthesis\<close>

text \<open>What a cached phrase may be: a complete synthesis of a request for the same text and voice.\<close>

definition complete_for :: "synth_request list \<Rightarrow> tts_key \<Rightarrow> bytes list \<Rightarrow> bool" where
  "complete_for rs k c \<longleftrightarrow> (\<exists>r \<in> set rs. synth_key r = k \<and> inner_chunks r = c \<and> inner_end r = SynthDone)"

definition reply_ok :: "synth_request list \<Rightarrow> synth_request \<times> bytes list \<times> stream_end \<Rightarrow> bool" where
  "reply_ok rs = (\<lambda>(r, out). out = stream_out (inner_chunks r) (inner_end r) (closed_after r)
     \<or> (\<exists>c. complete_for rs (synth_key r) c \<and> out = stream_out c SynthDone (closed_after r)))"

definition tts_inv :: "int \<Rightarrow> int \<Rightarrow> tts_sys \<Rightarrow> bool" where
  "tts_inv n b s \<longleftrightarrow> store_inv (store s) \<and> max_entries (store s) = n \<and> max_total_bytes (store s) = b
     \<and> set (running s) \<subseteq> set (begun s)
     \<and> (\<forall>k c. map_of (entries (store s)) k = Some c \<longrightarrow> complete_for (begun s) k c)
     \<and> (\<forall>p \<in> set (replies s). reply_ok (begun s) p)"

lemma tts_inv_entry: "tts_inv n b s \<Longrightarrow> map_of (entries (store s)) k = Some c \<Longrightarrow> complete_for (begun s) k c"
  unfolding tts_inv_def by blast

lemma map_le_Some: "f \<subseteq>\<^sub>m g \<Longrightarrow> f k = Some c \<Longrightarrow> g k = Some c"
  unfolding map_le_def dom_def by force

lemma complete_mono: "complete_for rs k c \<Longrightarrow> complete_for (rs @ qs) k c"
  by (auto simp: complete_for_def)

lemma reply_ok_mono: "reply_ok rs p \<Longrightarrow> reply_ok (rs @ qs) p"
  by (cases p) (auto simp: reply_ok_def intro: complete_mono)

lemma end_of_exhausted [simp]: "end_of e = Exhausted \<longleftrightarrow> e = SynthDone"
  by (cases e) auto

lemma stream_out_exhausted: "snd (stream_out cs e stop) = Exhausted \<Longrightarrow> e = SynthDone"
  by (auto simp: stream_out_def split: option.splits if_splits)

lemma tts_begin_inv:
  assumes i: "tts_inv n b s" and st: "tts_step limit (Begin r) s = Some s'"
  shows "tts_inv n b s'"
proof -
  obtain hit st where g: "cache_get (synth_key r) (store s) = (hit, st)" by fastforce
  have c: "hit = map_of (entries (store s)) (synth_key r)" "map_of (entries st) = map_of (entries (store s))" "store_inv st"
      "max_entries st = n" "max_total_bytes st = b"
    using cache_get_store [of "store s" "synth_key r"] i g by (auto simp: tts_inv_def)
  show ?thesis
  proof (cases hit)
    case None
    then show ?thesis using st i g c
      by (auto simp: tts_inv_def synth_begin_def split: if_splits intro!: complete_mono reply_ok_mono)
  next
    case (Some ch)
    then have "complete_for (begun s) (synth_key r) ch" using c(1) tts_inv_entry [OF i] by simp
    then have "reply_ok (begun s @ [r]) (r, stream_out ch SynthDone (closed_after r))"
      unfolding reply_ok_def using complete_mono by blast
    moreover have "s' = s\<lparr>store := st, begun := begun s @ [r], replies := replies s @ [(r, stream_out ch SynthDone (closed_after r))]\<rparr>"
      using st g Some by (auto simp: synth_begin_def split: if_splits)
    ultimately show ?thesis using i c(2-) by (auto simp: tts_inv_def intro!: complete_mono reply_ok_mono)
  qed
qed

lemma tts_finish_inv:
  assumes i: "tts_inv n b s" and st: "tts_step limit (Finish j) s = Some s'"
  shows "tts_inv n b s'"
proof -
  define r where "r = running s ! j"
  have j: "j < length (running s)" using st by (simp split: if_splits)
  then have rb: "r \<in> set (begun s)" using i by (auto simp: tts_inv_def r_def)
  define out where "out = stream_out (inner_chunks r) (inner_end r) (closed_after r)"
  define fin where "fin = (length (synth_text r) \<le> limit \<and> snd out = Exhausted)"
  define st' where "st' = (if fin then cache_put (synth_key r) (inner_chunks r) (store s) else store s)"
  have s': "s' = s\<lparr>store := st', running := take j (running s) @ drop (Suc j) (running s), replies := replies s @ [(r, out)]\<rparr>"
    using st j by (auto simp: synth_finish_def Let_def r_def out_def fin_def st'_def)
  have si: "store_inv (store s)" using i by (simp add: tts_inv_def)
  have 1: "store_inv st'" "max_entries st' = n" "max_total_bytes st' = b"
    using cache_put_store [OF si] cache_put_bounds i by (simp_all add: st'_def tts_inv_def)
  have 2: "complete_for (begun s) k c" if "map_of (entries st') k = Some c" for k c
  proof (cases fin)
    case False
    then show ?thesis using that tts_inv_entry [OF i] by (simp add: st'_def)
  next
    case True
    then have "inner_end r = SynthDone" using stream_out_exhausted [of "inner_chunks r" "inner_end r" "closed_after r"] by (simp add: fin_def out_def)
    moreover have "((map_of (entries (store s)))(synth_key r \<mapsto> inner_chunks r)) k = Some c"
      by (rule map_le_Some [OF conjunct2 [OF cache_put_store [OF si]]]) (use that True in \<open>simp add: st'_def\<close>)
    ultimately show ?thesis using tts_inv_entry [OF i, of k c] rb
      by (cases "k = synth_key r") (auto simp: complete_for_def)
  qed
  have 3: "reply_ok (begun s) (r, out)" by (simp add: reply_ok_def out_def)
  have 4: "set (take j (running s) @ drop (Suc j) (running s)) \<subseteq> set (begun s)"
    using i set_take_subset [of j "running s"] set_drop_subset [of "Suc j" "running s"] by (auto simp: tts_inv_def)
  show ?thesis unfolding tts_inv_def s' using 1 2 3 4 i by (auto simp: tts_inv_def)
qed

interpretation tts_calls: invariant_of "tts_init n b" "tts_step limit" "tts_inv n b" for n b limit
proof
  fix s assume "tts_init n b s"
  then show "tts_inv n b s" by (simp add: tts_init_def tts_inv_def new_store_def store_inv_def)
next
  fix s a s' assume "tts_inv n b s" "tts_step limit a s = Some s'"
  then show "tts_inv n b s'" by (cases a) (auto intro: tts_begin_inv tts_finish_inv simp del: tts_step.simps)
qed

text \<open>C19. Caching is inaudible: in every interleaving of concurrent calls each request is answered either
  with its own synthesis or with a complete earlier synthesis of the same text in the same
  voice, never with a truncated one, whoever closed a stream or failed in the middle; and
  the bounds of the store hold.\<close>

theorem cached_speech_is_complete:
  assumes "reach (tts_init n b) (tts_step limit) s"
  shows "(\<forall>(r, out) \<in> set (replies s). out = stream_out (inner_chunks r) (inner_end r) (closed_after r)
      \<or> (\<exists>q \<in> set (begun s). synth_key q = synth_key r \<and> inner_end q = SynthDone
          \<and> out = stream_out (inner_chunks q) SynthDone (closed_after r)))
    \<and> int (store_len (store s)) \<le> max 0 n \<and> total_bytes (store s) \<le> max 0 b"
proof -
  have i: "tts_inv n b s" by (rule tts_calls.reach_inv [OF assms])
  have "reply_ok (begun s) p" if "p \<in> set (replies s)" for p using i that by (simp add: tts_inv_def)
  moreover have "int (store_len (store s)) \<le> max 0 n \<and> total_bytes (store s) \<le> max 0 b"
    using i by (auto simp: tts_inv_def store_inv_def store_len_def)
  ultimately show ?thesis by (fastforce simp: reply_ok_def complete_for_def)
qed

definition demo_synth :: "nat option \<Rightarrow> bytes list \<Rightarrow> synth_request" where
  "demo_synth stop cs = \<lparr>synth_text = lit ''hello'', synth_voice = lit ''v'', inner_chunks = cs, inner_end = SynthDone,
     closed_after = stop\<rparr>"

definition demo_tts :: tts_sys where
  "demo_tts = the (run_acts (tts_step 60) [Begin (demo_synth (Some 1) [[1], [2]]), Begin (demo_synth None [[3], [4]]),
     Finish 0, Finish 0, Begin (demo_synth None [[5]])] \<lparr>store = new_store 8 100, begun = [], running = [], replies = []\<rparr>)"

lemma demo_tts_run:
  "run_acts (tts_step 60) [Begin (demo_synth (Some 1) [[1], [2]]), Begin (demo_synth None [[3], [4]]),
     Finish 0, Finish 0, Begin (demo_synth None [[5]])] \<lparr>store = new_store 8 100, begun = [], running = [], replies = []\<rparr>
   = Some demo_tts"
  unfolding demo_tts_def
  by (simp add: demo_synth_def new_store_def synth_begin_def synth_finish_def synth_key_def cache_get_def cache_put_def
      stream_out_def evict_def pcm_size_def Let_def lit_def)

theorem cached_speech_is_complete_witness:
  "reach (tts_init 8 100) (tts_step 60) demo_tts
   \<and> map snd (replies demo_tts) = [([[1]], Closed), ([[3], [4]], Exhausted), ([[3], [4]], Exhausted)]
   \<and> int (store_len (store demo_tts)) \<le> 8"
proof -
  have r: "reach (tts_init 8 100) (tts_step 60) demo_tts"
    by (rule reach_run_acts [OF reach_init demo_tts_run]) (simp add: tts_init_def)
  have "map snd (replies demo_tts) = [([[1]], Closed), ([[3], [4]], Exhausted), ([[3], [4]], Exhausted)]"
    by (simp add: demo_tts_def demo_synth_def new_store_def synth_begin_def synth_finish_def synth_key_def cache_get_def
        cache_put_def stream_out_def evict_def pcm_size_def Let_def lit_def)
  then show ?thesis using r cached_speech_is_complete [OF r] by simp
qed

text \<open>On its own a request goes through the same two steps.\<close>

lemma synthesize_stream_steps:
  "closed_after r \<noteq> Some 0 \<Longrightarrow>
   synthesize_stream limit r st = (case synth_begin r st of
      (Some hit, st') \<Rightarrow> (stream_out hit SynthDone (closed_after r), st') | (None, st') \<Rightarrow> synth_finish limit r st')"
  by (simp add: synthesize_stream_def)

end
