(* ===== verification/Edge_Transport.thy ===== *)
theory Edge_Transport
  imports Py_Async
begin

text \<open>
  The control plane between the engine and its edges: the gRPC server with one stream per edge
  (\<^verbatim>\<open>transport/grpc_server.py\<close>), the verification of the edges' tokens
  (\<^verbatim>\<open>transport/jwt_token_verifier.py\<close>), the routing of inbound messages to calls
  (\<^verbatim>\<open>transport/session_dispatcher.py\<close>) and the handlers of heartbeats and hardware alerts
  (\<^verbatim>\<open>transport/heartbeat_handler.py\<close>, \<^verbatim>\<open>transport/hardware_alert_handler.py\<close>).

  The protocol-buffer messages are datatypes with the fields the code reads. Streams are numbered
  in the order in which they are opened; \<open>server_step\<close> interleaves the steps of their coroutines
  between two awaits. \<open>ss_accepted\<close>, \<open>ss_sent\<close> and \<open>deliveries\<close> record what was queued for an edge, what
  was given to the network, and what was handed to the dispatcher's callbacks. The JWT library is a
  parameter that gives the claims of a valid token.

  Shown: at most one connected stream per edge, and it is the one that is sent to; each edge gets its
  messages in the order they were accepted; a device is only ever mapped to an edge that has
  a stream; a call hears only the edge it was registered with; a stream closed while its queue is
  full never ends its RPC by itself.
\<close>

section \<open>Messages\<close>

datatype call_event_kind = Connected | RemoteHangup int | DeviceError pystr | Ringing | UserSpeakingStarted
  | UserSpeakingStopped | UnknownKind

record device_health =
  dh_device_id :: int
  dh_status :: int

record heartbeat =
  hb_ts :: "clock option"
  hb_devices :: "device_health list"

datatype alert_kind = SignalLost int | SimArrears pystr | ModemInitFailed pystr pystr | AudioBufferStalled pystr int
  | SimChanged pystr | AlertNone | AlertOther pystr

record hardware_alert =
  ha_device_id :: int
  ha_ts :: "clock option"
  ha_kind :: alert_kind

datatype edge2cloud = ECallEvent pystr call_event_kind | EDialAck pystr bool pystr | EHardwareAlert hardware_alert
  | EHeartbeat heartbeat | EEmpty | EUnknown

record dial_command =
  dc_call_id :: pystr
  dc_device_id :: int
  dc_number :: pystr
  dc_rtc_channel :: pystr
  dc_rtc_token :: pystr
  dc_uid_edge :: pystr
  dc_uid_engine :: pystr

datatype cloud2edge = DialCommand dial_command | CancelCommand pystr pystr

section \<open>Tokens\<close>

definition AUDIENCE :: pystr where "AUDIENCE = lit ''cloud-edge''"

definition SCOPE :: pystr where "SCOPE = lit ''edge''"

text \<open>\<open>decode\<close> gives the claims of a token with a valid signature, expiry and audience.\<close>

definition jwt_verify :: "(pystr \<Rightarrow> pystr \<Rightarrow> (pystr \<times> pyval) list option) \<Rightarrow> pystr \<Rightarrow> pystr option" where
  "jwt_verify decode token = (case decode AUDIENCE token of
       None \<Rightarrow> None
     | Some claims \<Rightarrow>
         if dget claims (lit ''scope'') \<noteq> PStr SCOPE then None
         else case dget claims (lit ''sub'') of
           PStr (c # cs) \<Rightarrow> Some (c # cs)
         | _ \<Rightarrow> None)"

definition bearer :: pystr where "bearer = lit ''Bearer ''"

definition authenticate :: "(pystr \<Rightarrow> pystr \<Rightarrow> (pystr \<times> pyval) list option) \<Rightarrow> (pystr \<times> pystr) list \<Rightarrow> pystr option" where
  "authenticate decode metadata =
     (let auth = (case map_of (rev metadata) (lit ''authorization'') of Some a \<Rightarrow> a | None \<Rightarrow> []) in
      if \<not> startswith auth bearer then None
      else jwt_verify decode (strip (drop (length bearer) auth)))"

section \<open>The dispatcher\<close>

record session_entry =
  entry_edge :: pystr
  entry_dial_ack :: bool

record dispatcher =
  bindings :: "pystr \<rightharpoonup> session_entry"
  alert_cb :: bool
  heartbeat_cb :: bool

definition new_dispatcher :: dispatcher where
  "new_dispatcher = \<lparr>bindings = Map.empty, alert_cb = False, heartbeat_cb = False\<rparr>"

definition disp_register :: "pystr \<Rightarrow> pystr \<Rightarrow> bool \<Rightarrow> dispatcher \<Rightarrow> dispatcher res" where
  "disp_register call edge ack d =
     (if bindings d call \<noteq> None then Inl ValueError
      else Inr (d\<lparr>bindings := (bindings d)(call \<mapsto> \<lparr>entry_edge = edge, entry_dial_ack = ack\<rparr>)\<rparr>))"

definition disp_deregister :: "pystr \<Rightarrow> dispatcher \<Rightarrow> dispatcher" where
  "disp_deregister call d = d\<lparr>bindings := (bindings d)(call := None)\<rparr>"

definition is_registered :: "pystr \<Rightarrow> dispatcher \<Rightarrow> bool" where
  "is_registered call d = (bindings d call \<noteq> None)"

definition on_hardware_alert :: "dispatcher \<Rightarrow> dispatcher" where
  "on_hardware_alert d = d\<lparr>alert_cb := True\<rparr>"

definition on_heartbeat :: "dispatcher \<Rightarrow> dispatcher" where
  "on_heartbeat d = d\<lparr>heartbeat_cb := True\<rparr>"

text \<open>The callback that a message leads to, if any.\<close>

datatype delivery = ToCallEvent pystr call_event_kind | ToDialAck pystr bool pystr | ToAlert pystr hardware_alert
  | ToHeartbeat pystr heartbeat

definition dispatch_call_event :: "pystr \<Rightarrow> pystr \<Rightarrow> call_event_kind \<Rightarrow> dispatcher \<Rightarrow> delivery option" where
  "dispatch_call_event edge call k d = (case bindings d call of
       None \<Rightarrow> None
     | Some entry \<Rightarrow> if entry_edge entry \<noteq> edge then None else Some (ToCallEvent call k))"

definition dispatch_dial_ack :: "pystr \<Rightarrow> pystr \<Rightarrow> bool \<Rightarrow> pystr \<Rightarrow> dispatcher \<Rightarrow> delivery option" where
  "dispatch_dial_ack edge call acc reason d = (case bindings d call of
       None \<Rightarrow> None
     | Some entry \<Rightarrow> if \<not> entry_dial_ack entry then None
         else if entry_edge entry \<noteq> edge then None else Some (ToDialAck call acc reason))"

definition dispatch_hardware_alert :: "pystr \<Rightarrow> hardware_alert \<Rightarrow> dispatcher \<Rightarrow> delivery option" where
  "dispatch_hardware_alert edge a d = (if alert_cb d then Some (ToAlert edge a) else None)"

definition dispatch_heartbeat :: "pystr \<Rightarrow> heartbeat \<Rightarrow> dispatcher \<Rightarrow> delivery option" where
  "dispatch_heartbeat edge h d = (if heartbeat_cb d then Some (ToHeartbeat edge h) else None)"

definition handle_edge_message :: "pystr \<Rightarrow> edge2cloud \<Rightarrow> dispatcher \<Rightarrow> delivery option" where
  "handle_edge_message edge msg d = (case msg of
       ECallEvent call k \<Rightarrow> dispatch_call_event edge call k d
     | EDialAck call acc reason \<Rightarrow> dispatch_dial_ack edge call acc reason d
     | EHardwareAlert a \<Rightarrow> dispatch_hardware_alert edge a d
     | EHeartbeat h \<Rightarrow> dispatch_heartbeat edge h d
     | EEmpty \<Rightarrow> None
     | EUnknown \<Rightarrow> None)"

section \<open>Heartbeats and alerts\<close>

datatype device_status = DevUnknown | DevDetected | DevRegistered | DevIdle | DevDialing | DevInCall | DevOffline | DevFlagged

record device_row =
  last_seen_at :: clock
  dev_status :: device_status

text \<open>\<open>codes\<close> are the numbers of the protocol's enumeration, from \<^verbatim>\<open>UNKNOWN\<close> to \<^verbatim>\<open>ERROR\<close> in the order of the
  table.\<close>

definition PROTO_STATUS_TO_ENUM :: "int list \<Rightarrow> int \<rightharpoonup> device_status" where
  "PROTO_STATUS_TO_ENUM codes = map_of (rev (zip codes
     [DevUnknown, DevDetected, DevRegistered, DevIdle, DevDialing, DevInCall, DevOffline, DevFlagged, DevOffline]))"

definition heartbeat_ts :: "clock \<Rightarrow> heartbeat \<Rightarrow> clock" where
  "heartbeat_ts now h = (case hb_ts h of Some t \<Rightarrow> t | None \<Rightarrow> now)"

definition touch_device :: "int list \<Rightarrow> clock \<Rightarrow> device_health \<Rightarrow> (int \<rightharpoonup> device_row) \<times> nat \<Rightarrow> (int \<rightharpoonup> device_row) \<times> nat" where
  "touch_device codes ts dh = (\<lambda>(db, touched).
     if dh_device_id dh \<le> 0 then (db, touched)
     else case db (dh_device_id dh) of
       None \<Rightarrow> (db, touched)
     | Some row \<Rightarrow>
         (db(dh_device_id dh \<mapsto> row\<lparr>last_seen_at := ts,
              dev_status := (case PROTO_STATUS_TO_ENUM codes (dh_status dh) of Some s \<Rightarrow> s | None \<Rightarrow> dev_status row)\<rparr>),
          Suc touched))"

definition apply_heartbeat :: "int list \<Rightarrow> clock \<Rightarrow> heartbeat \<Rightarrow> (int \<rightharpoonup> device_row) \<Rightarrow> (int \<rightharpoonup> device_row) \<times> nat" where
  "apply_heartbeat codes now h db =
     (if hb_devices h = [] then (db, 0)
      else fold (touch_device codes (heartbeat_ts now h)) (hb_devices h) (db, 0))"

text \<open>The handler commits, or, when the database fails, leaves everything as it was.\<close>

definition heartbeat_handler :: "int list \<Rightarrow> clock \<Rightarrow> bool \<Rightarrow> heartbeat \<Rightarrow> (int \<rightharpoonup> device_row) \<Rightarrow> (int \<rightharpoonup> device_row)" where
  "heartbeat_handler codes now ok h db = (if ok then fst (apply_heartbeat codes now h db) else db)"

definition payload_summary :: "alert_kind \<Rightarrow> (pystr \<times> pyval) list" where
  "payload_summary k = (case k of
       SignalLost n \<Rightarrow> [(lit ''kind'', PStr (lit ''signal_lost'')), (lit ''last_signal_strength'', PInt n)]
     | SimArrears t \<Rightarrow> [(lit ''kind'', PStr (lit ''sim_arrears'')), (lit ''balance_text'', PStr t)]
     | ModemInitFailed s t \<Rightarrow> [(lit ''kind'', PStr (lit ''modem_init_failed'')), (lit ''stage'', PStr s), (lit ''detail'', PStr t)]
     | AudioBufferStalled s n \<Rightarrow> [(lit ''kind'', PStr (lit ''audio_buffer_stalled'')), (lit ''direction'', PStr s),
         (lit ''stalled_ms'', PInt n)]
     | SimChanged i \<Rightarrow> [(lit ''kind'', PStr (lit ''sim_changed'')), (lit ''new_iccid'', PStr i)]
     | AlertNone \<Rightarrow> [(lit ''kind'', PStr (lit ''unknown''))]
     | AlertOther k \<Rightarrow> [(lit ''kind'', PStr k)])"

definition log_hardware_alert :: "(clock \<Rightarrow> pystr) \<Rightarrow> pystr \<Rightarrow> hardware_alert \<Rightarrow> (pystr \<times> pyval) list" where
  "log_hardware_alert isoformat edge a =
     dmerge [(lit ''edge_device_id'', PStr edge), (lit ''device_id'', PInt (ha_device_id a)),
       (lit ''ts'', case ha_ts a of Some t \<Rightarrow> PStr (isoformat t) | None \<Rightarrow> PNone)] (payload_summary (ha_kind a))"

section \<open>The server\<close>

datatype out_item = Frame cloud2edge | CloseMark

record server_stream =
  ss_edge :: pystr
  ss_out :: "out_item aqueue"
  ss_closed :: bool
  ss_blocked :: "cloud2edge list"
  ss_ended :: bool
  ss_gone :: bool
  ss_left :: bool
  ss_accepted :: "cloud2edge list"
  ss_sent :: "cloud2edge list"

record edge_server =
  streams :: "server_stream list"
  bound :: "pystr \<rightharpoonup> nat"
  device_edge :: "int \<rightharpoonup> pystr"
  registry :: dispatcher
  deliveries :: "(pystr \<times> delivery) list"

definition new_server_stream :: "pystr \<Rightarrow> server_stream" where
  "new_server_stream edge = \<lparr>ss_edge = edge, ss_out = new_queue 64, ss_closed = False, ss_blocked = [], ss_ended = False,
     ss_gone = False, ss_left = False, ss_accepted = [], ss_sent = []\<rparr>"

definition new_server :: "dispatcher \<Rightarrow> edge_server" where
  "new_server d = \<lparr>streams = [], bound = Map.empty, device_edge = Map.empty, registry = d, deliveries = []\<rparr>"

definition stream_connected :: "server_stream \<Rightarrow> bool" where
  "stream_connected st = (\<not> ss_closed st)"

definition close_stream :: "server_stream \<Rightarrow> server_stream" where
  "close_stream st =
     (if ss_closed st then st
      else case put_nowait CloseMark (ss_out st) of
        Some q \<Rightarrow> st\<lparr>ss_closed := True, ss_out := q\<rparr>
      | None \<Rightarrow> st\<lparr>ss_closed := True\<rparr>)"

text \<open>Sending: a closed stream refuses; a full queue makes the sender wait.\<close>

definition put_frame :: "cloud2edge \<Rightarrow> server_stream \<Rightarrow> server_stream option" where
  "put_frame m st = (case put_nowait (Frame m) (ss_out st) of
       Some q \<Rightarrow> Some (st\<lparr>ss_out := q, ss_accepted := ss_accepted st @ [m]\<rparr>)
     | None \<Rightarrow> None)"

definition stream_send :: "cloud2edge \<Rightarrow> server_stream \<Rightarrow> server_stream option" where
  "stream_send m st =
     (if ss_closed st then None
      else case put_frame m st of Some st' \<Rightarrow> Some st' | None \<Rightarrow> Some (st\<lparr>ss_blocked := ss_blocked st @ [m]\<rparr>))"

text \<open>One turn of the outbound generator.\<close>

definition outbound_step :: "server_stream \<Rightarrow> server_stream option" where
  "outbound_step st =
     (if ss_ended st \<or> ss_gone st then None
      else case get_nowait (ss_out st) of
        None \<Rightarrow> None
      | Some (CloseMark, q) \<Rightarrow> Some (st\<lparr>ss_out := q, ss_ended := True\<rparr>)
      | Some (Frame m, q) \<Rightarrow> Some (st\<lparr>ss_out := q, ss_sent := ss_sent st @ [m]\<rparr>))"

definition update_stream :: "nat \<Rightarrow> (server_stream \<Rightarrow> server_stream) \<Rightarrow> edge_server \<Rightarrow> edge_server" where
  "update_stream k f S = S\<lparr>streams := (streams S)[k := f (streams S ! k)]\<rparr>"

definition register_stream :: "pystr \<Rightarrow> edge_server \<Rightarrow> edge_server" where
  "register_stream edge S =
     (let S1 = (case bound S edge of Some old \<Rightarrow> update_stream old close_stream S | None \<Rightarrow> S)
      in S1\<lparr>streams := streams S1 @ [new_server_stream edge], bound := (bound S1)(edge \<mapsto> length (streams S1))\<rparr>)"

definition drop_devices :: "pystr \<Rightarrow> (int \<rightharpoonup> pystr) \<Rightarrow> (int \<rightharpoonup> pystr)" where
  "drop_devices edge m = (\<lambda>d. if m d = Some edge then None else m d)"

definition deregister_stream :: "nat \<Rightarrow> edge_server \<Rightarrow> edge_server" where
  "deregister_stream k S =
     (let edge = ss_edge (streams S ! k);
          S1 = (if bound S edge = Some k then S\<lparr>bound := (bound S)(edge := None)\<rparr> else S)
      in if bound S1 edge = None
         then S1\<lparr>device_edge := drop_devices edge (device_edge S1)\<rparr>
         else S1)"

definition send_to_edge :: "pystr \<Rightarrow> cloud2edge \<Rightarrow> edge_server \<Rightarrow> edge_server option" where
  "send_to_edge edge m S = (case bound S edge of
       None \<Rightarrow> None
     | Some k \<Rightarrow> map_option (\<lambda>st. update_stream k (\<lambda>_. st) S) (stream_send m (streams S ! k)))"

definition resolve_edge_for_device :: "int \<Rightarrow> edge_server \<Rightarrow> pystr option" where
  "resolve_edge_for_device dev S = device_edge S dev"

text \<open>One message of the reader: the devices of a heartbeat, then the callback.\<close>

definition learn_devices :: "pystr \<Rightarrow> edge2cloud \<Rightarrow> (int \<rightharpoonup> pystr) \<Rightarrow> (int \<rightharpoonup> pystr)" where
  "learn_devices edge msg m = (case msg of
       EHeartbeat h \<Rightarrow> fold (\<lambda>dh m. m(dh_device_id dh \<mapsto> edge)) (hb_devices h) m
     | _ \<Rightarrow> m)"

definition read_message :: "nat \<Rightarrow> edge2cloud \<Rightarrow> edge_server \<Rightarrow> edge_server" where
  "read_message k msg S =
     (let edge = ss_edge (streams S ! k);
          S1 = S\<lparr>device_edge := learn_devices edge msg (device_edge S)\<rparr>
      in case handle_edge_message edge msg (registry S1) of
           None \<Rightarrow> S1
         | Some dl \<Rightarrow> S1\<lparr>deliveries := deliveries S1 @ [(edge, dl)]\<rparr>)"

definition stop_server :: "edge_server \<Rightarrow> edge_server" where
  "stop_server S = S\<lparr>streams := map (\<lambda>k. if \<exists>e \<in> set (map ss_edge (streams S)). bound S e = Some k
     then close_stream (streams S ! k) else streams S ! k) [0..<length (streams S)]\<rparr>"

text \<open>The finally block of a stream's RPC: the reader is cancelled and awaited in between.\<close>

definition finally_begin :: "nat \<Rightarrow> edge_server \<Rightarrow> edge_server" where
  "finally_begin k S = update_stream k (\<lambda>st. (close_stream st)\<lparr>ss_gone := True\<rparr>) S"

definition finally_end :: "nat \<Rightarrow> edge_server \<Rightarrow> edge_server" where
  "finally_end k S = deregister_stream k (update_stream k (\<lambda>st. st\<lparr>ss_left := True\<rparr>) S)"

datatype server_act = Open pystr | Send pystr cloud2edge | PutBlocked nat nat | SendTimeout nat nat | Yield nat
  | Read nat edge2cloud | ReaderEnd nat | Finally nat | Leave nat | Stop
  | Bind pystr pystr bool | Unbind pystr

definition live :: "nat \<Rightarrow> edge_server \<Rightarrow> bool" where
  "live k S \<longleftrightarrow> k < length (streams S) \<and> \<not> ss_gone (streams S ! k)"

definition drop_nth :: "nat \<Rightarrow> 'a list \<Rightarrow> 'a list" where
  "drop_nth i xs = take i xs @ drop (Suc i) xs"

fun server_step :: "server_act \<Rightarrow> edge_server \<Rightarrow> edge_server option" where
  "server_step (Open edge) S = Some (register_stream edge S)"
| "server_step (Send edge m) S = send_to_edge edge m S"
| "server_step (PutBlocked k i) S =
     (if k < length (streams S) \<and> i < length (ss_blocked (streams S ! k)) then
        map_option (\<lambda>st. update_stream k (\<lambda>_. st\<lparr>ss_blocked := drop_nth i (ss_blocked st)\<rparr>) S)
          (put_frame (ss_blocked (streams S ! k) ! i) (streams S ! k))
      else None)"
| "server_step (SendTimeout k i) S =
     (if k < length (streams S) \<and> i < length (ss_blocked (streams S ! k))
      then Some (update_stream k (\<lambda>st. st\<lparr>ss_blocked := drop_nth i (ss_blocked st)\<rparr>) S) else None)"
| "server_step (Yield k) S =
     (if live k S then map_option (\<lambda>st. update_stream k (\<lambda>_. st) S) (outbound_step (streams S ! k)) else None)"
| "server_step (Read k msg) S = (if live k S then Some (read_message k msg S) else None)"
| "server_step (ReaderEnd k) S = (if live k S then Some (update_stream k close_stream S) else None)"
| "server_step (Finally k) S = (if live k S then Some (finally_begin k S) else None)"
| "server_step (Leave k) S =
     (if k < length (streams S) \<and> ss_gone (streams S ! k) \<and> \<not> ss_left (streams S ! k) then Some (finally_end k S) else None)"
| "server_step Stop S = Some (stop_server S)"
| "server_step (Bind call edge ack) S = (case disp_register call edge ack (registry S) of
       Inl _ \<Rightarrow> None | Inr d \<Rightarrow> Some (S\<lparr>registry := d\<rparr>))"
| "server_step (Unbind call) S = Some (S\<lparr>registry := disp_deregister call (registry S)\<rparr>)"


section \<open>Each stream\<close>

definition frames_in :: "out_item list \<Rightarrow> cloud2edge list" where
  "frames_in xs = concat (map (\<lambda>x. case x of Frame m \<Rightarrow> [m] | CloseMark \<Rightarrow> []) xs)"

lemma frames_in_simps [simp]:
  "frames_in [] = []"
  "frames_in (Frame m # xs) = m # frames_in xs"
  "frames_in (CloseMark # xs) = frames_in xs"
  "frames_in (xs @ ys) = frames_in xs @ frames_in ys"
  by (auto simp: frames_in_def)

text \<open>What every step on a stream keeps: the edge, the order of the messages, and that only a closed
  stream is torn down.\<close>

definition stream_ok :: "server_stream \<Rightarrow> bool" where
  "stream_ok st \<longleftrightarrow> ss_sent st @ frames_in (items (ss_out st)) = ss_accepted st
     \<and> (ss_gone st \<longrightarrow> ss_closed st) \<and> (ss_left st \<longrightarrow> ss_gone st)
     \<and> (ss_closed st \<or> CloseMark \<notin> set (items (ss_out st)) \<and> \<not> ss_ended st)
     \<and> maxsize (ss_out st) = 64 \<and> length (items (ss_out st)) \<le> 64"

definition evolves :: "server_stream \<Rightarrow> server_stream \<Rightarrow> bool" where
  "evolves st st' \<longleftrightarrow> ss_edge st' = ss_edge st \<and> ss_left st' = ss_left st \<and> (ss_closed st \<longrightarrow> ss_closed st')
     \<and> (stream_ok st \<longrightarrow> stream_ok st')"

lemma evolves_refl [simp]: "evolves st st"
  by (simp add: evolves_def)

lemma new_server_stream_ok [simp]: "stream_ok (new_server_stream edge)"
  by (simp add: stream_ok_def new_server_stream_def new_queue_def)

lemma close_stream_evolves [simp]: "evolves st (close_stream st)"
  by (auto simp: evolves_def stream_ok_def close_stream_def put_nowait_def qfull_def)

lemma close_stream_closed [simp]:
  "ss_closed (close_stream st)" "ss_gone (close_stream st) = ss_gone st" "ss_edge (close_stream st) = ss_edge st"
  "ss_left (close_stream st) = ss_left st"
  by (auto simp: close_stream_def split: option.splits)

lemma close_gone_evolves [simp]: "evolves st ((close_stream st)\<lparr>ss_gone := True\<rparr>)"
  using close_stream_evolves [of st] by (auto simp: evolves_def stream_ok_def)

lemma put_frame_evolves: "put_frame m st = Some st' \<Longrightarrow> evolves st st' \<and> ss_blocked st' = ss_blocked st"
  by (auto simp: evolves_def stream_ok_def put_frame_def put_nowait_def qfull_def split: if_splits)

lemma stream_send_evolves: "stream_send m st = Some st' \<Longrightarrow> evolves st st'"
  by (auto simp: stream_send_def evolves_def stream_ok_def dest!: put_frame_evolves split: if_splits option.splits)

lemma outbound_step_evolves: "outbound_step st = Some st' \<Longrightarrow> evolves st st'"
  by (auto simp: outbound_step_def evolves_def stream_ok_def dest!: get_nowait_items
      split: if_splits option.splits out_item.splits)

lemma blocked_evolves: "evolves st st' \<Longrightarrow> evolves st (st'\<lparr>ss_blocked := b\<rparr>)"
  by (simp add: evolves_def stream_ok_def)

section \<open>The registry of streams\<close>

definition server_inv :: "edge_server \<Rightarrow> bool" where
  "server_inv S \<longleftrightarrow>
     (\<forall>e k. bound S e = Some k \<longrightarrow> k < length (streams S) \<and> ss_edge (streams S ! k) = e \<and> \<not> ss_left (streams S ! k))
     \<and> (\<forall>k < length (streams S). stream_connected (streams S ! k) \<longrightarrow> bound S (ss_edge (streams S ! k)) = Some k)
     \<and> (\<forall>k < length (streams S). stream_ok (streams S ! k))
     \<and> (\<forall>d e. device_edge S d = Some e \<longrightarrow> (\<exists>k < length (streams S). ss_edge (streams S ! k) = e \<and> \<not> ss_left (streams S ! k)))"

lemma server_invI:
  assumes "\<And>f j. bound S f = Some j \<Longrightarrow> j < length (streams S) \<and> ss_edge (streams S ! j) = f \<and> \<not> ss_left (streams S ! j)"
    and "\<And>j. j < length (streams S) \<Longrightarrow> stream_connected (streams S ! j) \<Longrightarrow> bound S (ss_edge (streams S ! j)) = Some j"
    and "\<And>j. j < length (streams S) \<Longrightarrow> stream_ok (streams S ! j)"
    and "\<And>d f. device_edge S d = Some f \<Longrightarrow> \<exists>j < length (streams S). ss_edge (streams S ! j) = f \<and> \<not> ss_left (streams S ! j)"
  shows "server_inv S"
  unfolding server_inv_def using assms by blast

lemma server_invD:
  assumes "server_inv S"
  shows "\<And>f j. bound S f = Some j \<Longrightarrow> j < length (streams S) \<and> ss_edge (streams S ! j) = f \<and> \<not> ss_left (streams S ! j)"
    and "\<And>j. j < length (streams S) \<Longrightarrow> stream_connected (streams S ! j) \<Longrightarrow> bound S (ss_edge (streams S ! j)) = Some j"
    and "\<And>j. j < length (streams S) \<Longrightarrow> stream_ok (streams S ! j)"
    and "\<And>d f. device_edge S d = Some f \<Longrightarrow> \<exists>j < length (streams S). ss_edge (streams S ! j) = f \<and> \<not> ss_left (streams S ! j)"
  using assms unfolding server_inv_def by blast+

text \<open>A step that only lets streams evolve.\<close>

lemma server_inv_evolve:
  assumes "server_inv S" and "length ss = length (streams S)"
    and "\<And>k. k < length ss \<Longrightarrow> evolves (streams S ! k) (ss ! k)"
  shows "server_inv (S\<lparr>streams := ss\<rparr>)"
proof (rule server_invI)
  note i = server_invD [OF assms(1)]
  have e: "ss_edge (ss ! k) = ss_edge (streams S ! k) \<and> ss_left (ss ! k) = ss_left (streams S ! k)
      \<and> (stream_connected (ss ! k) \<longrightarrow> stream_connected (streams S ! k)) \<and> stream_ok (ss ! k)" if "k < length ss" for k
    using assms(2) assms(3) [OF that] i(3) [of k] that by (auto simp: evolves_def stream_connected_def)
  fix f j assume "bound (S\<lparr>streams := ss\<rparr>) f = Some j"
  then show "j < length (streams (S\<lparr>streams := ss\<rparr>)) \<and> ss_edge (streams (S\<lparr>streams := ss\<rparr>) ! j) = f
      \<and> \<not> ss_left (streams (S\<lparr>streams := ss\<rparr>) ! j)"
    using i(1) [of f j] e [of j] assms(2) by simp
next
  fix j assume "j < length (streams (S\<lparr>streams := ss\<rparr>))" "stream_connected (streams (S\<lparr>streams := ss\<rparr>) ! j)"
  then show "bound (S\<lparr>streams := ss\<rparr>) (ss_edge (streams (S\<lparr>streams := ss\<rparr>) ! j)) = Some j"
    using server_invD(2) [OF assms(1), of j] assms(2) assms(3) [of j] by (auto simp: evolves_def stream_connected_def)
next
  fix j assume "j < length (streams (S\<lparr>streams := ss\<rparr>))"
  then show "stream_ok (streams (S\<lparr>streams := ss\<rparr>) ! j)"
    using server_invD(3) [OF assms(1), of j] assms(2) assms(3) [of j] by (simp add: evolves_def)
next
  fix d f assume "device_edge (S\<lparr>streams := ss\<rparr>) d = Some f"
  then obtain j where "j < length (streams S)" "ss_edge (streams S ! j) = f" "\<not> ss_left (streams S ! j)"
    using server_invD(4) [OF assms(1), of d f] by auto
  then show "\<exists>j < length (streams (S\<lparr>streams := ss\<rparr>)). ss_edge (streams (S\<lparr>streams := ss\<rparr>) ! j) = f
      \<and> \<not> ss_left (streams (S\<lparr>streams := ss\<rparr>) ! j)"
    using assms(2) assms(3) [of j] by (intro exI [of _ j]) (simp add: evolves_def)
qed

lemma server_inv_update:
  assumes "server_inv S" and "k < length (streams S)" and "evolves (streams S ! k) (f (streams S ! k))"
  shows "server_inv (update_stream k f S)"
  unfolding update_stream_def
  using assms by (intro server_inv_evolve) (auto simp: nth_list_update)

text \<open>A new stream of an edge whose earlier streams are all closed.\<close>

lemma server_inv_add:
  assumes "server_inv S"
    and closed: "\<And>j. j < length (streams S) \<Longrightarrow> ss_edge (streams S ! j) = edge \<Longrightarrow> \<not> stream_connected (streams S ! j)"
  shows "server_inv (S\<lparr>streams := streams S @ [new_server_stream edge], bound := (bound S)(edge \<mapsto> length (streams S))\<rparr>)"
    (is "server_inv ?R")
proof (rule server_invI)
  note i = server_invD [OF assms(1)]
  have e: "ss_edge (new_server_stream edge) = edge" "\<not> ss_left (new_server_stream edge)"
    by (simp_all add: new_server_stream_def)
  show "j < length (streams ?R) \<and> ss_edge (streams ?R ! j) = f \<and> \<not> ss_left (streams ?R ! j)"
    if "bound ?R f = Some j" for f j
    using that i(1) [of f j] e by (auto simp: nth_append less_Suc_eq split: if_splits)
  show "bound ?R (ss_edge (streams ?R ! j)) = Some j"
    if "j < length (streams ?R)" "stream_connected (streams ?R ! j)" for j
    using that i(2) [of j] closed [of j] e by (auto simp: nth_append less_Suc_eq)
  show "stream_ok (streams ?R ! j)" if "j < length (streams ?R)" for j
    using that i(3) [of j] by (auto simp: nth_append less_Suc_eq)
  show "\<exists>j < length (streams ?R). ss_edge (streams ?R ! j) = f \<and> \<not> ss_left (streams ?R ! j)"
    if d: "device_edge ?R d = Some f" for d f
  proof -
    obtain j where "j < length (streams S)" "ss_edge (streams S ! j) = f" "\<not> ss_left (streams S ! j)"
      using i(4) [of d f] d by auto
    then show ?thesis by (intro exI [of _ j]) (simp add: nth_append)
  qed
qed

lemma server_inv_register:
  assumes "server_inv S"
  shows "server_inv (register_stream edge S)"
proof (cases "bound S edge")
  case None
  have "\<not> stream_connected (streams S ! j)" if "j < length (streams S)" "ss_edge (streams S ! j) = edge" for j
    using server_invD(2) [OF assms that(1)] that(2) None by auto
  from server_inv_add [where edge = edge, OF assms this] None show ?thesis by (simp add: register_stream_def Let_def)
next
  case (Some old)
  then have old: "old < length (streams S)" "ss_edge (streams S ! old) = edge"
    using server_invD(1) [OF assms] by blast+
  let ?S = "update_stream old close_stream S"
  have i: "server_inv ?S" by (rule server_inv_update [OF assms old(1)]) simp
  have "\<not> stream_connected (streams ?S ! j)" if j: "j < length (streams ?S)" "ss_edge (streams ?S ! j) = edge" for j
  proof
    assume c: "stream_connected (streams ?S ! j)"
    with server_invD(2) [OF i j(1)] j(2) Some have "j = old" by (simp add: update_stream_def)
    with c old(1) show False by (simp add: update_stream_def stream_connected_def)
  qed
  from server_inv_add [where edge = edge, OF i this] Some show ?thesis by (simp add: register_stream_def Let_def)
qed

text \<open>Leaving the registry.\<close>

lemma finally_end_eq:
  "finally_end k S = (let edge = ss_edge (streams S ! k); ss = (streams S)[k := (streams S ! k)\<lparr>ss_left := True\<rparr>] in
     if bound S edge = Some k then S\<lparr>streams := ss, bound := (bound S)(edge := None),
       device_edge := drop_devices edge (device_edge S)\<rparr>
     else if bound S edge = None then S\<lparr>streams := ss, device_edge := drop_devices edge (device_edge S)\<rparr>
     else S\<lparr>streams := ss\<rparr>)" if "k < length (streams S)"
  using that by (simp add: finally_end_def deregister_stream_def update_stream_def Let_def)

lemma server_inv_leave:
  assumes "server_inv S" and "k < length (streams S)" and "ss_gone (streams S ! k)"
  shows "server_inv (finally_end k S)"
proof (rule server_invI)
  note i = server_invD [OF assms(1)]
  define edge where "edge = ss_edge (streams S ! k)"
  let ?R = "finally_end k S"
  note eq = finally_end_eq [OF assms(2), folded edge_def, unfolded Let_def]
  have ok: "stream_ok (streams S ! k)" using i(3) assms(2) .
  then have nc: "\<not> stream_connected (streams S ! k)" using assms(3) by (simp add: stream_ok_def stream_connected_def)
  have strs: "streams ?R = (streams S)[k := (streams S ! k)\<lparr>ss_left := True\<rparr>]"
    unfolding eq by simp
  have len: "length (streams ?R) = length (streams S)" by (simp add: strs)
  have nth: "ss_edge (streams ?R ! j) = ss_edge (streams S ! j)"
      "stream_connected (streams ?R ! j) = stream_connected (streams S ! j)"
      "ss_left (streams ?R ! j) = (j = k \<or> ss_left (streams S ! j))"
      "stream_ok (streams S ! j) \<Longrightarrow> stream_ok (streams ?R ! j)" if "j < length (streams S)" for j
    using that assms(2,3) by (auto simp: strs nth_list_update stream_connected_def stream_ok_def)
  have bnd: "bound ?R f = (if bound S edge = Some k \<and> f = edge then None else bound S f)" for f
    unfolding eq by simp
  have dev: "device_edge ?R d = (if bound S edge \<in> {None, Some k} then drop_devices edge (device_edge S) d else device_edge S d)" for d
    unfolding eq by (cases "bound S edge") simp_all
  show "j < length (streams ?R) \<and> ss_edge (streams ?R ! j) = f \<and> \<not> ss_left (streams ?R ! j)"
    if "bound ?R f = Some j" for f j
    using that i(1) [of f j] nth [of j] len by (auto simp: bnd edge_def split: if_splits)
  show "bound ?R (ss_edge (streams ?R ! j)) = Some j"
    if "j < length (streams ?R)" "stream_connected (streams ?R ! j)" for j
  proof -
    have j: "j < length (streams S)" "stream_connected (streams S ! j)"
      using that nth(2) [of j] unfolding len by blast+
    with nc have "j \<noteq> k" by blast
    with i(2) [OF j] show ?thesis unfolding bnd nth(1) [OF j(1)] by auto
  qed
  show "stream_ok (streams ?R ! j)" if "j < length (streams ?R)" for j
    using that i(3) [of j] nth(4) [of j] len by simp
  show "\<exists>j < length (streams ?R). ss_edge (streams ?R ! j) = f \<and> \<not> ss_left (streams ?R ! j)"
    if d: "device_edge ?R d = Some f" for d f
  proof (cases "f = edge")
    case True
    with d have "bound S edge \<notin> {None, Some k}" by (auto simp: dev drop_devices_def split: if_splits)
    then obtain j where j: "bound S edge = Some j" "j \<noteq> k" by auto
    with i(1) [OF j(1)] nth [of j] len True show ?thesis by (intro exI [of _ j]) simp
  next
    case False
    with d obtain j where "j < length (streams S)" "ss_edge (streams S ! j) = f" "\<not> ss_left (streams S ! j)"
      using i(4) [of d f] by (auto simp: dev drop_devices_def split: if_splits)
    with nth [of j] len False show ?thesis by (intro exI [of _ j]) (auto simp: edge_def)
  qed
qed

text \<open>Reading a message maps devices to the edge of a stream that is still there.\<close>

lemma learn_devices_cases:
  "learn_devices edge msg m d = Some f \<Longrightarrow> f = edge \<or> m d = Some f"
proof -
  have "fold (\<lambda>dh m. m(dh_device_id dh \<mapsto> edge)) hs m d = Some f \<Longrightarrow> f = edge \<or> m d = Some f" for hs m
  proof (induction hs arbitrary: m)
    case (Cons a hs)
    then show ?case using Cons.IH [of "m(dh_device_id a \<mapsto> edge)"] by (auto split: if_splits)
  qed simp
  then show "learn_devices edge msg m d = Some f \<Longrightarrow> f = edge \<or> m d = Some f"
    by (auto simp: learn_devices_def split: edge2cloud.splits)
qed

lemma read_message_simps [simp]:
  "streams (read_message k msg S) = streams S"
  "bound (read_message k msg S) = bound S"
  "registry (read_message k msg S) = registry S"
  "device_edge (read_message k msg S) = learn_devices (ss_edge (streams S ! k)) msg (device_edge S)"
  by (auto simp: read_message_def Let_def split: option.splits)

lemma server_inv_read:
  assumes "server_inv S" and "live k S"
  shows "server_inv (read_message k msg S)"
proof (rule server_invI)
  note i = server_invD [OF assms(1)]
  have k: "k < length (streams S)" "\<not> ss_left (streams S ! k)"
    using assms(2) i(3) [of k] by (auto simp: live_def stream_ok_def)
  show "\<exists>j < length (streams (read_message k msg S)). ss_edge (streams (read_message k msg S) ! j) = f
      \<and> \<not> ss_left (streams (read_message k msg S) ! j)" if "device_edge (read_message k msg S) d = Some f" for d f
    using learn_devices_cases [of "ss_edge (streams S ! k)" msg "device_edge S" d f] that k i(4) [of d f] by auto
qed (use server_invD [OF assms(1)] in simp_all)

lemma send_to_edge_inv:
  assumes "server_inv S" and "send_to_edge edge m S = Some S'"
  shows "server_inv S'"
proof -
  obtain k st where k: "bound S edge = Some k" "stream_send m (streams S ! k) = Some st" "S' = update_stream k (\<lambda>_. st) S"
    using assms(2) by (auto simp: send_to_edge_def split: option.splits)
  show ?thesis
    unfolding k(3) using server_invD(1) [OF assms(1) k(1)] stream_send_evolves [OF k(2)]
    by (intro server_inv_update [OF assms(1)]) auto
qed

lemma stop_server_inv:
  assumes "server_inv S"
  shows "server_inv (stop_server S)"
  unfolding stop_server_def by (rule server_inv_evolve [OF assms]) auto

lemma server_step_inv:
  assumes "server_inv S" and "server_step a S = Some S'"
  shows "server_inv S'"
proof (cases a)
  case (PutBlocked k i)
  then obtain st where "k < length (streams S)" "put_frame (ss_blocked (streams S ! k) ! i) (streams S ! k) = Some st"
    "S' = update_stream k (\<lambda>_. st\<lparr>ss_blocked := drop_nth i (ss_blocked st)\<rparr>) S"
    using assms(2) by (auto split: if_splits)
  then show ?thesis
    using put_frame_evolves blocked_evolves by (auto intro!: server_inv_update [OF assms(1)])
next
  case (Yield k)
  then obtain st where "k < length (streams S)" "outbound_step (streams S ! k) = Some st" "S' = update_stream k (\<lambda>_. st) S"
    using assms(2) by (auto simp: live_def split: if_splits)
  then show ?thesis
    using outbound_step_evolves by (auto intro!: server_inv_update [OF assms(1)])
next
  case (Send edge m)
  with assms show ?thesis by (auto intro: send_to_edge_inv)
next
  case (Bind call edge ack)
  with assms show ?thesis by (auto simp: server_inv_def split: sum.splits)
next
  case (Unbind call)
  with assms show ?thesis by (auto simp: server_inv_def)
next
  case (Open edge)
  with assms show ?thesis by (auto intro: server_inv_register)
next
  case (SendTimeout k i)
  with assms show ?thesis
    by (auto split: if_splits intro!: server_inv_update blocked_evolves)
next
  case (Read k msg)
  with assms show ?thesis by (auto split: if_splits intro: server_inv_read)
next
  case (ReaderEnd k)
  with assms show ?thesis by (auto simp: live_def split: if_splits intro: server_inv_update)
next
  case (Finally k)
  with assms show ?thesis by (auto simp: live_def finally_begin_def split: if_splits intro: server_inv_update)
next
  case (Leave k)
  with assms show ?thesis by (auto split: if_splits intro: server_inv_leave)
next
  case Stop
  with assms show ?thesis by (auto intro: stop_server_inv)
qed

lemma new_server_inv: "server_inv (new_server d)"
  by (simp add: server_inv_def new_server_def)

interpretation edges: invariant_of "\<lambda>S. S = new_server d" server_step server_inv
  by unfold_locales (auto simp: new_server_inv intro: server_step_inv)

section \<open>Properties\<close>

text \<open>C13. In every reachable state of the server an edge has at most one connected stream, however its
  reconnects interleave with the teardown of its old streams; what an edge was sent is a prefix of what was
  accepted for it, in the same order, and the rest is still in its bounded queue; a message for an edge is
  handed to that edge's connected stream; and a device resolves only to an edge whose stream has not left
  the registry.\<close>

theorem edge_streams_consistent:
  assumes "reach (\<lambda>S. S = new_server d) server_step S"
  shows "(\<forall>j k. j < length (streams S) \<and> k < length (streams S) \<and> stream_connected (streams S ! j)
             \<and> stream_connected (streams S ! k) \<and> ss_edge (streams S ! j) = ss_edge (streams S ! k) \<longrightarrow> j = k)
     \<and> (\<forall>k < length (streams S). ss_accepted (streams S ! k)
             = ss_sent (streams S ! k) @ frames_in (items (ss_out (streams S ! k)))
           \<and> length (items (ss_out (streams S ! k))) \<le> 64)
     \<and> (\<forall>edge m S'. send_to_edge edge m S = Some S' \<longrightarrow>
           (\<exists>k < length (streams S). stream_connected (streams S ! k) \<and> ss_edge (streams S ! k) = edge
             \<and> (ss_accepted (streams S' ! k) = ss_accepted (streams S ! k) @ [m]
                \<or> ss_blocked (streams S' ! k) = ss_blocked (streams S ! k) @ [m])))
     \<and> (\<forall>dev edge. resolve_edge_for_device dev S = Some edge \<longrightarrow>
           (\<exists>k < length (streams S). ss_edge (streams S ! k) = edge \<and> \<not> ss_left (streams S ! k)))"
proof (intro conjI allI impI)
  note i = server_invD [OF edges.reach_inv [OF assms]]
  show "j = k" if "j < length (streams S) \<and> k < length (streams S) \<and> stream_connected (streams S ! j)
      \<and> stream_connected (streams S ! k) \<and> ss_edge (streams S ! j) = ss_edge (streams S ! k)" for j k
    using that i(2) [of j] i(2) [of k] by (metis option.inject)
  show "ss_accepted (streams S ! k) = ss_sent (streams S ! k) @ frames_in (items (ss_out (streams S ! k)))"
      "length (items (ss_out (streams S ! k))) \<le> 64" if "k < length (streams S)" for k
    using i(3) [OF that] by (simp_all add: stream_ok_def)
  show "\<exists>k < length (streams S). ss_edge (streams S ! k) = edge \<and> \<not> ss_left (streams S ! k)"
      if "resolve_edge_for_device dev S = Some edge" for dev edge
    using i(4) that by (simp add: resolve_edge_for_device_def)
  show "\<exists>k < length (streams S). stream_connected (streams S ! k) \<and> ss_edge (streams S ! k) = edge
      \<and> (ss_accepted (streams S' ! k) = ss_accepted (streams S ! k) @ [m]
         \<or> ss_blocked (streams S' ! k) = ss_blocked (streams S ! k) @ [m])"
    if sent: "send_to_edge edge m S = Some S'" for edge m S'
  proof -
    obtain k st where k: "bound S edge = Some k" "stream_send m (streams S ! k) = Some st" "S' = update_stream k (\<lambda>_. st) S"
      using sent by (auto simp: send_to_edge_def split: option.splits)
    have "stream_connected (streams S ! k) \<and> (ss_accepted st = ss_accepted (streams S ! k) @ [m]
        \<or> ss_blocked st = ss_blocked (streams S ! k) @ [m])"
      using k(2) by (auto simp: stream_send_def put_frame_def stream_connected_def split: if_splits option.splits)
    with i(1) [OF k(1)] k(3) show ?thesis by (intro exI [of _ k]) (simp add: update_stream_def)
  qed
qed

definition demo_server :: edge_server where
  "demo_server = register_stream (lit ''e1'') (register_stream (lit ''e1'') (new_server new_dispatcher))"

theorem edge_streams_consistent_witness:
  "reach (\<lambda>S. S = new_server new_dispatcher) server_step demo_server \<and> length (streams demo_server) = 2
   \<and> ss_edge (streams demo_server ! 0) = ss_edge (streams demo_server ! 1)
   \<and> \<not> (stream_connected (streams demo_server ! 0) \<and> stream_connected (streams demo_server ! 1))"
proof -
  have l: "length (streams demo_server) = 2" and e: "ss_edge (streams demo_server ! 0) = ss_edge (streams demo_server ! 1)"
    by (simp_all add: demo_server_def register_stream_def new_server_def update_stream_def new_server_stream_def Let_def)
  have "run_acts server_step [Open (lit ''e1''), Open (lit ''e1'')] (new_server new_dispatcher) = Some demo_server"
    by (simp add: demo_server_def)
  then have r: "reach (\<lambda>S. S = new_server new_dispatcher) server_step demo_server"
    by (rule reach_run_acts [rotated]) (simp add: reach_init)
  have "\<not> (stream_connected (streams demo_server ! 0) \<and> stream_connected (streams demo_server ! 1))"
    using conjunct1 [OF edge_streams_consistent [OF r], THEN spec, THEN spec, of 0 1] l e by simp
  with r l e show ?thesis by blast
qed

text \<open>What the registry of calls holds was bound before, and what is delivered goes to a bound call.\<close>

fun delivery_bound :: "server_act list \<Rightarrow> pystr \<times> delivery \<Rightarrow> bool" where
  "delivery_bound acts (edge, ToCallEvent call k) = (Bind call edge True \<in> set acts \<or> Bind call edge False \<in> set acts)"
| "delivery_bound acts (edge, ToDialAck call acc reason) = (Bind call edge True \<in> set acts)"
| "delivery_bound acts (edge, ToAlert e a) = (e = edge)"
| "delivery_bound acts (edge, ToHeartbeat e h) = (e = edge)"

definition entries_bound :: "server_act list \<Rightarrow> dispatcher \<Rightarrow> bool" where
  "entries_bound acts d \<longleftrightarrow> (\<forall>call entry. bindings d call = Some entry \<longrightarrow>
     Bind call (entry_edge entry) (entry_dial_ack entry) \<in> set acts)"

lemma delivery_bound_mono: "delivery_bound acts x \<Longrightarrow> delivery_bound (acts @ [a]) x"
  by (induction acts x rule: delivery_bound.induct) auto

lemma entries_boundD: "entries_bound acts d \<Longrightarrow> bindings d call = Some entry \<Longrightarrow>
    Bind call (entry_edge entry) (entry_dial_ack entry) \<in> set acts"
  unfolding entries_bound_def by blast

lemma entries_bound_mono: "entries_bound acts d \<Longrightarrow> entries_bound (acts @ [a]) d"
  by (simp add: entries_bound_def)

lemma entry_ack_cases:
  assumes "entries_bound acts d" and "bindings d call = Some entry"
  shows "Bind call (entry_edge entry) True \<in> set acts \<or> Bind call (entry_edge entry) False \<in> set acts"
  using entries_boundD [OF assms] by (cases "entry_dial_ack entry") simp_all

lemma routed_bound:
  assumes "entries_bound acts d" and "handle_edge_message edge msg d = Some dl"
  shows "delivery_bound acts (edge, dl)"
proof (cases msg)
  case (ECallEvent call k)
  then obtain entry where "bindings d call = Some entry" "entry_edge entry = edge" "dl = ToCallEvent call k"
    using assms(2) by (auto simp: handle_edge_message_def dispatch_call_event_def split: option.splits if_splits)
  then show ?thesis using entry_ack_cases [OF assms(1)] by auto
next
  case (EDialAck call acc reason)
  then obtain entry where "bindings d call = Some entry" "entry_edge entry = edge" "entry_dial_ack entry"
      "dl = ToDialAck call acc reason"
    using assms(2) by (auto simp: handle_edge_message_def dispatch_dial_ack_def split: option.splits if_splits)
  then show ?thesis using entries_boundD [OF assms(1)] by fastforce
qed (use assms(2) in \<open>auto simp: handle_edge_message_def dispatch_hardware_alert_def dispatch_heartbeat_def split: if_splits\<close>)

definition bound_by :: "server_act list \<Rightarrow> edge_server \<Rightarrow> bool" where
  "bound_by acts S \<longleftrightarrow> entries_bound acts (registry S) \<and> list_all (delivery_bound acts) (deliveries S)"

lemma registry_simps [simp]:
  "registry (update_stream k f S) = registry S" "deliveries (update_stream k f S) = deliveries S"
  "registry (register_stream edge S) = registry S" "deliveries (register_stream edge S) = deliveries S"
  "registry (finally_begin k S) = registry S" "deliveries (finally_begin k S) = deliveries S"
  "registry (finally_end k S) = registry S" "deliveries (finally_end k S) = deliveries S"
  "registry (stop_server S) = registry S" "deliveries (stop_server S) = deliveries S"
  by (auto simp: update_stream_def register_stream_def finally_begin_def finally_end_def deregister_stream_def
      stop_server_def Let_def split: option.splits)

lemma send_to_edge_registry:
  "send_to_edge edge m S = Some S' \<Longrightarrow> registry S' = registry S \<and> deliveries S' = deliveries S"
  by (auto simp: send_to_edge_def split: option.splits)

lemma bound_by_same:
  "bound_by acts S \<Longrightarrow> registry S' = registry S \<Longrightarrow> deliveries S' = deliveries S \<Longrightarrow> bound_by (acts @ [a]) S'"
  by (auto simp: bound_by_def list_all_iff intro: delivery_bound_mono entries_bound_mono)

lemma bound_by_read:
  assumes "bound_by acts S"
  shows "bound_by (acts @ [a]) (read_message k msg S)"
proof (cases "handle_edge_message (ss_edge (streams S ! k)) msg (registry S)")
  case None
  then have "deliveries (read_message k msg S) = deliveries S" by (simp add: read_message_def Let_def)
  then show ?thesis by (intro bound_by_same [OF assms]) simp_all
next
  case (Some dl)
  have e: "entries_bound acts (registry S)" and l: "list_all (delivery_bound acts) (deliveries S)"
    using assms by (simp_all add: bound_by_def)
  have "deliveries (read_message k msg S) = deliveries S @ [(ss_edge (streams S ! k), dl)]"
    using Some by (simp add: read_message_def Let_def)
  moreover have "list_all (delivery_bound (acts @ [a])) (deliveries S)"
    using l by (auto simp: list_all_iff intro: delivery_bound_mono)
  ultimately show ?thesis
    using delivery_bound_mono [OF routed_bound [OF e Some]] entries_bound_mono [OF e]
    by (simp add: bound_by_def)
qed

lemma entries_bound_register:
  "entries_bound acts d \<Longrightarrow> disp_register call edge ack d = Inr d' \<Longrightarrow> entries_bound (acts @ [Bind call edge ack]) d'"
  unfolding entries_bound_def disp_register_def by (fastforce split: if_splits)

lemma entries_bound_deregister: "entries_bound acts d \<Longrightarrow> entries_bound acts (disp_deregister call d)"
  by (auto simp: entries_bound_def disp_deregister_def split: if_splits)

lemma server_step_bound_by:
  assumes "bound_by acts S" and "server_step a S = Some S'"
  shows "bound_by (acts @ [a]) S'"
proof (cases a)
  case (Read k msg)
  with assms show ?thesis by (auto split: if_splits intro: bound_by_read)
next
  case (Send edge m)
  with assms show ?thesis by (auto dest!: send_to_edge_registry intro: bound_by_same)
next
  case (Bind call edge ack)
  then obtain d' where d: "disp_register call edge ack (registry S) = Inr d'" "S' = S\<lparr>registry := d'\<rparr>"
    using assms(2) by (auto split: sum.splits)
  have "entries_bound (acts @ [a]) d'"
    using entries_bound_register [OF _ d(1)] assms(1) Bind by (simp add: bound_by_def)
  with d(2) assms(1) show ?thesis by (auto simp: bound_by_def list_all_iff intro: delivery_bound_mono)
next
  case (Unbind call)
  have "entries_bound (acts @ [a]) (disp_deregister call (registry S))"
    using assms(1) by (auto simp: bound_by_def intro: entries_bound_mono entries_bound_deregister)
  with Unbind assms show ?thesis by (auto simp: bound_by_def list_all_iff intro: delivery_bound_mono)
qed (use assms in \<open>auto split: if_splits intro: bound_by_same\<close>)

lemma run_bound_by:
  "bound_by acts0 S \<Longrightarrow> run_acts server_step acts S = Some S' \<Longrightarrow> bound_by (acts0 @ acts) S'"
proof (induction acts arbitrary: acts0 S)
  case (Cons a acts)
  then obtain S1 where "server_step a S = Some S1" "run_acts server_step acts S1 = Some S'"
    by (auto split: option.splits)
  with Cons.IH [OF server_step_bound_by [OF Cons.prems(1)]] show ?case by simp
qed simp

text \<open>C14. A call only ever hears the edge it was registered with: every event and every dial acknowledgement
  that a run of the server delivers to a call came from an authenticated stream of the edge for which that
  call was bound earlier in the run, an acknowledgement only where the binding asked for one; and alerts
  and heartbeats are attributed to the edge whose stream carried them.\<close>

theorem calls_hear_only_their_edge:
  assumes "run_acts server_step acts (new_server d) = Some S" and "bindings d = Map.empty"
    and "x \<in> set (deliveries S)"
  shows "delivery_bound acts x"
proof -
  have "bound_by [] (new_server d)"
    using assms(2) by (simp add: bound_by_def entries_bound_def new_server_def)
  from run_bound_by [OF this assms(1)] assms(3) show ?thesis
    by (simp add: bound_by_def list_all_iff)
qed

definition demo_hangup_acts :: "server_act list" where
  "demo_hangup_acts = [Open (lit ''e1''), Open (lit ''e2''), Bind (lit ''c'') (lit ''e1'') True,
     Read 1 (ECallEvent (lit ''c'') (RemoteHangup 0)), Read 0 (ECallEvent (lit ''c'') (RemoteHangup 0))]"

theorem calls_hear_only_their_edge_witness:
  "\<exists>S. run_acts server_step demo_hangup_acts (new_server new_dispatcher) = Some S
     \<and> deliveries S = [(lit ''e1'', ToCallEvent (lit ''c'') (RemoteHangup 0))]
     \<and> delivery_bound demo_hangup_acts (lit ''e1'', ToCallEvent (lit ''c'') (RemoteHangup 0))"
proof -
  let ?S = "run_acts server_step demo_hangup_acts (new_server new_dispatcher)"
  obtain S where s: "?S = Some S" "deliveries S = [(lit ''e1'', ToCallEvent (lit ''c'') (RemoteHangup 0))]"
    by (simp add: demo_hangup_acts_def new_server_def new_dispatcher_def register_stream_def new_server_stream_def
        disp_register_def live_def read_message_def learn_devices_def handle_edge_message_def dispatch_call_event_def
        lit_def Let_def)
  have "delivery_bound demo_hangup_acts (lit ''e1'', ToCallEvent (lit ''c'') (RemoteHangup 0))"
    by (rule calls_hear_only_their_edge [OF s(1)]) (simp_all add: s(2) new_dispatcher_def)
  with s show ?thesis by blast
qed

subsection \<open>Closing a full stream\<close>

text \<open>A closed stream without the mark in its queue: nothing ends its outbound loop any more.\<close>

definition unmarked :: "server_stream \<Rightarrow> bool" where
  "unmarked st \<longleftrightarrow> ss_closed st \<and> \<not> ss_ended st \<and> CloseMark \<notin> set (items (ss_out st))"

lemma unmarked_simps [simp]:
  "unmarked st \<Longrightarrow> close_stream st = st" "unmarked st \<Longrightarrow> stream_send m st = None"
  "unmarked (st\<lparr>ss_gone := g\<rparr>) = unmarked st" "unmarked (st\<lparr>ss_left := l\<rparr>) = unmarked st"
  "unmarked (st\<lparr>ss_blocked := b\<rparr>) = unmarked st"
  by (simp_all add: unmarked_def close_stream_def stream_send_def)

lemma unmarked_put: "unmarked st \<Longrightarrow> put_frame m st = Some st' \<Longrightarrow> unmarked st'"
  by (auto simp: unmarked_def put_frame_def put_nowait_def split: if_splits)

lemma unmarked_outbound: "unmarked st \<Longrightarrow> outbound_step st = Some st' \<Longrightarrow> unmarked st'"
  by (auto simp: unmarked_def outbound_step_def dest!: get_nowait_items split: if_splits option.splits out_item.splits)

definition stuck :: "nat \<Rightarrow> edge_server \<Rightarrow> bool" where
  "stuck k S \<longleftrightarrow> k < length (streams S) \<and> unmarked (streams S ! k)"

lemma stuck_update:
  "stuck k S \<Longrightarrow> (j = k \<Longrightarrow> unmarked (f (streams S ! k))) \<Longrightarrow> stuck k (update_stream j f S)"
  by (cases "j = k") (auto simp: stuck_def update_stream_def)

lemma stuck_close: "stuck k S \<Longrightarrow> stuck k (update_stream j close_stream S)"
  by (intro stuck_update) (auto simp: stuck_def)

lemma stuck_finally_begin: "stuck k S \<Longrightarrow> stuck k (finally_begin j S)"
  unfolding finally_begin_def by (intro stuck_update) (auto simp: stuck_def)

lemma stuck_register:
  assumes "stuck k S"
  shows "stuck k (register_stream edge S)"
proof (cases "bound S edge")
  case None
  with assms show ?thesis by (simp add: stuck_def register_stream_def nth_append)
next
  case (Some old)
  have "stuck k (update_stream old close_stream S)"
    using assms by (rule stuck_close)
  with Some show ?thesis by (simp add: stuck_def register_stream_def nth_append Let_def)
qed

lemma stuck_send:
  assumes "stuck k S" and "send_to_edge edge m S = Some S'"
  shows "stuck k S'"
proof -
  obtain j st where j: "stream_send m (streams S ! j) = Some st" "S' = update_stream j (\<lambda>_. st) S"
    using assms(2) by (auto simp: send_to_edge_def split: option.splits)
  have "j \<noteq> k" using j(1) assms(1) by (auto simp: stuck_def)
  with j(2) assms(1) show ?thesis by (auto intro: stuck_update)
qed

lemma stuck_finally_end: "stuck k S \<Longrightarrow> stuck k (finally_end j S)"
proof -
  have "streams (finally_end j S) = streams (update_stream j (\<lambda>st. st\<lparr>ss_left := True\<rparr>) S)"
    by (simp add: finally_end_def deregister_stream_def Let_def)
  then show "stuck k S \<Longrightarrow> stuck k (finally_end j S)"
    using stuck_update [of k S j "\<lambda>st. st\<lparr>ss_left := True\<rparr>"] by (simp add: stuck_def)
qed

lemma stuck_step:
  assumes "stuck k S" and "server_step a S = Some S'"
  shows "stuck k S'"
proof (cases a)
  case (PutBlocked j i)
  then obtain st where "put_frame (ss_blocked (streams S ! j) ! i) (streams S ! j) = Some st"
    "S' = update_stream j (\<lambda>_. st\<lparr>ss_blocked := drop_nth i (ss_blocked st)\<rparr>) S"
    using assms(2) by (auto split: if_splits)
  moreover have "unmarked st" if "j = k"
    using assms(1) unmarked_put calculation(1) that unfolding stuck_def by blast
  ultimately show ?thesis
    using stuck_update [OF assms(1)] by simp
next
  case (Yield j)
  then obtain st where "outbound_step (streams S ! j) = Some st" "S' = update_stream j (\<lambda>_. st) S"
    using assms(2) by (auto split: if_splits)
  moreover have "unmarked st" if "j = k"
    using assms(1) unmarked_outbound calculation(1) that unfolding stuck_def by blast
  ultimately show ?thesis
    using stuck_update [OF assms(1)] by simp
next
  case (Open edge)
  with assms show ?thesis by (auto intro: stuck_register)
next
  case (Send edge m)
  with assms show ?thesis by (auto intro: stuck_send)
next
  case (SendTimeout j i)
  with assms show ?thesis by (auto simp: stuck_def split: if_splits intro!: stuck_update [unfolded stuck_def])
next
  case (Read j msg)
  with assms show ?thesis by (auto simp: stuck_def split: if_splits)
next
  case (ReaderEnd j)
  with assms show ?thesis by (auto split: if_splits intro: stuck_close)
next
  case (Finally j)
  with assms show ?thesis by (auto split: if_splits intro: stuck_finally_begin)
next
  case (Leave j)
  with assms show ?thesis by (auto split: if_splits intro: stuck_finally_end)
next
  case Stop
  with assms show ?thesis by (auto simp: stuck_def stop_server_def)
next
  case (Bind call edge ack)
  with assms show ?thesis by (auto simp: stuck_def split: sum.splits)
next
  case (Unbind call)
  with assms show ?thesis by (auto simp: stuck_def)
qed

lemma stuck_run: "stuck k S \<Longrightarrow> run_acts server_step acts S = Some S' \<Longrightarrow> stuck k S'"
  by (induction acts arbitrary: S) (auto split: option.splits dest: stuck_step)

text \<open>C29. When an edge reconnects while the queue of its previous stream is full, closing that stream
  loses the mark that ends it: whatever happens afterwards, its outbound loop never ends by itself, though the
  comment in \<^verbatim>\<open>close\<close> relies on the loop to look at the closed flag.\<close>

theorem displaced_full_stream_never_ends:
  assumes "reach (\<lambda>S. S = new_server d) server_step S" and "bound S edge = Some k"
    and "stream_connected (streams S ! k)" and "length (items (ss_out (streams S ! k))) = 64"
    and "run_acts server_step acts (register_stream edge S) = Some S'"
  shows "ss_closed (streams S' ! k) \<and> \<not> ss_ended (streams S' ! k)"
proof -
  note i = server_invD [OF edges.reach_inv [OF assms(1)]]
  have k: "k < length (streams S)" using i(1) [OF assms(2)] by blast
  have "unmarked (close_stream (streams S ! k))"
    using i(3) [OF k] assms(3,4)
    by (auto simp: unmarked_def close_stream_def put_nowait_def qfull_def stream_ok_def stream_connected_def)
  then have "stuck k (register_stream edge S)"
    using k assms(2) by (simp add: stuck_def register_stream_def update_stream_def nth_append Let_def)
  from stuck_run [OF this assms(5)] show ?thesis by (simp add: stuck_def unmarked_def)
qed

text \<open>A state in which 64 commands wait for an edge.\<close>

definition demo_cancel :: cloud2edge where
  "demo_cancel = CancelCommand (lit ''c'') (lit ''hangup'')"

definition demo_queue :: "nat \<Rightarrow> server_stream" where
  "demo_queue n = (new_server_stream (lit ''e1''))\<lparr>ss_out := \<lparr>maxsize = 64, items = replicate n (Frame demo_cancel), unfinished = n\<rparr>,
     ss_accepted := replicate n demo_cancel\<rparr>"

definition demo_full :: "nat \<Rightarrow> edge_server" where
  "demo_full n = (new_server new_dispatcher)\<lparr>streams := [demo_queue n], bound := [lit ''e1'' \<mapsto> 0]\<rparr>"

lemma demo_full_reach: "n \<le> 64 \<Longrightarrow> reach (\<lambda>S. S = new_server new_dispatcher) server_step (demo_full n)"
proof (induction n)
  case 0
  have "server_step (Open (lit ''e1'')) (new_server new_dispatcher) = Some (demo_full 0)"
    by (simp add: demo_full_def demo_queue_def new_server_def register_stream_def new_server_stream_def new_queue_def Let_def)
  then show ?case by (rule reach_step [OF reach_init, rotated]) simp
next
  case (Suc n)
  have "server_step (Send (lit ''e1'') demo_cancel) (demo_full n) = Some (demo_full (Suc n))"
    using Suc.prems
    by (simp add: demo_full_def demo_queue_def send_to_edge_def stream_send_def put_frame_def put_nowait_def qfull_def
        update_stream_def new_server_stream_def replicate_append_same)
  moreover have "reach (\<lambda>S. S = new_server new_dispatcher) server_step (demo_full n)"
    using Suc by simp
  ultimately show ?case by (rule reach_step [rotated])
qed

theorem displaced_full_stream_never_ends_witness:
  "ss_closed (streams (register_stream (lit ''e1'') (demo_full 64)) ! 0)
   \<and> \<not> ss_ended (streams (register_stream (lit ''e1'') (demo_full 64)) ! 0)"
proof (rule displaced_full_stream_never_ends [OF demo_full_reach [OF order_refl], where acts = "[]"])
  show "bound (demo_full 64) (lit ''e1'') = Some 0" by (simp add: demo_full_def)
  show "stream_connected (streams (demo_full 64) ! 0)"
    by (simp add: demo_full_def demo_queue_def stream_connected_def new_server_stream_def)
  show "length (items (ss_out (streams (demo_full 64) ! 0))) = 64" by (simp add: demo_full_def demo_queue_def)
qed simp

section \<open>Heartbeats\<close>

text \<open>The reference: a device's row after a heartbeat depends only on the row and on the entries for that device.\<close>

definition last_status :: "int list \<Rightarrow> device_health list \<Rightarrow> device_status option" where
  "last_status codes hs = fold (\<lambda>h acc. case PROTO_STATUS_TO_ENUM codes (dh_status h) of Some s \<Rightarrow> Some s | None \<Rightarrow> acc) hs None"

definition seen_row :: "int list \<Rightarrow> clock \<Rightarrow> device_health list \<Rightarrow> device_row \<Rightarrow> device_row" where
  "seen_row codes ts hs row = (if hs = [] then row
     else row\<lparr>last_seen_at := ts, dev_status := (case last_status codes hs of Some s \<Rightarrow> s | None \<Rightarrow> dev_status row)\<rparr>)"

lemma last_status_snoc:
  "last_status codes (hs @ [h]) = (case PROTO_STATUS_TO_ENUM codes (dh_status h) of Some s \<Rightarrow> Some s | None \<Rightarrow> last_status codes hs)"
  by (simp add: last_status_def split: option.splits)

lemma seen_row_snoc:
  "seen_row codes ts (hs @ [h]) row = (seen_row codes ts hs row)\<lparr>last_seen_at := ts,
     dev_status := (case PROTO_STATUS_TO_ENUM codes (dh_status h) of Some s \<Rightarrow> s | None \<Rightarrow> dev_status (seen_row codes ts hs row))\<rparr>"
  by (auto simp: seen_row_def last_status_snoc last_status_def split: option.splits)

lemma touch_devices_row:
  "fst (fold (touch_device codes ts) hs (db, n)) d
     = map_option (seen_row codes ts (if 0 < d then filter (\<lambda>h. dh_device_id h = d) hs else [])) (db d)
   \<and> snd (fold (touch_device codes ts) hs (db, n))
     = n + length (filter (\<lambda>h. 0 < dh_device_id h \<and> db (dh_device_id h) \<noteq> None) hs)"
proof (induction hs arbitrary: d rule: rev_induct)
  case Nil
  show ?case by (cases "db d") (simp_all add: seen_row_def)
next
  case (snoc h hs)
  obtain db1 m where f: "fold (touch_device codes ts) hs (db, n) = (db1, m)" by fastforce
  have r: "db1 e = map_option (seen_row codes ts (if 0 < e then filter (\<lambda>h. dh_device_id h = e) hs else [])) (db e)" for e
    using snoc [of e] f by simp
  have m: "m = n + length (filter (\<lambda>h. 0 < dh_device_id h \<and> db (dh_device_id h) \<noteq> None) hs)"
    using snoc f by simp
  have step: "fold (touch_device codes ts) (hs @ [h]) (db, n) = touch_device codes ts h (db1, m)"
    using f by simp
  show ?case
    unfolding step using r [of d] r [of "dh_device_id h"] m
    by (cases "db (dh_device_id h)"; cases "d = dh_device_id h")
      (auto simp: touch_device_def seen_row_snoc)
qed

text \<open>A heartbeat updates exactly the known devices it lists under a positive id: each gets the
  heartbeat's time and the last status that it reports with a meaning, in the order of the list, and every
  other row of the table is left alone; the number returned counts the entries that met a row.\<close>

theorem heartbeat_updates_listed:
  "fst (apply_heartbeat codes now h db) d
     = map_option (seen_row codes (heartbeat_ts now h)
         (if 0 < d then filter (\<lambda>x. dh_device_id x = d) (hb_devices h) else [])) (db d)
   \<and> snd (apply_heartbeat codes now h db)
     = length (filter (\<lambda>x. 0 < dh_device_id x \<and> db (dh_device_id x) \<noteq> None) (hb_devices h))"
  using touch_devices_row [of codes "heartbeat_ts now h" "hb_devices h" db 0 d]
  by (cases "db d") (auto simp: apply_heartbeat_def seen_row_def)

end
