(* ===== verification/Telephony.thy ===== *)
theory Telephony
  imports Py_Base Py_Async
begin

text \<open>
  The contract of a telephony client (\<^verbatim>\<open>realtime/telephony_client.py\<close>): its events and what a consumer of a call's event
  stream may rely on. A client is a transition system with, for each call, the queue of everything put on the call's
  stream; a consumer reads the queue up to the first sentinel.

  The locale \<open>telephony_stream\<close> asks of every step that a stream only grows, by a connect or by a final event together with the
  sentinel, or starts afresh for a new call. Under these laws the consumer sees connects, then at most one final event,
  and the stream ends exactly with that event. The three clients interpret it in \<open>Rtc_Telephony\<close> and
  \<open>Modem_Telephony\<close>.
\<close>

section \<open>Call numbers as strings\<close>

lemma show_nat_value: "foldl (\<lambda>a c. 10 * a + (c - 48)) 0 (show_nat n) = n"
proof (induction n rule: show_nat.induct)
  case (1 n)
  show ?case by (subst show_nat.simps) (use 1 in \<open>cases "n < 10"; simp\<close>)
qed

lemma show_nat_digits: "show_nat n \<noteq> [] \<and> list_all (\<lambda>c. 48 \<le> c) (show_nat n)"
proof (induction n rule: show_nat.induct)
  case (1 n)
  show ?case by (subst show_nat.simps, subst show_nat.simps) (use 1 in \<open>cases "n < 10"; simp\<close>)
qed

lemma show_nat_inj: "show_nat m = show_nat n \<Longrightarrow> m = n"
  by (metis show_nat_value)

lemma show_nat_no_sign: "show_nat m \<noteq> 45 # xs"
  using show_nat_digits [of m] by auto

lemma show_int_eq [simp]: "show_int i = show_int j \<longleftrightarrow> i = j"
proof
  assume "show_int i = show_int j"
  then show "i = j"
    using show_nat_no_sign show_nat_no_sign [symmetric]
    by (auto simp: show_int_def lit_def dest!: show_nat_inj split: if_splits)
qed simp

lemma show_nat_digit: "c \<in> set (show_nat n) \<Longrightarrow> c \<le> 57"
proof (induction n rule: show_nat.induct)
  case (1 n)
  from 1(2) have "c \<in> set (if n < 10 then [48 + n] else show_nat (n div 10) @ [48 + n mod 10])" by (subst (asm) show_nat.simps)
  then show ?case using 1(1) by (auto split: if_splits)
qed

lemma digits_val_all:
  "list_all (\<lambda>c. 48 \<le> c \<and> c \<le> 57) cs \<Longrightarrow> ok \<or> cs \<noteq> [] \<Longrightarrow>
     digits_val acc ok cs = Some (foldl (\<lambda>a c. 10 * a + (c - 48)) acc cs)"
  by (induction acc ok cs rule: digits_val.induct) auto

lemma digits_val_show: "digits_val 0 False (show_nat n) = Some n"
  using digits_val_all [of "show_nat n" False 0] show_nat_digits [of n] show_nat_value [of n]
  by (simp add: list_all_iff show_nat_digit)

lemma strip_no_space: "list_all (\<lambda>c. \<not> is_space c) s \<Longrightarrow> strip s = s"
proof -
  assume a: "list_all (\<lambda>c. \<not> is_space c) s"
  have "dropWhile is_space xs = xs" if "list_all (\<lambda>c. \<not> is_space c) xs" for xs using that by (cases xs) auto
  then show ?thesis using a by (simp add: strip_of_def lstrip_of_def rstrip_of_def)
qed

lemma strip_show: "strip (show_int i) = show_int i"
proof -
  have "\<not> is_space c" if "c \<in> set (show_nat n)" for c n
    using show_nat_digits [of n] show_nat_digit [OF that] that by (auto simp: list_all_iff is_space_def)
  then have "list_all (\<lambda>c. \<not> is_space c) (show_int i)"
    by (auto simp: show_int_def lit_def list_all_iff is_space_def)
  then show ?thesis by (rule strip_no_space)
qed

text \<open>Reading a printed call number gives it back.\<close>

lemma parse_show_int: "parse_int (show_int i) = Some i"
proof (cases "i < 0")
  case True
  then show ?thesis using digits_val_show [of "nat (- i)"] strip_show [of i] by (simp add: parse_int_def show_int_def lit_def)
next
  case False
  obtain y ys where s: "show_nat (nat i) = y # ys" "48 \<le> y"
    using show_nat_digits [of "nat i"] by (cases "show_nat (nat i)") auto
  then show ?thesis
    using False digits_val_show [of "nat i"] strip_show [of i] by (simp add: parse_int_def show_int_def del: digits_val.simps)
qed

section \<open>Events\<close>

datatype telephony_event = TelConnected | TelRemoteHangup "pystr option" | TelDeviceError pystr | TelLocalHangup

datatype event_item = TelEvent telephony_event | TelSentinel

definition final_event :: "telephony_event \<Rightarrow> bool" where
  "final_event e \<longleftrightarrow> e \<noteq> TelConnected"

text \<open>What the iterator over a queue yields, and whether it has ended.\<close>

definition yielded :: "event_item list \<Rightarrow> event_item list" where
  "yielded q = takeWhile (\<lambda>i. i \<noteq> TelSentinel) q"

definition stream_ended :: "event_item list \<Rightarrow> bool" where
  "stream_ended q \<longleftrightarrow> TelSentinel \<in> set q"

definition grows :: "event_item list \<Rightarrow> event_item list \<Rightarrow> bool" where
  "grows q q' \<longleftrightarrow> q' = q \<or> q' = q @ [TelEvent TelConnected]
     \<or> (\<exists>t. final_event t \<and> q' = q @ [TelEvent t, TelSentinel])
     \<or> (stream_ended q \<and> (\<exists>xs. q' = q @ xs))"

text \<open>A step makes a stream grow, or a new call's stream takes its place.\<close>

definition emits :: "event_item list \<Rightarrow> event_item list \<Rightarrow> bool" where
  "emits q q' \<longleftrightarrow> grows q q' \<or> grows [] q'"

definition stream_shape :: "event_item list \<Rightarrow> bool" where
  "stream_shape q \<longleftrightarrow> (\<exists>n fin. yielded q = replicate n (TelEvent TelConnected) @ map TelEvent fin
     \<and> (if stream_ended q then \<exists>t. fin = [t] \<and> final_event t else fin = []))"

lemma yielded_ended: "stream_ended q \<Longrightarrow> yielded (q @ xs) = yielded q"
  by (auto simp: yielded_def stream_ended_def takeWhile_append)

lemma yielded_open: "\<not> stream_ended q \<Longrightarrow> yielded q = q"
  by (auto simp: yielded_def stream_ended_def takeWhile_eq_all_conv)

lemma yielded_closing: "\<not> stream_ended q \<Longrightarrow> yielded (q @ [TelEvent t, TelSentinel]) = q @ [TelEvent t]"
  by (auto simp: yielded_def stream_ended_def takeWhile_append)

lemma ended_append [simp]: "stream_ended (q @ xs) \<longleftrightarrow> stream_ended q \<or> stream_ended xs"
  by (auto simp: stream_ended_def)

lemma ended_items [simp]:
  "stream_ended [] = False" "stream_ended (TelEvent e # xs) = stream_ended xs" "stream_ended (TelSentinel # xs)"
  by (auto simp: stream_ended_def)

lemma shape_ended: "stream_shape q \<Longrightarrow> stream_ended q \<Longrightarrow> stream_shape (q @ xs)"
  by (simp add: stream_shape_def yielded_ended)

lemma shape_open_iff: "\<not> stream_ended q \<Longrightarrow> stream_shape q \<longleftrightarrow> (\<exists>n. q = replicate n (TelEvent TelConnected))"
  by (auto simp: stream_shape_def yielded_open)

lemma shape_connected:
  assumes "stream_shape q"
  shows "stream_shape (q @ [TelEvent TelConnected])"
proof (cases "stream_ended q")
  case False
  with assms obtain n where "q = replicate n (TelEvent TelConnected)" by (auto simp: shape_open_iff)
  then have "q @ [TelEvent TelConnected] = replicate (Suc n) (TelEvent TelConnected)" by (simp add: replicate_append_same)
  moreover have "\<not> stream_ended (q @ [TelEvent TelConnected])" using False by simp
  ultimately show ?thesis using shape_open_iff by blast
qed (use assms shape_ended in blast)

lemma shape_final:
  assumes "stream_shape q" and "final_event t"
  shows "stream_shape (q @ [TelEvent t, TelSentinel])"
proof (cases "stream_ended q")
  case False
  with assms obtain n where q: "q = replicate n (TelEvent TelConnected)" by (auto simp: shape_open_iff)
  have "yielded (q @ [TelEvent t, TelSentinel]) = replicate n (TelEvent TelConnected) @ map TelEvent [t]"
    by (simp add: q yielded_def takeWhile_append)
  then show ?thesis using assms(2) unfolding stream_shape_def by (intro exI [of _ n] exI [of _ "[t]"]) simp
qed (use assms shape_ended in blast)

lemma shape_Nil [simp]: "stream_shape []"
  by (simp add: stream_shape_def yielded_def)

lemma grows_shape: "grows q q' \<Longrightarrow> stream_shape q \<Longrightarrow> stream_shape q'"
  by (auto simp: grows_def shape_connected shape_final shape_ended)

lemma emits_shape: "emits q q' \<Longrightarrow> stream_shape q \<Longrightarrow> stream_shape q'"
  using grows_shape shape_Nil unfolding emits_def by blast

lemma grows_refl [simp]: "grows q q"
  by (simp add: grows_def)

lemma emits_refl [simp]: "emits q q"
  by (simp add: emits_def)

locale telephony_stream = invariant_of init step inv
  for init :: "'s \<Rightarrow> bool" and step :: "'a \<Rightarrow> 's \<Rightarrow> 's option" and inv :: "'s \<Rightarrow> bool" +
  fixes stream :: "int \<Rightarrow> 's \<Rightarrow> event_item list"
  assumes init_stream: "init s \<Longrightarrow> stream call s = []"
    and step_emits: "inv s \<Longrightarrow> step a s = Some s' \<Longrightarrow> emits (stream call s) (stream call s')"
begin

lemma reach_shape: "reach init step s \<Longrightarrow> stream_shape (stream call s)"
proof (induction rule: reach.induct)
  case (reach_init s)
  then show ?case by (simp add: init_stream)
next
  case (reach_step s a s')
  then show ?case using emits_shape step_emits reach_inv by blast
qed

text \<open>An ended stream shows its consumer the same events for ever, until a new call takes its place.\<close>

lemma ended_stable: "inv s \<Longrightarrow> step a s = Some s' \<Longrightarrow> stream_ended (stream call s) \<Longrightarrow>
    grows [] (stream call s') \<or> yielded (stream call s') = yielded (stream call s)"
  using step_emits [of s a s' call] by (auto simp: emits_def grows_def yielded_ended)

end

end
