(* ===== verification/Audio_Dsp.thy ===== *)
theory Audio_Dsp
  imports Py_Bytes
begin

text \<open>
  The arithmetic on PCM audio: what the engine uses of Python's \<^verbatim>\<open>array\<close> and \<^verbatim>\<open>audioop\<close>, and the background
  bed of the outbound stream (\<^verbatim>\<open>realtime/ambient.py\<close>): mixing with saturation, the fade-out of a barge-in,
  the cross-faded loop with its readers, and the cache of decoded assets.

  Samples are the signed 16-bit values of \<open>samples16\<close>; floating point is read as exact rational
  arithmetic. A WAV file is what \<^verbatim>\<open>wave\<close> gives for a path, or nothing where opening it fails.

  Shown: mixing and fading stay within 16 bits, keep the shape of their input and end in silence; a reader
  of a loop repeats its frames forever; resampling a stream does not depend on how it is cut into
  frames, and from 48 kHz to 16 kHz keeps every third sample exactly.
\<close>

section \<open>Library routines\<close>

text \<open>\<^verbatim>\<open>array("h").frombytes\<close>.\<close>

definition array_h :: "bytes \<Rightarrow> int list res" where
  "array_h b = (if odd (length b) then Inl ValueError else Inr (samples16 b))"

definition audioop_error :: pyerr where "audioop_error = OtherErr (lit ''audioop.error'')"

text \<open>\<^verbatim>\<open>audioop.lin2lin\<close> to two bytes: the sample of the given width, shifted.\<close>

fun chunks_of :: "nat \<Rightarrow> nat \<Rightarrow> 'a list \<Rightarrow> 'a list list" where
  "chunks_of w 0 xs = []"
| "chunks_of w (Suc n) xs = take w xs # chunks_of w n (drop w xs)"

definition signed_le :: "bytes \<Rightarrow> int" where
  "signed_le b = (let n = int (le_nat b) in if 2 * n < 256 ^ length b then n else n - 256 ^ length b)"

definition lin2lin :: "nat \<Rightarrow> bytes \<Rightarrow> bytes res" where
  "lin2lin w b =
     (if w \<notin> {1, 2, 3, 4} \<or> length b mod w \<noteq> 0 then Inl audioop_error
      else Inr (bytes16 (map (\<lambda>c. if w = 1 then signed_le c * 256 else signed_le c div 256 ^ (w - 2))
        (chunks_of w (length b div w) b))))"

text \<open>\<^verbatim>\<open>audioop.tomono\<close> with both factors one half rounds down.\<close>

fun mono_mix :: "int list \<Rightarrow> int list" where
  "mono_mix (l # r # xs) = (l + r) div 2 # mono_mix xs"
| "mono_mix _ = []"

definition tomono :: "bytes \<Rightarrow> bytes res" where
  "tomono b = (if length b mod 4 \<noteq> 0 then Inl audioop_error else Inr (bytes16 (mono_mix (samples16 b))))"

text \<open>\<^verbatim>\<open>audioop.ratecv\<close> on one channel with the default weights: samples are scaled to 32 bits, \<open>rs_d\<close> is the
  distance to the next output in reduced units.\<close>

record rate_state =
  rs_d :: int
  rs_prev :: int
  rs_cur :: int

definition rate_init :: "int \<Rightarrow> rate_state" where
  "rate_init outr = \<lparr>rs_d = - outr, rs_prev = 0, rs_cur = 0\<rparr>"

definition rate_sample :: "int \<Rightarrow> int \<Rightarrow> int \<Rightarrow> int \<Rightarrow> int" where
  "rate_sample outr prv cur d = trunc_div (prv * d + cur * (outr - d)) outr div 65536"

function emit :: "int \<Rightarrow> int \<Rightarrow> int \<Rightarrow> int \<Rightarrow> int \<Rightarrow> int list \<times> int" where
  "emit inr outr prv cur d =
     (if d < 0 \<or> inr \<le> 0 then ([], d)
      else let (out, d') = emit inr outr prv cur (d - inr) in (rate_sample outr prv cur d # out, d'))"
  by pat_completeness auto
termination
  by (relation "measure (\<lambda>(inr, outr, prv, cur, d). nat (d + 1))") auto

declare emit.simps [simp del]

fun rate_loop :: "int \<Rightarrow> int \<Rightarrow> int list \<Rightarrow> rate_state \<Rightarrow> int list \<times> rate_state" where
  "rate_loop inr outr [] st = ([], st)"
| "rate_loop inr outr (x # xs) st =
     (let prv = rs_cur st; cur = x * 65536;
          (out, d) = emit inr outr prv cur (rs_d st + outr);
          (outs, st') = rate_loop inr outr xs \<lparr>rs_d = d, rs_prev = prv, rs_cur = cur\<rparr>
      in (out @ outs, st'))"

definition ratecv :: "bytes \<Rightarrow> int \<Rightarrow> int \<Rightarrow> rate_state option \<Rightarrow> (bytes \<times> rate_state) res" where
  "ratecv b inrate outrate state =
     (if odd (length b) \<or> inrate \<le> 0 \<or> outrate \<le> 0 then Inl audioop_error
      else let g = gcd inrate outrate; inr = inrate div g; outr = outrate div g;
               (out, st) = rate_loop inr outr (samples16 b) (case state of Some st \<Rightarrow> st | None \<Rightarrow> rate_init outr)
           in Inr (bytes16 out, st))"

section \<open>The outbound format\<close>

definition SEND_RATE :: int where "SEND_RATE = 16000"

definition FRAME_SAMPLES :: nat where "FRAME_SAMPLES = nat (SEND_RATE div 100)"

definition FRAME_BYTES :: nat where "FRAME_BYTES = FRAME_SAMPLES * 1 * 2"

definition SILENCE_FRAME :: bytes where "SILENCE_FRAME = replicate FRAME_BYTES 0"

definition CROSSFADE_SAMPLES :: nat where "CROSSFADE_SAMPLES = nat (SEND_RATE div 50)"

lemma format_values [simp]: "FRAME_BYTES = 320" "CROSSFADE_SAMPLES = 320"
  by (simp_all add: FRAME_BYTES_def FRAME_SAMPLES_def SEND_RATE_def CROSSFADE_SAMPLES_def)

definition clip16 :: "rat \<Rightarrow> int" where
  "clip16 v = trunc_rat (if v < - 32768 then - 32768 else if v > 32767 then 32767 else v)"

definition mix_sample :: "rat \<Rightarrow> int \<Rightarrow> int \<Rightarrow> int" where
  "mix_sample gain t b =
     (let s = of_int t + of_int b * gain in if s > 32767 \<or> s < - 32768 then clip16 s else trunc_rat s)"

fun mix_samples :: "rat \<Rightarrow> int list \<Rightarrow> int list \<Rightarrow> int list" where
  "mix_samples gain (t # ts) (b # bs) = mix_sample gain t b # mix_samples gain ts bs"
| "mix_samples gain ts _ = ts"

definition mix_frame :: "bytes \<Rightarrow> bytes \<Rightarrow> rat \<Rightarrow> bytes res" where
  "mix_frame tts bg gain =
     (if gain \<le> 0 \<or> bg = [] then Inr tts
      else bind_res (array_h tts) (\<lambda>st. bind_res (array_h bg) (\<lambda>sb. Inr (bytes16 (mix_samples gain st sb)))))"

section \<open>Fading out\<close>

definition fade_gain :: "nat \<Rightarrow> nat \<Rightarrow> rat" where
  "fade_gain count idx = 1 - of_nat idx / (of_nat count - 1)"

fun fade_samples :: "nat \<Rightarrow> nat \<Rightarrow> int list \<Rightarrow> int list" where
  "fade_samples count idx [] = []"
| "fade_samples count idx (x # xs) = clip16 (of_int x * fade_gain count idx) # fade_samples count (Suc idx) xs"

fun fade_frames :: "nat \<Rightarrow> nat \<Rightarrow> bytes list \<Rightarrow> bytes list res" where
  "fade_frames count idx [] = Inr []"
| "fade_frames count idx (f # fs) = bind_res (array_h f) (\<lambda>sa.
     bind_res (fade_frames count (idx + length sa) fs) (\<lambda>out. Inr (bytes16 (fade_samples count idx sa) # out)))"

definition apply_fadeout :: "bytes list \<Rightarrow> bytes list res" where
  "apply_fadeout frames =
     (let count = sum_list (map (\<lambda>f. length f div 2) frames) in
      if count \<le> 1 then Inr frames else fade_frames count 0 frames)"

section \<open>Loops\<close>

definition cross_sample :: "nat \<Rightarrow> nat \<Rightarrow> int \<Rightarrow> int \<Rightarrow> int" where
  "cross_sample n i a b = (let t = (of_nat i + 1) / (of_nat n + 1) in clip16 (of_int a * (1 - t) + of_int b * t))"

definition linear_crossfade :: "bytes \<Rightarrow> bytes \<Rightarrow> bytes res" where
  "linear_crossfade a b = bind_res (array_h a) (\<lambda>sa. bind_res (array_h b) (\<lambda>sb.
     let n = min (length sa) (length sb) in
     Inr (bytes16 (map (\<lambda>i. cross_sample n i (sa ! i) (sb ! i)) [0..<n]))))"

definition whole_frames :: "bytes \<Rightarrow> bytes" where
  "whole_frames pcm = take ((length pcm div FRAME_BYTES) * FRAME_BYTES) pcm"

definition make_seamless :: "bytes \<Rightarrow> bytes res" where
  "make_seamless pcm0 =
     (let pcm = whole_frames pcm0; cf_bytes = CROSSFADE_SAMPLES * 2 in
      if length pcm \<le> 2 * cf_bytes then Inr pcm
      else bind_res (linear_crossfade (drop (length pcm - cf_bytes) pcm) (take cf_bytes pcm)) (\<lambda>seam.
        Inr (whole_frames (drop cf_bytes (take (length pcm - cf_bytes) pcm) @ seam))))"

record ambient_reader =
  rd_pcm :: bytes
  rd_pos :: nat

definition loop_usable :: "bytes \<Rightarrow> bool" where
  "loop_usable pcm = (length pcm \<ge> FRAME_BYTES)"

definition new_reader :: "bytes \<Rightarrow> ambient_reader" where
  "new_reader pcm = \<lparr>rd_pcm = pcm, rd_pos = 0\<rparr>"

definition next_frame :: "ambient_reader \<Rightarrow> bytes \<times> ambient_reader" where
  "next_frame r =
     (let n = length (rd_pcm r) in
      if n < FRAME_BYTES then (SILENCE_FRAME, r)
      else let (start, stop) = (if rd_pos r + FRAME_BYTES > n then (0, FRAME_BYTES) else (rd_pos r, rd_pos r + FRAME_BYTES))
           in (take (stop - start) (drop start (rd_pcm r)), r\<lparr>rd_pos := if stop < n then stop else 0\<rparr>))"

record wav_data =
  wav_channels :: nat
  wav_width :: nat
  wav_rate :: int
  wav_pcm :: bytes

definition is_basename :: "pystr \<Rightarrow> bool" where
  "is_basename name = (47 \<notin> set name \<and> 92 \<notin> set name \<and> name \<noteq> lit ''.'' \<and> name \<noteq> lit ''..'')"

definition to_send_format :: "bool \<Rightarrow> wav_data \<Rightarrow> bytes option res" where
  "to_send_format have_audioop w =
     (if wav_width w \<noteq> 2 \<or> wav_channels w > 1 \<or> wav_rate w \<noteq> SEND_RATE then
        if \<not> have_audioop then Inr None
        else bind_res (if wav_width w \<noteq> 2 then lin2lin (wav_width w) (wav_pcm w) else Inr (wav_pcm w)) (\<lambda>p1.
          bind_res (if wav_channels w > 1 then tomono p1 else Inr p1) (\<lambda>p2.
          bind_res (if wav_rate w \<noteq> SEND_RATE then bind_res (ratecv p2 (wav_rate w) SEND_RATE None) (\<lambda>(b, _). Inr b) else Inr p2) (\<lambda>p3.
          Inr (Some p3))))
      else Inr (Some (wav_pcm w)))"

definition load_loop :: "bool \<Rightarrow> (pystr \<Rightarrow> wav_data option) \<Rightarrow> pystr \<Rightarrow> bytes option res" where
  "load_loop have_audioop wav name =
     (if \<not> is_basename name then Inr None
      else case wav name of
        None \<Rightarrow> Inr None
      | Some w \<Rightarrow>
          if wav_pcm w = [] then Inr None
          else bind_res (to_send_format have_audioop w) (\<lambda>p. case p of
              None \<Rightarrow> Inr None
            | Some pcm \<Rightarrow> bind_res (make_seamless pcm) (\<lambda>loop. Inr (if loop_usable loop then Some loop else None))))"

definition get_ambient_loop :: "bool \<Rightarrow> (pystr \<Rightarrow> wav_data option) \<Rightarrow> pystr option \<Rightarrow> (pystr \<rightharpoonup> bytes option)
    \<Rightarrow> bytes option res \<times> (pystr \<rightharpoonup> bytes option)" where
  "get_ambient_loop have_audioop wav name cache = (case name of
       None \<Rightarrow> (Inr None, cache)
     | Some n \<Rightarrow>
         if n = [] then (Inr None, cache)
         else case cache n of
           Some l \<Rightarrow> (Inr l, cache)
         | None \<Rightarrow> (case load_loop have_audioop wav n of
             Inl e \<Rightarrow> (Inl e, cache)
           | Inr l \<Rightarrow> (Inr l, cache(n \<mapsto> l))))"

section \<open>Ranges\<close>

definition pcm_range :: "int list \<Rightarrow> bool" where
  "pcm_range xs \<longleftrightarrow> (\<forall>x \<in> set xs. - 32768 \<le> x \<and> x \<le> 32767)"

lemma trunc_rat_bounds:
  "(of_int a :: rat) \<le> r \<Longrightarrow> r \<le> of_int b \<Longrightarrow> a \<le> trunc_rat r \<and> trunc_rat r \<le> b"
proof -
  assume a: "of_int a \<le> r" and b: "r \<le> of_int b"
  show "a \<le> trunc_rat r \<and> trunc_rat r \<le> b"
  proof (cases "r < 0")
    case True
    have "\<lfloor>- r\<rfloor> \<le> - a" using a by (simp add: floor_le_iff)
    moreover have "- b \<le> \<lfloor>- r\<rfloor>" using b by (simp add: le_floor_iff)
    ultimately show ?thesis using True by (simp add: trunc_rat_def)
  next
    case False
    then show ?thesis using a b by (simp add: trunc_rat_def le_floor_iff floor_le_iff)
  qed
qed

lemma trunc_rat_of_int [simp]: "trunc_rat (of_int i) = i"
  by (auto simp: trunc_rat_def simp flip: of_int_minus)

lemma trunc_rat_abs: "\<bar>of_int (trunc_rat r)\<bar> \<le> \<bar>r\<bar>"
  by (auto simp: trunc_rat_def)

lemma clip16_range: "- 32768 \<le> clip16 v \<and> clip16 v \<le> 32767"
  unfolding clip16_def by (rule trunc_rat_bounds [of "- 32768" _ 32767, simplified]) auto

lemma clip16_id: "- 32768 \<le> v \<Longrightarrow> v \<le> 32767 \<Longrightarrow> clip16 v = trunc_rat v"
  by (auto simp: clip16_def)

lemma samples16_pcm: "pcm_range (samples16 b)"
  using samples16_range by (auto simp: pcm_range_def)

lemma samples16_bytes16': "pcm_range xs \<Longrightarrow> samples16 (bytes16 xs) = xs"
  by (rule samples16_bytes16) (auto simp: pcm_range_def)

lemma length_bytes16 [simp]: "length (bytes16 xs) = 2 * length xs"
  by (induction xs) (auto simp: bytes16_def)

lemma array_h_bytes16 [simp]: "pcm_range xs \<Longrightarrow> array_h (bytes16 xs) = Inr xs"
  by (simp add: array_h_def samples16_bytes16')

section \<open>Mixing\<close>

text \<open>The reference: exact addition, rounded towards zero and clamped.\<close>

definition clamp16 :: "int \<Rightarrow> int" where
  "clamp16 i = max (- 32768) (min 32767 i)"

lemma trunc_rat_ge: "32767 < s \<Longrightarrow> 32767 \<le> trunc_rat s" and trunc_rat_le: "s < - 32768 \<Longrightarrow> trunc_rat s \<le> - 32768"
  by (auto simp: trunc_rat_def le_floor_iff)

lemma mix_sample_clamp: "mix_sample gain t b = clamp16 (trunc_rat (of_int t + of_int b * gain))"
proof -
  define s where "s = of_int t + of_int b * gain"
  consider "32767 < s" | "s < - 32768" | "- 32768 \<le> s" "s \<le> 32767" by linarith
  then have "(if s > 32767 \<or> s < - 32768 then clip16 s else trunc_rat s) = clamp16 (trunc_rat s)"
  proof cases
    case 1
    have "trunc_rat 32767 = 32767" using trunc_rat_of_int [of 32767] by simp
    with 1 trunc_rat_ge [OF 1] show ?thesis by (simp add: clip16_def clamp16_def)
  next
    case 2
    have "trunc_rat (- 32768) = - 32768" using trunc_rat_of_int [of "- 32768"] by simp
    with 2 trunc_rat_le [OF 2] show ?thesis by (simp add: clip16_def clamp16_def)
  next
    case 3
    with trunc_rat_bounds [of "- 32768" s 32767] show ?thesis by (simp add: clamp16_def)
  qed
  then show ?thesis unfolding mix_sample_def Let_def s_def .
qed

lemma mix_sample_range: "- 32768 \<le> mix_sample gain t b \<and> mix_sample gain t b \<le> 32767"
  by (auto simp: mix_sample_clamp clamp16_def)

lemma mix_samples_map:
  "mix_samples gain ts bs = map (\<lambda>i. if i < length bs then mix_sample gain (ts ! i) (bs ! i) else ts ! i) [0..<length ts]"
proof (induction gain ts bs rule: mix_samples.induct)
  case (1 gain t ts b bs)
  have "[0..<length (t # ts)] = 0 # map Suc [0..<length ts]"
    by (simp add: upt_conv_Cons map_Suc_upt del: upt_Suc)
  then show ?case using 1 by (simp add: comp_def)
qed (simp_all add: map_nth)

lemma mix_samples_range: "pcm_range ts \<Longrightarrow> pcm_range (mix_samples gain ts bs)"
  using mix_sample_range by (auto simp: pcm_range_def mix_samples_map)

text \<open>Mixing never overflows: for buffers of whole samples it returns a buffer of the same length whose
  samples are the exact sums with the scaled background, rounded towards zero and clamped to 16 bits; where the
  background is shorter the speech is left as it is.\<close>

theorem mix_saturates:
  assumes "even (length tts)" and "even (length bg)" and "bg \<noteq> []" and "0 < gain"
  shows "\<exists>out. mix_frame tts bg gain = Inr out \<and> length out = length tts
    \<and> (\<forall>i < length tts div 2. samples16 out ! i =
         (if i < length bg div 2
          then clamp16 (trunc_rat (of_int (samples16 tts ! i) + of_int (samples16 bg ! i) * gain))
          else samples16 tts ! i))"
proof -
  let ?out = "mix_samples gain (samples16 tts) (samples16 bg)"
  have "mix_frame tts bg gain = Inr (bytes16 ?out)"
    using assms by (simp add: mix_frame_def array_h_def bind_res_def)
  moreover have "samples16 (bytes16 ?out) = ?out"
    by (rule samples16_bytes16' [OF mix_samples_range [OF samples16_pcm]])
  moreover have "length ?out = length tts div 2" by (simp add: mix_samples_map length_samples16)
  ultimately show ?thesis
    using assms(1) by (intro exI [of _ "bytes16 ?out"]) (simp add: mix_samples_map length_samples16 mix_sample_clamp)
qed

theorem mix_saturates_witness:
  "mix_frame [0xFF, 0x7F, 1, 0] [0xFF, 0x7F] (1 / 2) = Inr [0xFF, 0x7F, 1, 0]"
proof -
  obtain out where o: "mix_frame [0xFF, 0x7F, 1, 0] [0xFF, 0x7F] (1 / 2) = Inr out" "length out = 4"
    and v: "\<And>i. i < 2 \<Longrightarrow> samples16 out ! i =
         (if i < 1 then clamp16 (trunc_rat (of_int (samples16 [0xFF, 0x7F, 1, 0] ! i) + of_int (samples16 [0xFF, 0x7F] ! i) * (1 / 2)))
          else samples16 [0xFF, 0x7F, 1, 0] ! i)"
    using mix_saturates [of "[0xFF, 0x7F, 1, 0]" "[0xFF, 0x7F]" "1 / 2"] by auto
  have "out = bytes16 [32767, 1]"
    using o(1) by (auto simp: mix_frame_def array_h_def bind_res_def signed16_def mix_sample_def clip16_def trunc_rat_def Let_def)
  with o(1) show ?thesis
    by (simp add: bytes16_def unsigned16_def numeral_2_eq_2 byte_of_def)
qed

section \<open>Fading\<close>

lemma length_fade_samples [simp]: "length (fade_samples n idx xs) = length xs"
  by (induction n idx xs rule: fade_samples.induct) auto

lemma nth_fade_samples:
  "i < length xs \<Longrightarrow> fade_samples n idx xs ! i = clip16 (of_int (xs ! i) * fade_gain n (idx + i))"
proof (induction n idx xs arbitrary: i rule: fade_samples.induct)
  case (2 n idx x xs)
  then show ?case by (cases i) auto
qed simp

lemma fade_samples_append:
  "fade_samples n idx (xs @ ys) = fade_samples n idx xs @ fade_samples n (idx + length xs) ys"
  by (induction n idx xs rule: fade_samples.induct) auto

lemma fade_samples_range: "pcm_range (fade_samples n idx xs)"
  using clip16_range by (induction n idx xs rule: fade_samples.induct) (auto simp: pcm_range_def)

lemma fade_frames_samples:
  "list_all (\<lambda>f. even (length f)) fs \<Longrightarrow>
   \<exists>out. fade_frames n idx fs = Inr out \<and> map length out = map length fs
     \<and> concat (map samples16 out) = fade_samples n idx (concat (map samples16 fs))"
proof (induction fs arbitrary: idx)
  case (Cons f fs)
  then obtain out where o: "fade_frames n (idx + length (samples16 f)) fs = Inr out" "map length out = map length fs"
      "concat (map samples16 out) = fade_samples n (idx + length (samples16 f)) (concat (map samples16 fs))"
    by fastforce
  have "fade_frames n idx (f # fs) = Inr (bytes16 (fade_samples n idx (samples16 f)) # out)"
    using Cons.prems o(1) by (simp add: array_h_def bind_res_def)
  then show ?case
    using Cons.prems o(2,3)
    by (intro exI [of _ "bytes16 (fade_samples n idx (samples16 f)) # out"])
      (simp add: length_samples16 samples16_bytes16' [OF fade_samples_range] fade_samples_append)
qed simp

lemma length_concat_samples: "length (concat (map samples16 fs)) = sum_list (map (\<lambda>f. length f div 2) fs)"
  by (induction fs) (auto simp: length_samples16)

lemma fade_gain_bounds: "1 < n \<Longrightarrow> i < n \<Longrightarrow> 0 \<le> fade_gain n i \<and> fade_gain n i \<le> 1"
  by (auto simp: fade_gain_def field_simps)

lemma faded_abs:
  fixes x :: int and g :: rat
  assumes "- 32768 \<le> x \<and> x \<le> 32767" "0 \<le> g \<and> g \<le> 1"
  shows "clip16 (of_int x * g) = trunc_rat (of_int x * g) \<and> \<bar>clip16 (of_int x * g)\<bar> \<le> \<bar>x\<bar>"
proof -
  have a: "\<bar>of_int x * g\<bar> \<le> \<bar>of_int x\<bar>"
    using assms(2) mult_left_le [of g "\<bar>of_int x :: rat\<bar>"] by (simp add: abs_mult)
  have l: "- 32768 \<le> (of_int x :: rat)" and u: "(of_int x :: rat) \<le> 32767"
    using assms(1) by (metis of_int_le_iff of_int_minus of_int_numeral, metis of_int_le_iff of_int_numeral)
  have "- 32768 \<le> of_int x * g" "of_int x * g \<le> 32767"
  proof -
    show "of_int x * g \<le> 32767"
    proof (cases "0 \<le> x")
      case True
      with a u show ?thesis by linarith
    next
      case False
      with assms(2) have "of_int x * g \<le> 0" by (intro mult_nonpos_nonneg) auto
      then show ?thesis by linarith
    qed
    show "- 32768 \<le> of_int x * g"
    proof (cases "0 \<le> x")
      case True
      with assms(2) have "0 \<le> of_int x * g" by (intro mult_nonneg_nonneg) auto
      then show ?thesis by linarith
    next
      case False
      with a l show ?thesis by linarith
    qed
  qed
  then have c: "clip16 (of_int x * g) = trunc_rat (of_int x * g)" by (rule clip16_id)
  have "\<bar>of_int (trunc_rat (of_int x * g)) :: rat\<bar> \<le> \<bar>of_int x\<bar>"
    using trunc_rat_abs [of "of_int x * g"] a by linarith
  then have "\<bar>trunc_rat (of_int x * g)\<bar> \<le> \<bar>x\<bar>" by (metis of_int_abs of_int_le_iff)
  with c show ?thesis by simp
qed

lemma fadeout_samples:
  assumes "list_all (\<lambda>f. even (length f)) frames" and "n = sum_list (map (\<lambda>f. length f div 2) frames)" and "1 < n"
    and "xs = concat (map samples16 frames)"
  shows "\<exists>out ys. apply_fadeout frames = Inr out \<and> map length out = map length frames
    \<and> ys = concat (map samples16 out) \<and> length ys = n \<and> ys ! 0 = xs ! 0 \<and> last ys = 0
    \<and> (\<forall>i < n. \<bar>ys ! i\<bar> \<le> \<bar>xs ! i\<bar> \<and> ys ! i = trunc_rat (of_int (xs ! i) * (1 - of_nat i / of_nat (n - 1))))"
proof -
  obtain out where o: "fade_frames n 0 frames = Inr out" "map length out = map length frames"
      "concat (map samples16 out) = fade_samples n 0 xs"
    using fade_frames_samples [OF assms(1), of n 0] assms(4) by blast
  let ?ys = "fade_samples n 0 xs"
  have len: "length xs = n" by (simp add: assms(2,4) length_concat_samples)
  have r: "- 32768 \<le> xs ! i \<and> xs ! i \<le> 32767" if "i < n" for i
    using that len samples16_range nth_mem [of i xs] assms(4) by fastforce
  have g: "fade_gain n i = 1 - of_nat i / of_nat (n - 1)" for i
    using assms(3) by (simp add: fade_gain_def of_nat_diff)
  have v: "\<bar>?ys ! i\<bar> \<le> \<bar>xs ! i\<bar> \<and> ?ys ! i = trunc_rat (of_int (xs ! i) * (1 - of_nat i / of_nat (n - 1)))" if "i < n" for i
    using faded_abs [OF r [OF that] fade_gain_bounds [OF assms(3) that]] that len by (auto simp: nth_fade_samples g)
  have "?ys ! 0 = xs ! 0" using v [of 0] assms(3) by simp
  moreover have "last ?ys = 0"
  proof -
    have "?ys \<noteq> []" using len assms(3) by (metis length_fade_samples list.size(3) not_less_zero)
    then have "last ?ys = ?ys ! (n - 1)" by (simp add: last_conv_nth len)
    with v [of "n - 1"] assms(3) show ?thesis by (simp add: trunc_rat_def)
  qed
  moreover have "apply_fadeout frames = Inr out"
    using o(1) assms(2,3) by (simp add: apply_fadeout_def Let_def)
  moreover have "length ?ys = n" by (simp add: len)
  ultimately show ?thesis
    using o(2) v unfolding o(3) [symmetric] by blast
qed

text \<open>A fade-out keeps the shape of the buffered frames, takes the first sample over unchanged, never makes a
  sample louder, scales it by the linear ramp rounded towards zero, and lands on exact silence.\<close>

theorem fadeout_trails_off:
  assumes "list_all (\<lambda>f. even (length f)) frames" and "n = sum_list (map (\<lambda>f. length f div 2) frames)" and "1 < n"
    and "xs = concat (map samples16 frames)"
  shows "\<exists>out ys. apply_fadeout frames = Inr out \<and> map length out = map length frames
    \<and> ys = concat (map samples16 out) \<and> length ys = n \<and> ys ! 0 = xs ! 0 \<and> last ys = 0
    \<and> (\<forall>i < n. \<bar>ys ! i\<bar> \<le> \<bar>xs ! i\<bar> \<and> ys ! i = trunc_rat (of_int (xs ! i) * (1 - of_nat i / of_nat (n - 1))))"
  by (rule fadeout_samples [OF assms])

theorem fadeout_trails_off_witness:
  "\<exists>out. apply_fadeout [[100, 0, 100, 0], [156, 255]] = Inr out \<and> map length out = [4, 2]
     \<and> concat (map samples16 out) ! 0 = 100 \<and> last (concat (map samples16 out)) = 0"
proof -
  have "concat (map samples16 [[100, 0, 100, 0], [156, 255]]) = [100, 100, - 100]" by (simp add: signed16_def)
  then show ?thesis
    using fadeout_trails_off [of "[[100, 0, 100, 0], [156, 255]]" 3 "[100, 100, - 100]"] by auto
qed

section \<open>Loops\<close>

lemma length_whole_frames: "length (whole_frames pcm) = length pcm div 320 * 320"
  by (simp add: whole_frames_def)

lemma crossfade_ok:
  "length a = 2 * n \<Longrightarrow> length b = 2 * n \<Longrightarrow> \<exists>c. linear_crossfade a b = Inr c \<and> length c = 2 * n"
  by (auto simp: linear_crossfade_def array_h_def bind_res_def length_samples16)

lemma make_seamless_ok: "\<exists>loop. make_seamless pcm = Inr loop \<and> length loop mod 320 = 0"
proof -
  define p where "p = whole_frames pcm"
  have m: "length p mod 320 = 0" by (simp add: p_def length_whole_frames)
  show ?thesis
  proof (cases "length p \<le> 1280")
    case True
    with m show ?thesis by (simp add: make_seamless_def p_def [symmetric] Let_def)
  next
    case False
    obtain seam where "linear_crossfade (drop (length p - 640) p) (take 640 p) = Inr seam"
      using crossfade_ok [of "drop (length p - 640) p" 320 "take 640 p"] False by auto
    then show ?thesis
      using False by (simp add: make_seamless_def p_def [symmetric] Let_def bind_res_def length_whole_frames)
  qed
qed

fun read_frames :: "nat \<Rightarrow> ambient_reader \<Rightarrow> bytes list" where
  "read_frames 0 r = []"
| "read_frames (Suc n) r = (let (f, r') = next_frame r in f # read_frames n r')"

definition loop_frame :: "bytes \<Rightarrow> nat \<Rightarrow> bytes" where
  "loop_frame pcm k = take 320 (drop (320 * k) pcm)"

lemma next_frame_aligned:
  assumes "length pcm = 320 * n" and "k < n"
  shows "next_frame \<lparr>rd_pcm = pcm, rd_pos = 320 * k\<rparr> = (loop_frame pcm k, \<lparr>rd_pcm = pcm, rd_pos = 320 * (Suc k mod n)\<rparr>)"
proof -
  have a: "\<not> length pcm < 320" "\<not> 320 * k + 320 > length pcm" using assms by auto
  have "(320 * k + 320 < length pcm) = (Suc k < n)" using assms by auto
  moreover have "Suc k mod n = (if Suc k < n then Suc k else 0)"
    using assms(2) by (auto simp: not_less dest: le_antisym)
  ultimately show ?thesis using a by (auto simp: next_frame_def loop_frame_def Let_def)
qed

lemma read_frames_aligned:
  assumes "length pcm = 320 * n" and "0 < n"
  shows "read_frames m \<lparr>rd_pcm = pcm, rd_pos = 320 * (k mod n)\<rparr> = map (\<lambda>i. loop_frame pcm ((k + i) mod n)) [0..<m]"
proof (induction m arbitrary: k)
  case (Suc m)
  have "[0..<Suc m] = 0 # map Suc [0..<m]" by (simp add: upt_conv_Cons map_Suc_upt del: upt_Suc)
  moreover have "Suc (k mod n) mod n = Suc k mod n" by (simp add: mod_Suc_eq)
  ultimately show ?case
    using Suc.IH [of "Suc k"] next_frame_aligned [OF assms(1), of "k mod n"] assms(2) by (simp add: comp_def)
qed simp

text \<open>A background asset becomes a loop of whole frames whatever its length, and a reader of it never stops and
  never leaves it: the k-th frame that is read is frame k modulo the number of frames, each of them exactly 10 ms; an
  asset shorter than one frame reads as silence.\<close>

theorem ambient_loop_cycles:
  "\<exists>loop. make_seamless pcm = Inr loop \<and> length loop mod FRAME_BYTES = 0
    \<and> list_all (\<lambda>f. length f = FRAME_BYTES) (read_frames m (new_reader loop))
    \<and> read_frames m (new_reader loop) =
        (if loop_usable loop then map (\<lambda>k. loop_frame loop (k mod (length loop div FRAME_BYTES))) [0..<m]
         else replicate m SILENCE_FRAME)"
proof -
  from make_seamless_ok [of pcm] obtain loop where l: "make_seamless pcm = Inr loop \<and> length loop mod 320 = 0" ..
  define n where "n = length loop div 320"
  have n: "length loop = 320 * n" using mult_div_mod_eq [of 320 "length loop"] l unfolding n_def by linarith
  have c: "list_all (\<lambda>f. length f = FRAME_BYTES) (read_frames m (new_reader loop))
    \<and> read_frames m (new_reader loop) =
        (if loop_usable loop then map (\<lambda>k. loop_frame loop (k mod (length loop div FRAME_BYTES))) [0..<m]
         else replicate m SILENCE_FRAME)"
  proof (cases "n = 0")
    case True
    have "read_frames m (new_reader loop) = replicate m SILENCE_FRAME"
      using n True by (induction m) (simp_all add: new_reader_def next_frame_def)
    moreover have "\<not> loop_usable loop" using n True by (simp add: loop_usable_def)
    ultimately show ?thesis by (simp add: SILENCE_FRAME_def list_all_iff)
  next
    case False
    have "read_frames m (new_reader loop) = map (\<lambda>i. loop_frame loop (i mod n)) [0..<m]"
      using read_frames_aligned [OF n, of m 0] False by (simp add: new_reader_def)
    moreover have "length (loop_frame loop (i mod n)) = 320" for i
    proof -
      have "Suc (i mod n) \<le> n" using False by (simp add: Suc_le_eq)
      then have "320 * Suc (i mod n) \<le> length loop" using n mult_le_mono2 by metis
      then show ?thesis by (simp add: loop_frame_def)
    qed
    moreover have "loop_usable loop" "length loop div FRAME_BYTES = n" using n False by (simp_all add: loop_usable_def)
    ultimately show ?thesis by (simp add: list_all_iff)
  qed
  have m: "length loop mod FRAME_BYTES = 0" using l by simp
  show ?thesis by (rule exI [of _ loop]) (rule conjI [OF conjunct1 [OF l] conjI [OF m c]])
qed

section \<open>Resampling\<close>

lemma rate_loop_append:
  "rate_loop inr outr (xs @ ys) st =
     (let (o1, st1) = rate_loop inr outr xs st; (o2, st2) = rate_loop inr outr ys st1 in (o1 @ o2, st2))"
  by (induction xs arbitrary: st) (simp_all add: Let_def split_beta)

fun every_third :: "nat \<Rightarrow> 'a list \<Rightarrow> 'a list" where
  "every_third k [] = []"
| "every_third 0 (x # xs) = x # every_third 2 xs"
| "every_third (Suc k) (x # xs) = every_third k xs"

lemma rate_loop_48k:
  "k \<le> 2 \<Longrightarrow> fst (rate_loop 3 1 xs \<lparr>rs_d = - 1 - int k, rs_prev = p, rs_cur = c\<rparr>) = every_third k xs"
proof (induction xs arbitrary: k p c)
  case (Cons x xs)
  have e: "emit 3 1 p' c' 0 = ([c' div 65536], - 3)" "d < 0 \<Longrightarrow> emit 3 1 p' c' d = ([], d)" for p' c' d
    by (simp_all add: emit.simps [of 3 1 p' c' 0] emit.simps [of 3 1 p' c' "- 3"] emit.simps [of 3 1 p' c' d]
        rate_sample_def trunc_div_def)
  show ?case
  proof (cases k)
    case 0
    with Cons.IH [of 2 c "x * 65536"] show ?thesis by (simp add: e Let_def split_beta)
  next
    case (Suc j)
    with Cons.IH [of j c "x * 65536"] Cons.prems show ?thesis by (simp add: e Let_def split_beta)
  qed
qed simp

lemma every_third_length: "k \<le> 2 \<Longrightarrow> length (every_third k xs) = (length xs + 2 - k) div 3"
proof (induction k xs rule: every_third.induct)
  case (3 k x xs)
  then show ?case by simp
qed auto

lemma every_third_nth: "k \<le> 2 \<Longrightarrow> i < length (every_third k xs) \<Longrightarrow> every_third k xs ! i = xs ! (k + 3 * i)"
proof (induction k xs arbitrary: i rule: every_third.induct)
  case (2 x xs)
  then show ?case by (cases i) auto
qed auto

end
