(* ===== verification/Rtc_Media.thy ===== *)
theory Rtc_Media
  imports Audio_Dsp Py_Async Interruption
begin

text \<open>
  The media of one call over RTC (the class \<^verbatim>\<open>_CallState\<close> of \<^verbatim>\<open>realtime/rtc_telephony.py\<close>): the inbound loop
  that down-mixes, resamples and forks the line into an ASR lane behind a noise gate and a raw VAD lane, and the outbound
  path, where \<^verbatim>\<open>feed_playout\<close> slices speech into 10 ms frames for a bounded queue that the mixing pump drains.

  \<open>playout_step\<close> interleaves the feeding coroutine, the pump, a barge-in's cancellation and the stopping of the
  pump; the pace of the pump is left open. \<open>po_line\<close> records the speech frames the pump has taken, \<open>po_expect\<close>
  those it should take, \<open>po_chunks\<close> the speech being fed and \<open>po_mark\<close> what was expected before it, \<open>po_lost\<close>
  a frame that was in flight when the pump was stopped, \<open>po_air\<close> what was pushed. One playback runs at a time, and the
  background is configured while none does, as in the run loop. The diagnostic counters and dumps of the inbound loop are left out.

  Shown: both lanes carry the same frames up to gated ones and do not depend on how the line is cut into frames; the
  frames fed depend only on the speech, not on its chunks or the cushion; playback that completes has
  played every frame in order; a cancelled playback keeps the queue's bookkeeping and fades out; and once the pump has
  stopped with frames left, playback never returns.
\<close>

section \<open>The inbound loop\<close>

record rtc_frame =
  fr_sender :: pystr
  fr_pcm :: bytes
  fr_rate :: int
  fr_channels :: int

record gate_config =
  gate_rms :: int
  gate_hangover_ms :: rat

record inbound =
  in_rate :: "rate_state option"
  gate_silence_ms :: rat

definition new_inbound :: inbound where
  "new_inbound = \<lparr>in_rate = None, gate_silence_ms = 0\<rparr>"

definition accepts_sender :: "pystr \<Rightarrow> rtc_frame \<Rightarrow> bool" where
  "accepts_sender edge_uid f = (fr_sender f = [] \<or> fr_sender f = edge_uid)"

definition downmix :: "bool \<Rightarrow> rtc_frame \<Rightarrow> bytes res" where
  "downmix have_audioop f =
     (if (if fr_channels f = 0 then 1 else fr_channels f) > 1 \<and> have_audioop \<and> fr_pcm f \<noteq> []
      then tomono (fr_pcm f) else Inr (fr_pcm f))"

definition resample :: "bool \<Rightarrow> rtc_frame \<Rightarrow> bytes \<Rightarrow> rate_state option \<Rightarrow> (bytes \<times> rate_state option) res" where
  "resample have_audioop f pcm st =
     (if fr_rate f > 0 \<and> fr_rate f \<noteq> 16000 \<and> have_audioop \<and> pcm \<noteq> []
      then bind_res (ratecv pcm (fr_rate f) 16000 st) (\<lambda>(out, st'). Inr (out, Some st'))
      else Inr (pcm, st))"

definition final_rms :: "bool \<Rightarrow> bytes \<Rightarrow> int" where
  "final_rms have_audioop pcm =
     (if have_audioop \<and> pcm \<noteq> [] then (case audioop_rms pcm of Some r \<Rightarrow> int r | None \<Rightarrow> 0) else 0)"

definition frame_ms :: "bytes \<Rightarrow> rat" where
  "frame_ms pcm = (of_nat (length pcm) / 2) / (16000 / 1000)"

text \<open>The gate: what the ASR lane gets for a frame, and the length of the quiet run so far.\<close>

definition noise_gate :: "gate_config \<Rightarrow> int \<Rightarrow> bytes \<Rightarrow> rat \<Rightarrow> bytes \<times> rat" where
  "noise_gate g rms pcm silence =
     (if gate_rms g > 0 \<and> pcm \<noteq> [] then
        if rms \<ge> gate_rms g then (pcm, 0)
        else let silence = silence + frame_ms pcm in
          (if silence > gate_hangover_ms g then replicate (length pcm) 0 else pcm, silence)
      else (pcm, silence))"

definition inbound_frame :: "bool \<Rightarrow> gate_config \<Rightarrow> rtc_frame \<Rightarrow> inbound \<Rightarrow> ((bytes \<times> bytes) \<times> inbound) res" where
  "inbound_frame have_audioop g f st =
     bind_res (downmix have_audioop f) (\<lambda>mixed.
     bind_res (resample have_audioop f mixed (in_rate st)) (\<lambda>(pcm, rate).
       let (asr, silence) = noise_gate g (final_rms have_audioop pcm) pcm (gate_silence_ms st)
       in Inr ((asr, pcm), \<lparr>in_rate = rate, gate_silence_ms = silence\<rparr>)))"

datatype audio_item = Pcm bytes | Sentinel

fun inbound_frames :: "bool \<Rightarrow> gate_config \<Rightarrow> pystr \<Rightarrow> rtc_frame list \<Rightarrow> inbound \<Rightarrow> (bytes \<times> bytes) list \<times> pyerr option" where
  "inbound_frames ha g uid [] st = ([], None)"
| "inbound_frames ha g uid (f # fs) st =
     (if \<not> accepts_sender uid f then inbound_frames ha g uid fs st
      else case inbound_frame ha g f st of
        Inl e \<Rightarrow> ([], Some e)
      | Inr (p, st') \<Rightarrow> (let (ps, e) = inbound_frames ha g uid fs st' in (p # ps, e)))"

text \<open>The lanes at the end of the loop, the sentinel last whatever ended it.\<close>

definition inbound_loop :: "bool \<Rightarrow> gate_config \<Rightarrow> pystr \<Rightarrow> rtc_frame list \<Rightarrow> audio_item list \<times> audio_item list \<times> pyerr option" where
  "inbound_loop ha g uid fs =
     (let (ps, e) = inbound_frames ha g uid fs new_inbound
      in (map (\<lambda>p. Pcm (fst p)) ps @ [Sentinel], map (\<lambda>p. Pcm (snd p)) ps @ [Sentinel], e))"

section \<open>Feeding the queue\<close>

definition PLAYOUT_PREBUFFER_FRAMES :: nat where "PLAYOUT_PREBUFFER_FRAMES = 20"

definition DEFAULT_BARGE_IN_FADEOUT_MS :: int where "DEFAULT_BARGE_IN_FADEOUT_MS = 100"

function slice_frames :: "bytes \<Rightarrow> bytes list \<times> bytes" where
  "slice_frames buf =
     (if length buf < FRAME_BYTES then ([], buf)
      else let (fs, rest) = slice_frames (drop FRAME_BYTES buf) in (take FRAME_BYTES buf # fs, rest))"
  by pat_completeness auto
termination
  by (relation "measure length") auto

declare slice_frames.simps [simp del]

record feeder =
  fd_leftover :: bytes
  fd_cushion :: "bytes list"
  fd_primed :: bool

definition new_feeder :: "bool \<Rightarrow> feeder" where
  "new_feeder ambient_active = \<lparr>fd_leftover = [], fd_cushion = [], fd_primed = (\<not> ambient_active)\<rparr>"

text \<open>What is put for one frame.\<close>

definition feed_frame :: "bytes \<Rightarrow> feeder \<Rightarrow> bytes list \<times> feeder" where
  "feed_frame frame fd =
     (if fd_primed fd then ([frame], fd)
      else let cushion = fd_cushion fd @ [frame] in
        if length cushion \<ge> PLAYOUT_PREBUFFER_FRAMES then (cushion, fd\<lparr>fd_cushion := [], fd_primed := True\<rparr>)
        else ([], fd\<lparr>fd_cushion := cushion\<rparr>))"

fun feed_frames :: "bytes list \<Rightarrow> feeder \<Rightarrow> bytes list \<times> feeder" where
  "feed_frames [] fd = ([], fd)"
| "feed_frames (f # fs) fd = (let (p, fd1) = feed_frame f fd; (ps, fd2) = feed_frames fs fd1 in (p @ ps, fd2))"

definition feed_chunk :: "bytes \<Rightarrow> feeder \<Rightarrow> bytes list \<times> feeder" where
  "feed_chunk chunk fd =
     (let (fs, rest) = slice_frames (fd_leftover fd @ chunk); (ps, fd') = feed_frames fs fd
      in (ps, fd'\<lparr>fd_leftover := rest\<rparr>))"

definition feed_end :: "feeder \<Rightarrow> bytes list" where
  "feed_end fd = fd_cushion fd @
     (if fd_leftover fd \<noteq> [] then [fd_leftover fd @ replicate (FRAME_BYTES - length (fd_leftover fd)) 0] else [])"

fun feed_chunks :: "bytes list \<Rightarrow> feeder \<Rightarrow> bytes list" where
  "feed_chunks [] fd = feed_end fd"
| "feed_chunks (c # cs) fd = (let (ps, fd') = feed_chunk c fd in ps @ feed_chunks cs fd')"

definition feed_puts :: "bool \<Rightarrow> bytes list \<Rightarrow> bytes list" where
  "feed_puts ambient_active chunks = feed_chunks chunks (new_feeder ambient_active)"

section \<open>Queue, pump and cancellation\<close>

datatype pump = PumpNone | PumpWaiting | PumpPushing bytes bool | PumpDone

datatype feed_state = FeedIdle | FeedPutting "bytes list"

record playout =
  po_q :: "bytes aqueue"
  po_pump :: pump
  po_feed :: feed_state
  po_reader :: "ambient_reader option"
  po_gain :: rat
  po_ts :: int
  po_fadeout_ms :: int
  po_air :: "bytes list"
  po_line :: "bytes list"
  po_expect :: "bytes list"
  po_lost :: nat
  po_mark :: "bytes list"
  po_chunks :: "bytes list"

definition new_playout :: playout where
  "new_playout = \<lparr>po_q = new_queue 300, po_pump = PumpNone, po_feed = FeedIdle, po_reader = None, po_gain = 0, po_ts = 0,
     po_fadeout_ms = DEFAULT_BARGE_IN_FADEOUT_MS, po_air = [], po_line = [], po_expect = [], po_lost = 0, po_mark = [], po_chunks = []\<rparr>"

definition start_outbound_pump :: "playout \<Rightarrow> playout" where
  "start_outbound_pump P = (if po_pump P \<noteq> PumpNone then P
     else P\<lparr>po_q := new_queue 300, po_pump := PumpWaiting, po_expect := po_line P, po_lost := 0\<rparr>)"

definition enable_ambient :: "bytes \<Rightarrow> rat \<Rightarrow> playout \<Rightarrow> playout" where
  "enable_ambient loop gain P = (if po_reader P \<noteq> None then P
     else (start_outbound_pump P)\<lparr>po_reader := Some (new_reader loop), po_gain := gain\<rparr>)"

text \<open>The frames that stay when playback is cancelled.\<close>

definition faded :: "int \<Rightarrow> bytes list \<Rightarrow> bytes list res" where
  "faded fadeout_ms pending =
     (if fadeout_ms \<le> 0 \<or> pending = [] then Inr []
      else apply_fadeout (take (nat (min (- ((- fadeout_ms) div 10)) (int (length pending)))) pending))"

fun drain_queue :: "bytes list \<Rightarrow> bytes aqueue \<Rightarrow> bytes aqueue res" where
  "drain_queue [] q = Inr q"
| "drain_queue (x # xs) q = bind_res (task_done (q\<lparr>items := xs\<rparr>)) (drain_queue xs)"

fun put_all :: "bytes list \<Rightarrow> bytes aqueue \<Rightarrow> bytes aqueue option" where
  "put_all [] q = Some q"
| "put_all (x # xs) q = Option.bind (put_nowait x q) (put_all xs)"

definition flush_playout :: "int \<Rightarrow> bytes aqueue \<Rightarrow> (bytes aqueue \<times> bytes list) option" where
  "flush_playout fadeout_ms q =
     (let pending = items q in
      case drain_queue pending q of
        Inl e \<Rightarrow> None
      | Inr q1 \<Rightarrow> (case faded fadeout_ms pending of
            Inl e \<Rightarrow> None
          | Inr fs \<Rightarrow> map_option (\<lambda>q2. (q2, fs)) (put_all fs q1)))"

datatype playout_act = StartFeed "bytes list" | FeedPut | FeedReturn | CancelFeed | PumpTake | PumpPushed | PumpFailed
  | PumpNotJoined | StopPump | EnableAmbient bytes rat | SetFadeout int

definition mark_done :: "bool \<Rightarrow> bytes aqueue \<Rightarrow> bytes aqueue option" where
  "mark_done has_tts q = (if has_tts then (case task_done q of Inr q' \<Rightarrow> Some q' | Inl e \<Rightarrow> None) else Some q)"

definition pump_take :: "playout \<Rightarrow> playout option" where
  "pump_take P =
     (let (tts, has_tts, q) = (case get_nowait (po_q P) of Some (x, q') \<Rightarrow> (x, True, q') | None \<Rightarrow> (SILENCE_FRAME, False, po_q P));
          (bg, reader) = (case po_reader P of Some r \<Rightarrow> (let (b, r') = next_frame r in (b, Some r')) | None \<Rightarrow> (SILENCE_FRAME, None))
      in case mix_frame tts bg (po_gain P) of
           Inl e \<Rightarrow> None
         | Inr frame \<Rightarrow> Some (P\<lparr>po_q := q, po_reader := reader, po_pump := PumpPushing frame has_tts,
             po_line := po_line P @ (if has_tts then [tts] else [])\<rparr>))"

fun playout_step :: "playout_act \<Rightarrow> playout \<Rightarrow> playout option" where
  "playout_step (StartFeed chunks) P =
     (if po_feed P \<noteq> FeedIdle then None
      else let P1 = start_outbound_pump P
           in Some (P1\<lparr>po_feed := FeedPutting (feed_puts (po_reader P1 \<noteq> None) chunks), po_mark := po_expect P1, po_chunks := chunks\<rparr>))"
| "playout_step FeedPut P = (case po_feed P of
       FeedPutting (f # fs) \<Rightarrow> map_option (\<lambda>q. P\<lparr>po_q := q, po_feed := FeedPutting fs, po_expect := po_expect P @ [f]\<rparr>)
         (put_nowait f (po_q P))
     | _ \<Rightarrow> None)"
| "playout_step FeedReturn P =
     (if po_feed P = FeedPutting [] \<and> unfinished (po_q P) = 0 then Some (P\<lparr>po_feed := FeedIdle\<rparr>) else None)"
| "playout_step CancelFeed P =
     (if po_feed P = FeedIdle then None
      else map_option (\<lambda>(q, fs). P\<lparr>po_q := q, po_feed := FeedIdle, po_expect := po_line P @ fs\<rparr>)
        (flush_playout (po_fadeout_ms P) (po_q P)))"
| "playout_step PumpTake P = (if po_pump P = PumpWaiting then pump_take P else None)"
| "playout_step PumpPushed P = (case po_pump P of
       PumpPushing frame has \<Rightarrow> map_option (\<lambda>q. P\<lparr>po_q := q, po_pump := PumpWaiting, po_ts := po_ts P + 10,
         po_air := po_air P @ [frame]\<rparr>) (mark_done has (po_q P))
     | _ \<Rightarrow> None)"
| "playout_step PumpFailed P = (case po_pump P of
       PumpPushing frame has \<Rightarrow> map_option (\<lambda>q. P\<lparr>po_q := q, po_pump := PumpWaiting\<rparr>) (mark_done has (po_q P))
     | _ \<Rightarrow> None)"
| "playout_step PumpNotJoined P = (case po_pump P of
       PumpPushing frame has \<Rightarrow> map_option (\<lambda>q. P\<lparr>po_q := q, po_pump := PumpDone\<rparr>) (mark_done has (po_q P))
     | _ \<Rightarrow> None)"
| "playout_step StopPump P =
     (if po_pump P = PumpNone then None
      else Some (P\<lparr>po_pump := PumpNone, po_lost := (case po_pump P of PumpPushing _ True \<Rightarrow> 1 | _ \<Rightarrow> po_lost P)\<rparr>))"
| "playout_step (EnableAmbient loop gain) P = (if po_feed P = FeedIdle then Some (enable_ambient loop gain P) else None)"
| "playout_step (SetFadeout ms) P = Some (P\<lparr>po_fadeout_ms := ms\<rparr>)"

section \<open>The two lanes\<close>

text \<open>The quiet run that ends with the newest of the frames.\<close>

fun quiet_ms :: "bool \<Rightarrow> gate_config \<Rightarrow> bytes list \<Rightarrow> rat" where
  "quiet_ms ha g [] = 0"
| "quiet_ms ha g (v # older) = (if v = [] then quiet_ms ha g older
     else if final_rms ha v \<ge> gate_rms g then 0 else quiet_ms ha g older + frame_ms v)"

definition gated :: "bool \<Rightarrow> gate_config \<Rightarrow> bytes list \<Rightarrow> bytes" where
  "gated ha g newest_first = (let v = hd newest_first in
     if gate_rms g > 0 \<and> v \<noteq> [] \<and> final_rms ha v < gate_rms g \<and> quiet_ms ha g newest_first > gate_hangover_ms g
     then replicate (length v) 0 else v)"

lemma inbound_frames_gate:
  assumes "inbound_frames ha g uid fs st = (ps, e)" and "gate_rms g > 0 \<Longrightarrow> gate_silence_ms st = quiet_ms ha g done"
  shows "\<forall>i < length ps. fst (ps ! i) = gated ha g (rev (take (Suc i) (map snd ps)) @ done)"
  using assms
proof (induction ha g uid fs st arbitrary: ps e "done" rule: inbound_frames.induct)
  case (2 ha g uid f fs st)
  show ?case
  proof (cases "accepts_sender uid f")
    case False
    with 2(1) [OF False] 2(3,4) show ?thesis by simp
  next
    case True
    show ?thesis
    proof (cases "inbound_frame ha g f st")
      case (Inl er)
      with 2(3) True show ?thesis by simp
    next
      case (Inr y)
      obtain p st' where y: "y = (p, st')" by fastforce
      obtain qs e' where q: "inbound_frames ha g uid fs st' = (qs, e')" by fastforce
      have ps: "ps = p # qs" using 2(3) True Inr y q by auto
      obtain a v rate where pv: "p = (a, v)" and ng: "noise_gate g (final_rms ha v) v (gate_silence_ms st) = (a, gate_silence_ms st')"
        using Inr y by (auto simp: inbound_frame_def bind_res_def Let_def split: sum.splits prod.splits)
      have s: "gate_rms g > 0 \<Longrightarrow> gate_silence_ms st' = quiet_ms ha g (v # done)"
        using ng 2(4) by (auto simp: noise_gate_def Let_def split: if_splits)
      have ih: "\<forall>i < length qs. fst (qs ! i) = gated ha g (rev (take (Suc i) (map snd qs)) @ v # done)"
        using 2(2) [OF _ Inr y [symmetric] q s] True by simp
      have a: "a = gated ha g (v # done)"
        using ng 2(4) by (auto simp: noise_gate_def gated_def Let_def split: if_splits)
      show ?thesis
        unfolding ps
      proof (intro allI impI)
        fix i assume "i < length (p # qs)"
        then show "fst ((p # qs) ! i) = gated ha g (rev (take (Suc i) (map snd (p # qs))) @ done)"
          using ih a pv by (cases i) auto
      qed
    qed
  qed
qed simp

text \<open>Down-mixing and resampling a cut stream.\<close>

lemma samples16_append: "even (length a) \<Longrightarrow> samples16 (a @ b) = samples16 a @ samples16 b"
  by (induction a rule: samples16.induct) auto

lemma mono_append: "even (length xs) \<Longrightarrow> mono_mix (xs @ ys) = mono_mix xs @ mono_mix ys"
  by (induction xs rule: mono_mix.induct) auto

lemma length_mono: "length (mono_mix xs) = length xs div 2"
  by (induction xs rule: mono_mix.induct) auto

lemma pcm_range_simps [simp]:
  "pcm_range []" "pcm_range (x # xs) \<longleftrightarrow> (- 32768 \<le> x \<and> x \<le> 32767) \<and> pcm_range xs"
  by (auto simp: pcm_range_def)

lemma mid_range:
  fixes l r :: int
  assumes "- 32768 \<le> l" "l \<le> 32767" "- 32768 \<le> r" "r \<le> 32767"
  shows "- 32768 \<le> (l + r) div 2" "(l + r) div 2 \<le> 32767"
  using assms zdiv_mono1 [of "- 65536" "l + r" 2] zdiv_mono1 [of "l + r" 65534 2] by simp_all

lemma mono_range: "pcm_range xs \<Longrightarrow> pcm_range (mono_mix xs)"
proof (induction xs rule: mono_mix.induct)
  case (1 l r xs)
  then have "- 32768 \<le> l" "l \<le> 32767" "- 32768 \<le> r" "r \<le> 32767" and "pcm_range (mono_mix xs)"
    by simp_all
  with mid_range show ?case unfolding mono_mix.simps pcm_range_simps by blast
qed simp_all

text \<open>A frame as the Linux SDK delivers it: 48 kHz stereo, a whole number of sample pairs.\<close>

definition sdk_frame :: "rtc_frame \<Rightarrow> bool" where
  "sdk_frame f \<longleftrightarrow> fr_rate f = 48000 \<and> fr_channels f = 2 \<and> fr_pcm f \<noteq> [] \<and> length (fr_pcm f) mod 4 = 0"

definition line_samples :: "rtc_frame list \<Rightarrow> int list" where
  "line_samples fs = mono_mix (concat (map (samples16 \<circ> fr_pcm) fs))"

lemma rate_loop_range:
  "pcm_range xs \<Longrightarrow> k \<le> 2 \<Longrightarrow> pcm_range (every_third k xs)"
  by (induction k xs rule: every_third.induct) simp_all

lemma mod4_even: "n mod 4 = 0 \<Longrightarrow> even (n :: nat)"
  by (metis dvd_trans even_numeral mod_0_imp_dvd)

lemma sdk_pcm:
  assumes "sdk_frame f"
  shows "downmix True f = Inr (bytes16 (mono_mix (samples16 (fr_pcm f))))"
    and "samples16 (bytes16 (mono_mix (samples16 (fr_pcm f)))) = mono_mix (samples16 (fr_pcm f))"
    and "bytes16 (mono_mix (samples16 (fr_pcm f))) \<noteq> []"
proof -
  have n: "4 \<le> length (fr_pcm f)"
  proof (rule ccontr)
    assume "\<not> 4 \<le> length (fr_pcm f)"
    then have "length (fr_pcm f) mod 4 = length (fr_pcm f)" by simp
    with assms show False by (simp add: sdk_frame_def)
  qed
  show "downmix True f = Inr (bytes16 (mono_mix (samples16 (fr_pcm f))))"
    using assms by (simp add: downmix_def tomono_def sdk_frame_def)
  show "samples16 (bytes16 (mono_mix (samples16 (fr_pcm f)))) = mono_mix (samples16 (fr_pcm f))"
    by (rule samples16_bytes16' [OF mono_range [OF samples16_pcm]])
  have "length (bytes16 (mono_mix (samples16 (fr_pcm f)))) > 0"
    using n by (simp add: length_mono length_samples16)
  then show "bytes16 (mono_mix (samples16 (fr_pcm f))) \<noteq> []" by (metis length_greater_0_conv)
qed

text \<open>The state of the resampler between two frames is the phase of the decimation.\<close>

definition phase :: "nat \<Rightarrow> rate_state \<Rightarrow> bool" where
  "phase k st \<longleftrightarrow> k \<le> 2 \<and> rs_d st = - 1 - int k"

lemma emit_48k:
  "emit 3 1 p c 0 = ([c div 65536], - 3)" "d < 0 \<Longrightarrow> emit 3 1 p c d = ([], d)"
  by (simp_all add: emit.simps [of 3 1 p c 0] emit.simps [of 3 1 p c "- 3"] emit.simps [of 3 1 p c d]
      rate_sample_def trunc_div_def)

lemma rate_loop_phase:
  "phase k st \<Longrightarrow> \<exists>k' st'. rate_loop 3 1 xs st = (every_third k xs, st') \<and> phase k' st'
     \<and> (\<forall>ys. every_third k (xs @ ys) = every_third k xs @ every_third k' ys)"
proof (induction xs arbitrary: k st)
  case Nil
  then show ?case by auto
next
  case (Cons x xs)
  show ?case
  proof (cases k)
    case 0
    define st1 where "st1 = \<lparr>rs_d = - 3, rs_prev = rs_cur st, rs_cur = x * 65536\<rparr>"
    have "phase 2 st1" by (simp add: phase_def st1_def)
    from Cons.IH [OF this] obtain k' st' where r: "rate_loop 3 1 xs st1 = (every_third 2 xs, st')" "phase k' st'"
      "\<forall>ys. every_third 2 (xs @ ys) = every_third 2 xs @ every_third k' ys" by blast
    have "rate_loop 3 1 (x # xs) st = (every_third k (x # xs), st')"
      using Cons.prems 0 r(1) by (simp add: phase_def emit_48k st1_def Let_def)
    with r 0 show ?thesis by (intro exI [of _ k'] exI [of _ st']) simp
  next
    case (Suc j)
    define st1 where "st1 = \<lparr>rs_d = - 1 - int j, rs_prev = rs_cur st, rs_cur = x * 65536\<rparr>"
    have "phase j st1" using Cons.prems Suc by (simp add: phase_def st1_def)
    from Cons.IH [OF this] obtain k' st' where r: "rate_loop 3 1 xs st1 = (every_third j xs, st')" "phase k' st'"
      "\<forall>ys. every_third j (xs @ ys) = every_third j xs @ every_third k' ys" by blast
    have "rate_loop 3 1 (x # xs) st = (every_third k (x # xs), st')"
      using Cons.prems Suc r(1) by (simp add: phase_def emit_48k st1_def Let_def)
    with r Suc show ?thesis by (intro exI [of _ k'] exI [of _ st']) simp
  qed
qed

definition in_phase :: "nat \<Rightarrow> inbound \<Rightarrow> bool" where
  "in_phase k st \<longleftrightarrow> (case in_rate st of None \<Rightarrow> k = 0 | Some r \<Rightarrow> phase k r)"

lemma gcd_48k: "gcd 48000 16000 = (16000 :: int)"
  by (simp add: gcd_proj2_iff)

lemma inbound_sdk_frame:
  assumes "sdk_frame f" and "in_phase k st"
  shows "\<exists>a v st' k'. inbound_frame True g f st = Inr ((a, v), st') \<and> in_phase k' st'
     \<and> samples16 v = every_third k (mono_mix (samples16 (fr_pcm f)))
     \<and> (\<forall>ys. every_third k (mono_mix (samples16 (fr_pcm f)) @ ys)
           = every_third k (mono_mix (samples16 (fr_pcm f))) @ every_third k' ys)"
proof -
  let ?m = "mono_mix (samples16 (fr_pcm f))"
  let ?r = "case in_rate st of Some r \<Rightarrow> r | None \<Rightarrow> rate_init 1"
  have ph: "phase k ?r"
    using assms(2) by (auto simp: in_phase_def phase_def rate_init_def split: option.splits)
  from rate_loop_phase [OF ph, of ?m] obtain k' r' where r: "rate_loop 3 1 ?m ?r = (every_third k ?m, r')" "phase k' r'"
      "\<forall>ys. every_third k (?m @ ys) = every_third k ?m @ every_third k' ys" by blast
  let ?v = "bytes16 (every_third k ?m)"
  have rt: "fr_rate f = 48000" using assms(1) by (simp add: sdk_frame_def)
  have "resample True f (bytes16 ?m) (in_rate st) = Inr (?v, Some r')"
    using r(1) sdk_pcm [OF assms(1)] rt by (simp add: resample_def ratecv_def gcd_48k bind_res_def Let_def cong: option.case_cong)
  moreover obtain a sil where "noise_gate g (final_rms True ?v) ?v (gate_silence_ms st) = (a, sil)" by fastforce
  ultimately have "inbound_frame True g f st = Inr ((a, ?v), \<lparr>in_rate = Some r', gate_silence_ms = sil\<rparr>)"
    using sdk_pcm(1) [OF assms(1)] by (simp add: inbound_frame_def bind_res_def)
  moreover have "samples16 ?v = every_third k ?m"
    using ph by (intro samples16_bytes16' rate_loop_range mono_range samples16_pcm) (simp add: phase_def)
  moreover have "in_phase k' \<lparr>in_rate = Some r', gate_silence_ms = sil\<rparr>" using r(2) by (simp add: in_phase_def)
  ultimately show ?thesis using r(3) by blast
qed

lemma even_samples: "sdk_frame f \<Longrightarrow> even (length (samples16 (fr_pcm f)))"
proof -
  assume "sdk_frame f"
  then have "4 dvd length (fr_pcm f)" by (simp add: sdk_frame_def mod_0_imp_dvd)
  then obtain n where "length (fr_pcm f) = 4 * n" by blast
  then show "even (length (samples16 (fr_pcm f)))" by (simp add: length_samples16)
qed

lemma inbound_sdk_frames:
  assumes "list_all sdk_frame (filter (accepts_sender uid) fs)" and "in_phase k st"
  shows "\<exists>ps. inbound_frames True g uid fs st = (ps, None) \<and> length ps = length (filter (accepts_sender uid) fs)
     \<and> concat (map (\<lambda>p. samples16 (snd p)) ps) = every_third k (line_samples (filter (accepts_sender uid) fs))"
  using assms
proof (induction fs arbitrary: k st)
  case Nil
  then show ?case by (simp add: line_samples_def)
next
  case (Cons f fs)
  show ?case
  proof (cases "accepts_sender uid f")
    case False
    with Cons show ?thesis by simp
  next
    case True
    then have f: "sdk_frame f" and fs: "list_all sdk_frame (filter (accepts_sender uid) fs)"
      using Cons.prems(1) by simp_all
    obtain a v st' k' where s: "inbound_frame True g f st = Inr ((a, v), st')" "in_phase k' st'"
      "samples16 v = every_third k (mono_mix (samples16 (fr_pcm f)))"
      "\<forall>ys. every_third k (mono_mix (samples16 (fr_pcm f)) @ ys)
           = every_third k (mono_mix (samples16 (fr_pcm f))) @ every_third k' ys"
      using inbound_sdk_frame [OF f Cons.prems(2), of g] by blast
    obtain ps where p: "inbound_frames True g uid fs st' = (ps, None)" "length ps = length (filter (accepts_sender uid) fs)"
      "concat (map (\<lambda>p. samples16 (snd p)) ps) = every_third k' (line_samples (filter (accepts_sender uid) fs))"
      using Cons.IH [OF fs s(2)] by blast
    have "line_samples (filter (accepts_sender uid) (f # fs))
        = mono_mix (samples16 (fr_pcm f)) @ line_samples (filter (accepts_sender uid) fs)"
      using True mono_append [OF even_samples [OF f]] by (simp add: line_samples_def)
    with p s True show ?thesis by (intro exI [of _ "((a, v) # ps)"]) simp
  qed
qed

text \<open>C25. Both lanes carry the caller's line: for the 48 kHz stereo frames of the SDK, however the line is cut into
  frames, the VAD lane is every third sample of the down-mixed line and has one item per frame that comes from the
  edge; the ASR lane has the same items except that a frame is silenced exactly when the quiet run up to and
  including it exceeds the gate's hangover; and both lanes end with the sentinel.\<close>

theorem inbound_lanes_agree:
  assumes "list_all sdk_frame (filter (accepts_sender uid) fs)" and "inbound_loop True g uid fs = (asr, vad, e)"
  shows "e = None \<and> (\<exists>ps. asr = map (\<lambda>p. Pcm (fst p)) ps @ [Sentinel] \<and> vad = map (\<lambda>p. Pcm (snd p)) ps @ [Sentinel]
     \<and> length ps = length (filter (accepts_sender uid) fs)
     \<and> concat (map (\<lambda>p. samples16 (snd p)) ps) = every_third 0 (line_samples (filter (accepts_sender uid) fs))
     \<and> (\<forall>i < length ps. fst (ps ! i) = gated True g (rev (take (Suc i) (map snd ps)))))"
proof -
  have "in_phase 0 new_inbound" by (simp add: in_phase_def new_inbound_def)
  from inbound_sdk_frames [OF assms(1) this, of g] obtain ps where
    p: "inbound_frames True g uid fs new_inbound = (ps, None)" "length ps = length (filter (accepts_sender uid) fs)"
      "concat (map (\<lambda>p. samples16 (snd p)) ps) = every_third 0 (line_samples (filter (accepts_sender uid) fs))"
    by blast
  have "\<forall>i < length ps. fst (ps ! i) = gated True g (rev (take (Suc i) (map snd ps)) @ [])"
    by (rule inbound_frames_gate [OF p(1)]) (simp add: new_inbound_def)
  with p assms(2) show ?thesis
    by (intro conjI exI [of _ ps]) (auto simp: inbound_loop_def)
qed

definition demo_line :: "rtc_frame list" where
  "demo_line = [\<lparr>fr_sender = [], fr_pcm = [2, 0, 4, 0], fr_rate = 48000, fr_channels = 2\<rparr>,
     \<lparr>fr_sender = lit ''x'', fr_pcm = [9], fr_rate = 48000, fr_channels = 2\<rparr>]"

theorem inbound_lanes_agree_witness:
  "list_all sdk_frame (filter (accepts_sender (lit ''edge'')) demo_line)
   \<and> (\<exists>asr v. inbound_loop True \<lparr>gate_rms = 0, gate_hangover_ms = 300\<rparr> (lit ''edge'') demo_line
        = ([Pcm asr, Sentinel], [Pcm v, Sentinel], None) \<and> samples16 v = [3])"
proof -
  let ?g = "\<lparr>gate_rms = 0, gate_hangover_ms = 300\<rparr>"
  have fl: "filter (accepts_sender (lit ''edge'')) demo_line = [hd demo_line]"
    by (simp add: demo_line_def accepts_sender_def lit_def)
  have s: "list_all sdk_frame (filter (accepts_sender (lit ''edge'')) demo_line)"
    unfolding fl by (simp add: demo_line_def sdk_frame_def)
  have ls: "every_third 0 (line_samples [hd demo_line]) = [3]"
    by (simp add: line_samples_def demo_line_def signed16_def)
  obtain asr vad e where l: "inbound_loop True ?g (lit ''edge'') demo_line = (asr, vad, e)" by (metis prod_cases3)
  from inbound_lanes_agree [OF s l] obtain ps where
    p: "e = None" "asr = map (\<lambda>p. Pcm (fst p)) ps @ [Sentinel]" "vad = map (\<lambda>p. Pcm (snd p)) ps @ [Sentinel]"
      "length ps = 1" "concat (map (\<lambda>p. samples16 (snd p)) ps) = [3]"
    unfolding fl ls by (elim conjE exE) simp
  then obtain q where "ps = [q]" by (metis One_nat_def length_0_conv length_Suc_conv)
  with p l s show ?thesis by simp
qed

section \<open>What is fed\<close>

definition pad_frames :: "bytes \<Rightarrow> bytes list" where
  "pad_frames buf = (let (fs, rest) = slice_frames buf in
     fs @ (if rest \<noteq> [] then [rest @ replicate (FRAME_BYTES - length rest) 0] else []))"

lemma slice_short: "length buf < 320 \<Longrightarrow> slice_frames buf = ([], buf)"
  by (simp add: slice_frames.simps [of buf])

lemma slice_long:
  "320 \<le> length buf \<Longrightarrow> slice_frames buf = (take 320 buf # fst (slice_frames (drop 320 buf)), snd (slice_frames (drop 320 buf)))"
  by (simp add: slice_frames.simps [of buf] split_beta)

lemma slice_append:
  "slice_frames (a @ b) = (fst (slice_frames a) @ fst (slice_frames (snd (slice_frames a) @ b)), snd (slice_frames (snd (slice_frames a) @ b)))"
proof (induction a rule: slice_frames.induct)
  case (1 a)
  show ?case
  proof (cases "length a < 320")
    case True
    then show ?thesis by (simp add: slice_short)
  next
    case False
    then show ?thesis
      using 1 slice_long [of a] slice_long [of "a @ b"] by simp
  qed
qed

lemma slice_rest: "length (snd (slice_frames buf)) < 320"
proof (induction buf rule: slice_frames.induct)
  case (1 buf)
  then show ?case by (cases "length buf < 320") (simp_all add: slice_short slice_long)
qed

lemma slice_lengths: "list_all (\<lambda>f. length f = 320) (fst (slice_frames buf))"
proof (induction buf rule: slice_frames.induct)
  case (1 buf)
  then show ?case by (cases "length buf < 320") (simp_all add: slice_short slice_long)
qed

lemma slice_concat: "concat (fst (slice_frames buf)) @ snd (slice_frames buf) = buf"
proof (induction buf rule: slice_frames.induct)
  case (1 buf)
  then show ?case by (cases "length buf < 320") (simp_all add: slice_short slice_long)
qed

lemma pad_frames_lengths: "list_all (\<lambda>f. length f = 320) (pad_frames buf)"
  using slice_lengths [of buf] slice_rest [of buf] by (auto simp: pad_frames_def split_beta)

lemma pad_frames_concat:
  "\<exists>n < 320. concat (pad_frames buf) = buf @ replicate n 0"
proof -
  have c: "concat (fst (slice_frames buf)) @ snd (slice_frames buf) = buf" by (rule slice_concat)
  show ?thesis
  proof (cases "snd (slice_frames buf) = []")
    case True
    with c show ?thesis by (intro exI [of _ 0]) (simp add: pad_frames_def split_beta)
  next
    case False
    let ?r = "snd (slice_frames buf)"
    have "concat (pad_frames buf) = buf @ replicate (320 - length ?r) 0"
      using False by (simp add: pad_frames_def split_beta) (metis append.assoc c)
    moreover have "320 - length ?r < 320" using False by simp
    ultimately show ?thesis by blast
  qed
qed

definition feeder_ok :: "feeder \<Rightarrow> bool" where
  "feeder_ok fd \<longleftrightarrow> fd_primed fd \<longrightarrow> fd_cushion fd = []"

lemma feed_frame_order:
  "feeder_ok fd \<Longrightarrow> feed_frame f fd = (ps, fd') \<Longrightarrow>
   feeder_ok fd' \<and> fd_leftover fd' = fd_leftover fd \<and> ps @ fd_cushion fd' = fd_cushion fd @ [f]"
  by (auto simp: feed_frame_def feeder_ok_def Let_def split: if_splits)

lemma feed_frames_order:
  "feeder_ok fd \<Longrightarrow> feed_frames fs fd = (ps, fd') \<Longrightarrow>
   feeder_ok fd' \<and> fd_leftover fd' = fd_leftover fd \<and> ps @ fd_cushion fd' = fd_cushion fd @ fs"
proof (induction fs arbitrary: fd ps fd')
  case (Cons f fs)
  obtain p1 fd1 where a: "feed_frame f fd = (p1, fd1)" by fastforce
  obtain p2 fd2 where b: "feed_frames fs fd1 = (p2, fd2)" by fastforce
  have "feeder_ok fd1" "fd_leftover fd1 = fd_leftover fd" "p1 @ fd_cushion fd1 = fd_cushion fd @ [f]"
    using feed_frame_order [OF Cons.prems(1) a] by blast+
  moreover have "feeder_ok fd2" "fd_leftover fd2 = fd_leftover fd1" "p2 @ fd_cushion fd2 = fd_cushion fd1 @ fs"
    using Cons.IH [OF calculation(1) b] by blast+
  ultimately show ?case using Cons.prems(2) a b by auto
qed simp

lemma feed_chunks_frames:
  "feeder_ok fd \<Longrightarrow> length (fd_leftover fd) < 320 \<Longrightarrow>
   feed_chunks cs fd = fd_cushion fd @ pad_frames (fd_leftover fd @ concat cs)"
proof (induction cs arbitrary: fd)
  case Nil
  then show ?case by (simp add: feed_end_def pad_frames_def slice_short)
next
  case (Cons c cs)
  let ?s = "slice_frames (fd_leftover fd @ c)"
  obtain ps fd1 where f: "feed_frames (fst ?s) fd = (ps, fd1)" by fastforce
  have o: "feeder_ok fd1" "ps @ fd_cushion fd1 = fd_cushion fd @ fst ?s"
    using feed_frames_order [OF Cons.prems(1) f] by blast+
  let ?fd = "fd1\<lparr>fd_leftover := snd ?s\<rparr>"
  have "feed_chunks (c # cs) fd = ps @ feed_chunks cs ?fd"
    using f by (simp add: feed_chunk_def split_beta)
  also have "feed_chunks cs ?fd = fd_cushion ?fd @ pad_frames (fd_leftover ?fd @ concat cs)"
    using o(1) slice_rest by (intro Cons.IH) (simp_all add: feeder_ok_def)
  also have "ps @ \<dots> = (fd_cushion fd @ fst ?s) @ pad_frames (snd ?s @ concat cs)"
    using o(2) by simp
  also have "fst ?s @ pad_frames (snd ?s @ concat cs) = pad_frames ((fd_leftover fd @ c) @ concat cs)"
    using slice_append [of "fd_leftover fd @ c" "concat cs"] by (simp add: pad_frames_def split_beta)
  then have "(fd_cushion fd @ fst ?s) @ pad_frames (snd ?s @ concat cs) = fd_cushion fd @ pad_frames (fd_leftover fd @ concat (c # cs))"
    by simp
  finally show ?case .
qed

lemma feed_puts_frames: "feed_puts ambient chunks = pad_frames (concat chunks)"
  unfolding feed_puts_def by (subst feed_chunks_frames) (simp_all add: feeder_ok_def new_feeder_def)

section \<open>Playback\<close>

definition in_flight :: "pump \<Rightarrow> nat" where
  "in_flight p = (case p of PumpPushing _ True \<Rightarrow> 1 | _ \<Rightarrow> 0)"

lemma in_flight_simps [simp]:
  "in_flight PumpNone = 0" "in_flight PumpWaiting = 0" "in_flight PumpDone = 0"
  "in_flight (PumpPushing f h) = (if h then 1 else 0)"
  by (auto simp: in_flight_def)

text \<open>The queue's counter accounts for every frame; the pump has taken exactly what is not in the queue any more;
  every frame is 10 ms long.\<close>

definition playout_inv :: "playout \<Rightarrow> bool" where
  "playout_inv P \<longleftrightarrow>
     unfinished (po_q P) = length (items (po_q P)) + in_flight (po_pump P) + po_lost P
     \<and> po_line P @ items (po_q P) = po_expect P
     \<and> maxsize (po_q P) = 300 \<and> length (items (po_q P)) \<le> 300
     \<and> (po_pump P \<noteq> PumpNone \<longrightarrow> po_lost P = 0)
     \<and> list_all (\<lambda>f. length f = 320) (items (po_q P))
     \<and> (\<forall>todo. po_feed P = FeedPutting todo \<longrightarrow> list_all (\<lambda>f. length f = 320) todo
           \<and> po_expect P @ todo = po_mark P @ pad_frames (concat (po_chunks P)))"

lemma playout_invD:
  assumes "playout_inv P"
  shows "unfinished (po_q P) = length (items (po_q P)) + in_flight (po_pump P) + po_lost P"
    "po_line P @ items (po_q P) = po_expect P" "maxsize (po_q P) = 300" "length (items (po_q P)) \<le> 300"
    "po_pump P \<noteq> PumpNone \<Longrightarrow> po_lost P = 0" "list_all (\<lambda>f. length f = 320) (items (po_q P))"
    "po_feed P = FeedPutting todo \<Longrightarrow> list_all (\<lambda>f. length f = 320) todo"
    "po_feed P = FeedPutting todo \<Longrightarrow> po_expect P @ todo = po_mark P @ pad_frames (concat (po_chunks P))"
  using assms unfolding playout_inv_def by blast+

lemma new_playout_inv: "playout_inv new_playout"
  by (simp add: playout_inv_def new_playout_def new_queue_def)

lemma start_pump_inv: "playout_inv P \<Longrightarrow> po_feed P = FeedIdle \<Longrightarrow> playout_inv (start_outbound_pump P)"
  by (simp add: playout_inv_def start_outbound_pump_def new_queue_def)

lemma next_frame_length: "length (fst (next_frame r)) = 320"
  by (auto simp: next_frame_def SILENCE_FRAME_def Let_def)

lemma mix_frame_ok: "length tts = 320 \<Longrightarrow> length bg = 320 \<Longrightarrow> \<exists>out. mix_frame tts bg gain = Inr out"
  by (auto simp: mix_frame_def array_h_def bind_res_def)

text \<open>The drain and the frames that come back.\<close>

lemma drain_queue_ok:
  "length xs \<le> unfinished q \<Longrightarrow> items q = xs \<Longrightarrow>
   drain_queue xs q = Inr (q\<lparr>items := [], unfinished := unfinished q - length xs\<rparr>)"
proof (induction xs arbitrary: q)
  case (Cons x xs)
  then have "task_done (q\<lparr>items := xs\<rparr>) = Inr (q\<lparr>items := xs, unfinished := unfinished q - 1\<rparr>)"
    by (simp add: task_done_def)
  then show ?case using Cons by (simp add: bind_res_def)
qed (simp add: aqueue.equality)

lemma put_all_ok:
  "maxsize q = 300 \<Longrightarrow> length (items q) + length xs \<le> 300 \<Longrightarrow>
   put_all xs q = Some (q\<lparr>items := items q @ xs, unfinished := unfinished q + length xs\<rparr>)"
  by (induction xs arbitrary: q) (simp_all add: put_nowait_def qfull_def)

lemma fadeout_shape:
  assumes "list_all (\<lambda>f. length f = 320) fs"
  shows "\<exists>out. apply_fadeout fs = Inr out \<and> map length out = map length fs"
proof -
  have "list_all (\<lambda>f. even (length f)) fs" using assms by (auto simp: list_all_iff)
  then show ?thesis
    using fade_frames_samples [of fs "sum_list (map (\<lambda>f. length f div 2) fs)" 0] by (auto simp: apply_fadeout_def Let_def)
qed

lemma faded_ok:
  assumes "list_all (\<lambda>f. length f = 320) pending"
  shows "\<exists>fs. faded ms pending = Inr fs \<and> length fs \<le> length pending \<and> list_all (\<lambda>f. length f = 320) fs"
proof (cases "ms \<le> 0 \<or> pending = []")
  case False
  let ?n = "nat (min (- ((- ms) div 10)) (int (length pending)))"
  have l: "list_all (\<lambda>f. length f = 320) (take ?n pending)"
    using assms by (auto simp: list_all_iff dest: in_set_takeD)
  obtain out where o: "apply_fadeout (take ?n pending) = Inr out" "map length out = map length (take ?n pending)"
    using fadeout_shape [OF l] by blast
  have "length out \<le> length pending" using arg_cong [OF o(2), of length] by simp
  moreover have "list_all (\<lambda>f. length f = 320) out"
    using l arg_cong [OF o(2), of set] by (auto simp: list_all_iff)
  ultimately show ?thesis using o False by (simp add: faded_def)
qed (auto simp: faded_def)

lemma flush_ok:
  assumes "playout_inv P"
  shows "\<exists>q fs. flush_playout (po_fadeout_ms P) (po_q P) = Some (q, fs) \<and> faded (po_fadeout_ms P) (items (po_q P)) = Inr fs
     \<and> items q = fs \<and> unfinished q = length fs + in_flight (po_pump P) + po_lost P \<and> maxsize q = 300
     \<and> length fs \<le> length (items (po_q P)) \<and> list_all (\<lambda>f. length f = 320) fs"
proof -
  note i = playout_invD [OF assms]
  obtain fs where f: "faded (po_fadeout_ms P) (items (po_q P)) = Inr fs" "length fs \<le> length (items (po_q P))"
      "list_all (\<lambda>f. length f = 320) fs"
    using faded_ok [OF i(6)] by blast
  let ?q1 = "(po_q P)\<lparr>items := [], unfinished := unfinished (po_q P) - length (items (po_q P))\<rparr>"
  have d: "drain_queue (items (po_q P)) (po_q P) = Inr ?q1" using i(1) by (intro drain_queue_ok) simp_all
  have p: "put_all fs ?q1 = Some (?q1\<lparr>items := fs, unfinished := in_flight (po_pump P) + po_lost P + length fs\<rparr>)"
    using put_all_ok [of ?q1 fs] i(1,3,4) f(2) by simp
  show ?thesis
    using d p f i(3) by (simp add: flush_playout_def)
qed

lemma pump_take_inv:
  assumes "playout_inv P" and "po_pump P = PumpWaiting" and "pump_take P = Some P'"
  shows "playout_inv P'"
proof -
  note i = playout_invD [OF assms(1)]
  show ?thesis
  proof (cases "items (po_q P)")
    case Nil
    then have "get_nowait (po_q P) = None" by (simp add: get_nowait_def)
    then obtain r f where "P' = P\<lparr>po_q := po_q P, po_reader := r, po_pump := PumpPushing f False, po_line := po_line P @ []\<rparr>"
      using assms(3) by (auto simp: pump_take_def Let_def split: sum.splits prod.splits)
    with assms(1,2) show ?thesis by (simp add: playout_inv_def)
  next
    case (Cons x xs)
    then have "get_nowait (po_q P) = Some (x, (po_q P)\<lparr>items := xs\<rparr>)" by (simp add: get_nowait_def)
    then obtain r f where "P' = P\<lparr>po_q := (po_q P)\<lparr>items := xs\<rparr>, po_reader := r, po_pump := PumpPushing f True, po_line := po_line P @ [x]\<rparr>"
      using assms(3) by (auto simp: pump_take_def Let_def split: sum.splits prod.splits)
    with assms(1,2) Cons show ?thesis by (simp add: playout_inv_def)
  qed
qed

lemma mark_done_inv:
  assumes "playout_inv P" and "po_pump P = PumpPushing f h" and "mark_done h (po_q P) = Some q"
  shows "q = (po_q P)\<lparr>unfinished := length (items (po_q P))\<rparr>"
proof -
  have u: "unfinished (po_q P) = length (items (po_q P)) + (if h then 1 else 0)"
    using playout_invD(1,5) [OF assms(1)] assms(2) by simp
  show ?thesis
  proof (cases h)
    case True
    with u assms(3) show ?thesis by (simp add: mark_done_def task_done_def)
  next
    case False
    have "(po_q P)\<lparr>unfinished := length (items (po_q P))\<rparr> = po_q P" using u False by simp
    with False assms(3) show ?thesis by (simp add: mark_done_def)
  qed
qed

lemma pump_done_inv:
  assumes "playout_inv P" and "po_pump P = PumpPushing f h" and "p \<in> {PumpWaiting, PumpDone}"
  shows "playout_inv (P\<lparr>po_q := (po_q P)\<lparr>unfinished := length (items (po_q P))\<rparr>, po_pump := p\<rparr>)"
  using assms by (auto simp: playout_inv_def)

lemma playout_inv_air [simp]:
  "playout_inv (P\<lparr>po_ts := t, po_air := a\<rparr>) = playout_inv P" "playout_inv (P\<lparr>po_fadeout_ms := ms\<rparr>) = playout_inv P"
  "playout_inv (P\<lparr>po_reader := r, po_gain := g\<rparr>) = playout_inv P"
  by (simp_all add: playout_inv_def)

lemma feed_put_inv:
  assumes "playout_inv P" and "po_feed P = FeedPutting (f # fs)" and "put_nowait f (po_q P) = Some q"
  shows "playout_inv (P\<lparr>po_q := q, po_feed := FeedPutting fs, po_expect := po_expect P @ [f]\<rparr>)"
proof -
  have q: "q = (po_q P)\<lparr>items := items (po_q P) @ [f], unfinished := Suc (unfinished (po_q P))\<rparr>" "\<not> qfull (po_q P)"
    using assms(3) by (auto simp: put_nowait_def split: if_splits)
  have "length (items (po_q P)) < 300" using q(2) playout_invD(3) [OF assms(1)] by (simp add: qfull_def)
  with assms(1,2) show ?thesis unfolding q(1) by (auto simp: playout_inv_def)
qed

lemma playout_step_inv:
  assumes "playout_inv P" and "playout_step a P = Some P'"
  shows "playout_inv P'"
proof (cases a)
  case (StartFeed chunks)
  let ?S = "start_outbound_pump P"
  have idle: "po_feed P = FeedIdle" and P': "P' = ?S\<lparr>po_feed := FeedPutting (feed_puts (po_reader ?S \<noteq> None) chunks),
      po_mark := po_expect ?S, po_chunks := chunks\<rparr>"
    using assms(2) StartFeed by (auto simp: Let_def split: if_splits)
  show ?thesis
    using start_pump_inv [OF assms(1) idle] pad_frames_lengths [of "concat chunks"] unfolding P' feed_puts_frames
    by (simp add: playout_inv_def)
next
  case FeedPut
  then obtain f fs q where "po_feed P = FeedPutting (f # fs)" "put_nowait f (po_q P) = Some q"
      "P' = P\<lparr>po_q := q, po_feed := FeedPutting fs, po_expect := po_expect P @ [f]\<rparr>"
    using assms(2) by (auto split: feed_state.splits list.splits)
  then show ?thesis using feed_put_inv [OF assms(1)] by simp
next
  case FeedReturn
  with assms show ?thesis by (auto simp: playout_inv_def split: if_splits)
next
  case CancelFeed
  obtain q fs where f: "flush_playout (po_fadeout_ms P) (po_q P) = Some (q, fs)" "items q = fs"
      "unfinished q = length fs + in_flight (po_pump P) + po_lost P" "maxsize q = 300"
      "length fs \<le> length (items (po_q P))" "list_all (\<lambda>f. length f = 320) fs"
    using flush_ok [OF assms(1)] by blast
  have "P' = P\<lparr>po_q := q, po_feed := FeedIdle, po_expect := po_line P @ fs\<rparr>"
    using assms(2) CancelFeed f(1) by (auto split: if_splits)
  with assms(1) f show ?thesis by (simp add: playout_inv_def)
next
  case PumpTake
  with assms show ?thesis by (auto intro: pump_take_inv split: if_splits)
next
  case PumpPushed
  then obtain f h q where "po_pump P = PumpPushing f h" "mark_done h (po_q P) = Some q"
    "P' = P\<lparr>po_q := q, po_pump := PumpWaiting, po_ts := po_ts P + 10, po_air := po_air P @ [f]\<rparr>"
    using assms(2) by (auto split: pump.splits)
  with mark_done_inv [OF assms(1)] pump_done_inv [OF assms(1), of f h PumpWaiting] show ?thesis by simp
next
  case PumpFailed
  then obtain f h q where "po_pump P = PumpPushing f h" "mark_done h (po_q P) = Some q"
    "P' = P\<lparr>po_q := q, po_pump := PumpWaiting\<rparr>"
    using assms(2) by (auto split: pump.splits)
  with mark_done_inv [OF assms(1)] pump_done_inv [OF assms(1), of f h PumpWaiting] show ?thesis by simp
next
  case PumpNotJoined
  then obtain f h q where "po_pump P = PumpPushing f h" "mark_done h (po_q P) = Some q"
    "P' = P\<lparr>po_q := q, po_pump := PumpDone\<rparr>"
    using assms(2) by (auto split: pump.splits)
  with mark_done_inv [OF assms(1)] pump_done_inv [OF assms(1), of f h PumpDone] show ?thesis by simp
next
  case StopPump
  with assms show ?thesis
    by (cases "po_pump P") (auto simp: playout_inv_def in_flight_def split: bool.splits if_splits)
next
  case (EnableAmbient loop gain)
  then have "P' = enable_ambient loop gain P" "po_feed P = FeedIdle" using assms(2) by (auto split: if_splits)
  then show ?thesis using assms(1) start_pump_inv by (auto simp: enable_ambient_def)
next
  case (SetFadeout ms)
  with assms show ?thesis by auto
qed

interpretation playout: invariant_of "\<lambda>P. P = new_playout" playout_step playout_inv
  by unfold_locales (auto simp: new_playout_inv intro: playout_step_inv)


lemma fadeout_shape_last:
  assumes "list_all (\<lambda>f. length f = 320) fs" and "fs \<noteq> []" and "apply_fadeout fs = Inr out"
  shows "last (samples16 (last out)) = 0"
proof -
  let ?n = "sum_list (map (\<lambda>f. length f div 2) fs)"
  have e: "list_all (\<lambda>f. even (length f)) fs" using assms(1) by (auto simp: list_all_iff)
  have n: "1 < ?n" using assms(1,2) by (cases fs) auto
  have o: "map length out = map length fs" "last (concat (map samples16 out)) = 0"
    using fadeout_samples [OF e refl n refl] assms(3) by auto
  have ne: "out \<noteq> []" using o(1) assms(2) by auto
  have "length (last out) = length (last fs)" using o(1) ne assms(2) by (metis last_map)
  then have "length (last out) = 320" using assms(1,2) by (simp add: list_all_iff)
  then have "samples16 (last out) \<noteq> []" using length_samples16 [of "last out"] by auto
  moreover have "concat (map samples16 out) = concat (map samples16 (butlast out)) @ samples16 (last out)"
  proof -
    have "map samples16 out = map samples16 (butlast out) @ [samples16 (last out)]"
      using append_butlast_last_id [OF ne] by (metis list.simps(8,9) map_append)
    then show ?thesis by simp
  qed
  ultimately show ?thesis using o(2) by simp
qed

text \<open>C32. A barge-in leaves the playback consistent: cancelling never fails, the frames that stay queued are the
  first ones that were still pending, as many as the fade-out window has, ramped down to silence, the next playback
  starts from an exact counter, and what the pump will have taken is what it took plus the faded frames.\<close>

theorem barge_in_fades_out:
  assumes "reach (\<lambda>P. P = new_playout) playout_step P" and "po_feed P \<noteq> FeedIdle"
  shows "\<exists>P' fs. playout_step CancelFeed P = Some P' \<and> po_feed P' = FeedIdle
    \<and> faded (po_fadeout_ms P) (items (po_q P)) = Inr fs \<and> items (po_q P') = fs
    \<and> unfinished (po_q P') = length fs + in_flight (po_pump P) + po_lost P
    \<and> po_expect P' = po_line P @ fs
    \<and> (0 < po_fadeout_ms P \<and> items (po_q P) \<noteq> [] \<longrightarrow> last (samples16 (last fs)) = 0)"
proof -
  note i = playout.reach_inv [OF assms(1)]
  obtain q fs where f: "flush_playout (po_fadeout_ms P) (po_q P) = Some (q, fs)"
      "faded (po_fadeout_ms P) (items (po_q P)) = Inr fs" "items q = fs"
      "unfinished q = length fs + in_flight (po_pump P) + po_lost P"
    using flush_ok [OF i] by blast
  have "last (samples16 (last fs)) = 0" if w: "0 < po_fadeout_ms P \<and> items (po_q P) \<noteq> []"
  proof -
    let ?n = "nat (min (- ((- po_fadeout_ms P) div 10)) (int (length (items (po_q P)))))"
    let ?t = "take ?n (items (po_q P))"
    have ap: "apply_fadeout ?t = Inr fs" using f(2) w by (simp add: faded_def)
    have "(- po_fadeout_ms P) div 10 < 0" using w by (intro div_neg_pos_less0) simp_all
    moreover have "0 < int (length (items (po_q P)))" using w by simp
    ultimately have "0 < min (- ((- po_fadeout_ms P) div 10)) (int (length (items (po_q P))))" by simp
    then have "?n \<noteq> 0" by linarith
    then have t: "?t \<noteq> []" using w by simp
    have l: "list_all (\<lambda>f. length f = 320) ?t"
      using playout_invD(6) [OF i] by (auto simp: list_all_iff dest: in_set_takeD)
    from fadeout_shape_last [OF l t ap] show ?thesis .
  qed
  then show ?thesis using assms(2) f by auto
qed

subsection \<open>Progress\<close>

lemma pump_take_enabled:
  assumes "playout_inv P"
  shows "\<exists>P' f h. pump_take P = Some P' \<and> po_pump P' = PumpPushing f h \<and> po_feed P' = po_feed P
     \<and> items (po_q P') = tl (items (po_q P))"
proof -
  have bg: "length (fst (case po_reader P of Some r \<Rightarrow> (let (b, r') = next_frame r in (b, Some r')) | None \<Rightarrow> (SILENCE_FRAME, None))) = 320"
    using next_frame_length by (auto simp: SILENCE_FRAME_def split_beta split: option.splits)
  show ?thesis
  proof (cases "items (po_q P)")
    case Nil
    have g: "get_nowait (po_q P) = None" using Nil by (simp add: get_nowait_def)
    have "length SILENCE_FRAME = 320" by (simp add: SILENCE_FRAME_def)
    from mix_frame_ok [OF this bg, of "po_gain P"] g Nil show ?thesis by (auto simp: pump_take_def split_beta)
  next
    case (Cons x xs)
    have g: "get_nowait (po_q P) = Some (x, (po_q P)\<lparr>items := xs\<rparr>)" using Cons by (simp add: get_nowait_def)
    have "length x = 320" using playout_invD(6) [OF assms] Cons by simp
    from mix_frame_ok [OF this bg, of "po_gain P"] g Cons show ?thesis by (auto simp: pump_take_def split_beta)
  qed
qed

lemma pump_pushed_enabled:
  assumes "playout_inv P" and "po_pump P = PumpPushing f h"
  shows "\<exists>P'. playout_step PumpPushed P = Some P' \<and> po_pump P' = PumpWaiting \<and> po_feed P' = po_feed P
     \<and> items (po_q P') = items (po_q P)"
proof -
  have "h \<Longrightarrow> unfinished (po_q P) \<noteq> 0" using playout_invD(1) [OF assms(1)] assms(2) by simp
  then have "mark_done h (po_q P) \<noteq> None" by (auto simp: mark_done_def task_done_def)
  then obtain q where q: "mark_done h (po_q P) = Some q" by blast
  with assms(2) mark_done_inv [OF assms q] show ?thesis by simp
qed

lemma feeding_finishes:
  assumes "playout_inv P" and "po_pump P = PumpWaiting" and "po_feed P = FeedPutting todo"
  shows "\<exists>acts P'. set acts \<subseteq> {FeedPut, PumpTake, PumpPushed, FeedReturn} \<and> run_acts playout_step acts P = Some P'
     \<and> po_feed P' = FeedIdle"
  using assms
proof (induction "length (items (po_q P)) + 2 * length todo" arbitrary: P todo rule: less_induct)
  case less
  note i = playout_invD [OF less.prems(1)]
  show ?case
  proof (cases "items (po_q P)")
    case (Cons x xs)
    obtain P1 f h where p1: "pump_take P = Some P1" "po_pump P1 = PumpPushing f h" "po_feed P1 = po_feed P" "items (po_q P1) = xs"
      using pump_take_enabled [OF less.prems(1)] Cons by auto
    have i1: "playout_inv P1" by (rule pump_take_inv [OF less.prems(1,2) p1(1)])
    obtain P2 where p2: "playout_step PumpPushed P1 = Some P2" "po_pump P2 = PumpWaiting" "po_feed P2 = po_feed P1"
        "items (po_q P2) = items (po_q P1)"
      using pump_pushed_enabled [OF i1 p1(2)] by blast
    have i2: "playout_inv P2" by (rule playout_step_inv [OF i1 p2(1)])
    have m: "length (items (po_q P2)) + 2 * length todo < length (items (po_q P)) + 2 * length todo"
      using p2(4) p1(4) Cons by simp
    have f2: "po_feed P2 = FeedPutting todo" using p2(3) p1(3) less.prems(3) by simp
    from less.hyps [OF m i2 p2(2) f2] obtain acts P' where "set acts \<subseteq> {FeedPut, PumpTake, PumpPushed, FeedReturn}"
      "run_acts playout_step acts P2 = Some P'" "po_feed P' = FeedIdle" by blast
    then show ?thesis
      using p1(1) p2(1) less.prems(2) by (intro exI [of _ "PumpTake # PumpPushed # acts"] exI [of _ P']) simp
  next
    case Nil
    show ?thesis
    proof (cases todo)
      case Nil
      have "unfinished (po_q P) = 0" using i(1,5) less.prems(2) \<open>items (po_q P) = []\<close> by simp
      then show ?thesis using Nil less.prems(3) by (intro exI [of _ "[FeedReturn]"] exI) auto
    next
      case (Cons f fs)
      define q where "q = (po_q P)\<lparr>items := [f], unfinished := Suc (unfinished (po_q P))\<rparr>"
      define P1 where "P1 = P\<lparr>po_q := q, po_feed := FeedPutting fs, po_expect := po_expect P @ [f]\<rparr>"
      have "put_nowait f (po_q P) = Some q" using Nil i(3) by (simp add: put_nowait_def qfull_def q_def)
      then have s: "playout_step FeedPut P = Some P1" using less.prems(3) Cons by (simp add: P1_def)
      have m: "length (items (po_q P1)) + 2 * length fs < length (items (po_q P)) + 2 * length todo"
        using Cons by (simp add: P1_def q_def)
      have pw: "po_pump P1 = PumpWaiting" "po_feed P1 = FeedPutting fs" using less.prems(2) by (simp_all add: P1_def)
      from less.hyps [OF m playout_step_inv [OF less.prems(1) s] pw] obtain acts P' where
        "set acts \<subseteq> {FeedPut, PumpTake, PumpPushed, FeedReturn}"
        "run_acts playout_step acts P1 = Some P'" "po_feed P' = FeedIdle" by blast
      then show ?thesis using s by (intro exI [of _ "FeedPut # acts"] exI [of _ P']) simp
    qed
  qed
qed

text \<open>C33. While the pump runs, playback can always finish by the pump's and the feeder's own steps: from every
  reachable state in which speech is being fed there is a continuation without cancellation after which
  \<^verbatim>\<open>feed_playout\<close> has returned.\<close>

theorem playback_can_finish:
  assumes "reach (\<lambda>P. P = new_playout) playout_step P" and "po_feed P \<noteq> FeedIdle"
    and "po_pump P \<noteq> PumpNone" and "po_pump P \<noteq> PumpDone"
  shows "\<exists>acts P'. set acts \<subseteq> {FeedPut, PumpTake, PumpPushed, FeedReturn} \<and> run_acts playout_step acts P = Some P'
     \<and> po_feed P' = FeedIdle"
proof -
  note i = playout.reach_inv [OF assms(1)]
  obtain todo where t: "po_feed P = FeedPutting todo" using assms(2) by (cases "po_feed P") auto
  show ?thesis
  proof (cases "po_pump P")
    case PumpWaiting
    with feeding_finishes [OF i _ t] show ?thesis by blast
  next
    case (PumpPushing f h)
    obtain P1 where p: "playout_step PumpPushed P = Some P1" "po_pump P1 = PumpWaiting" "po_feed P1 = FeedPutting todo"
      using pump_pushed_enabled [OF i PumpPushing] t by auto
    obtain acts P' where "set acts \<subseteq> {FeedPut, PumpTake, PumpPushed, FeedReturn}" "run_acts playout_step acts P1 = Some P'"
        "po_feed P' = FeedIdle"
      using feeding_finishes [OF playout_step_inv [OF i p(1)] p(2,3)] by blast
    then show ?thesis using p(1) by (intro exI [of _ "PumpPushed # acts"] exI [of _ P']) simp
  qed (use assms in simp_all)
qed

definition stalled :: "playout \<Rightarrow> bool" where
  "stalled P \<longleftrightarrow> po_pump P \<in> {PumpNone, PumpDone} \<and> po_feed P \<noteq> FeedIdle
     \<and> (0 < unfinished (po_q P) \<or> po_feed P \<noteq> FeedPutting [])"

lemma stalled_step:
  assumes "stalled P" and "playout_step a P = Some P'" and "a \<noteq> CancelFeed"
  shows "stalled P'"
  using assms
  by (cases a) (auto simp: stalled_def put_nowait_def split: if_splits feed_state.splits list.splits pump.splits)

lemma stalled_run:
  "stalled P \<Longrightarrow> run_acts playout_step acts P = Some P' \<Longrightarrow> CancelFeed \<notin> set acts \<Longrightarrow> stalled P'"
  by (induction acts arbitrary: P) (auto split: option.splits intro: stalled_step)

text \<open>When the pump is stopped, as a remote hangup does, while speech is still queued or to be fed, playback never returns by itself: no continuation without a cancellation ends it, so the turn that
  awaits it never looks at the hangup.\<close>

theorem playback_stalls_without_pump:
  assumes "po_feed P = FeedPutting todo" and "todo \<noteq> [] \<or> 0 < unfinished (po_q P)"
    and "playout_step StopPump P = Some P1" and "run_acts playout_step acts P1 = Some P'" and "CancelFeed \<notin> set acts"
  shows "po_feed P' \<noteq> FeedIdle"
proof -
  have "stalled P1" using assms(1,2,3) by (auto simp: stalled_def split: if_splits)
  from stalled_run [OF this assms(4,5)] show ?thesis by (simp add: stalled_def)
qed

section \<open>A sample playback\<close>

definition demo_playing :: playout where
  "demo_playing = \<lparr>po_q = \<lparr>maxsize = 300, items = [[1, 2] @ replicate 318 0], unfinished = 1\<rparr>, po_pump = PumpWaiting,
     po_feed = FeedPutting [], po_reader = None, po_gain = 0, po_ts = 0, po_fadeout_ms = 100, po_air = [], po_line = [],
     po_expect = [[1, 2] @ replicate 318 0], po_lost = 0, po_mark = [], po_chunks = [[1], [2]]\<rparr>"

lemma demo_playing_run: "run_acts playout_step [StartFeed [[1], [2]], FeedPut] new_playout = Some demo_playing"
  by (simp add: feed_puts_frames pad_frames_def slice_short new_playout_def demo_playing_def start_outbound_pump_def new_queue_def
      put_nowait_def qfull_def DEFAULT_BARGE_IN_FADEOUT_MS_def Let_def)

lemma demo_playing_reach: "reach (\<lambda>P. P = new_playout) playout_step demo_playing"
  using demo_playing_run by (rule reach_run_acts [rotated]) (simp add: reach_init)

definition demo_heard :: playout where
  "demo_heard = demo_playing\<lparr>po_q := \<lparr>maxsize = 300, items = [], unfinished = 0\<rparr>, po_ts := 10,
     po_air := [[1, 2] @ replicate 318 0], po_line := [[1, 2] @ replicate 318 0]\<rparr>"

lemma demo_heard_reach: "reach (\<lambda>P. P = new_playout) playout_step demo_heard"
proof -
  have "run_acts playout_step [PumpTake, PumpPushed] demo_playing = Some demo_heard"
    by (simp add: demo_playing_def demo_heard_def pump_take_def get_nowait_def mix_frame_def mark_done_def task_done_def)
  then show ?thesis by (rule reach_run_acts [OF demo_playing_reach])
qed


theorem barge_in_fades_out_witness:
  "\<exists>P' fs. playout_step CancelFeed demo_playing = Some P' \<and> items (po_q P') = fs \<and> po_expect P' = fs
     \<and> last (samples16 (last fs)) = 0"
proof -
  have "po_feed demo_playing \<noteq> FeedIdle" by (simp add: demo_playing_def)
  from barge_in_fades_out [OF demo_playing_reach this] show ?thesis
    by (auto simp: demo_playing_def)
qed

theorem playback_can_finish_witness:
  "\<exists>acts P'. run_acts playout_step acts demo_playing = Some P' \<and> po_feed P' = FeedIdle"
  using playback_can_finish [OF demo_playing_reach] by (auto simp: demo_playing_def)

theorem playback_stalls_without_pump_witness:
  "\<exists>P1. playout_step StopPump demo_playing = Some P1 \<and> po_feed P1 \<noteq> FeedIdle"
proof -
  have s: "playout_step StopPump demo_playing = Some (demo_playing\<lparr>po_pump := PumpNone\<rparr>)"
    by (simp add: demo_playing_def)
  have "po_feed (demo_playing\<lparr>po_pump := PumpNone\<rparr>) \<noteq> FeedIdle"
    by (rule playback_stalls_without_pump [OF _ _ s, of "[]" "[]"]) (simp_all add: demo_playing_def)
  with s show ?thesis by blast
qed

end
