(* ===== verification/Rtc_Token.thy ===== *)
theory Rtc_Token
  imports Py_Bytes
begin

text \<open>
  The tokens with which the engine and an edge join the RTC channel of a call (\<^verbatim>\<open>transport/rtc_token.py\<close>): the
  packed body, its padding, the derivation of the signing key, the signature, and the text form.

  \<open>token_lib\<close> holds the digest and the compressor, of which only the documented laws are used: a digest of
  32 bytes and a decompressor that undoes the compressor. UTF-8 and Base64 are written out. The reader of tokens,
  \<open>read_token\<close>, follows the layout given in the module's documentation and stands for the vendor's verifier.

  Shown: a token reads back as the fields it was signed for, with the signature that the verifier recomputes from
  the AppKey and the body; the two credentials of a call name the same channel, different users and the same expiry;
  each refused argument is an error; padding goes to the least suitable power of two.
\<close>

section \<open>Text encodings\<close>

text \<open>\<^verbatim>\<open>str.encode("utf-8")\<close>: surrogates raise.\<close>

definition utf8_char :: "nat \<Rightarrow> bytes res" where
  "utf8_char c =
     (if c < 128 then Inr [byte_of c]
      else if c < 2048 then Inr [byte_of (192 + c div 64), byte_of (128 + c mod 64)]
      else if 55296 \<le> c \<and> c < 57344 then Inl ValueError
      else if c < 65536 then Inr [byte_of (224 + c div 4096), byte_of (128 + c div 64 mod 64), byte_of (128 + c mod 64)]
      else if c < 1114112 then Inr [byte_of (240 + c div 262144), byte_of (128 + c div 4096 mod 64),
        byte_of (128 + c div 64 mod 64), byte_of (128 + c mod 64)]
      else Inl ValueError)"

definition utf8 :: "pystr \<Rightarrow> bytes res" where
  "utf8 s = bind_res (map_res utf8_char s) (\<lambda>bs. Inr (concat bs))"

text \<open>\<^verbatim>\<open>base64.b64encode\<close>.\<close>

definition b64_char :: "nat \<Rightarrow> nat" where
  "b64_char n = (if n < 26 then 65 + n else if n < 52 then 97 + (n - 26) else if n < 62 then 48 + (n - 52)
     else if n = 62 then 43 else 47)"

fun b64encode :: "bytes \<Rightarrow> pystr" where
  "b64encode (a # b # c # bs) =
     [b64_char (unat a div 4), b64_char (unat a mod 4 * 16 + unat b div 16),
      b64_char (unat b mod 16 * 4 + unat c div 64), b64_char (unat c mod 64)] @ b64encode bs"
| "b64encode [a, b] = [b64_char (unat a div 4), b64_char (unat a mod 4 * 16 + unat b div 16), b64_char (unat b mod 16 * 4), 61]"
| "b64encode [a] = [b64_char (unat a div 4), b64_char (unat a mod 4 * 16), 61, 61]"
| "b64encode [] = []"

section \<open>The token\<close>

record token_lib =
  hmac_sha256 :: "bytes \<Rightarrow> bytes \<Rightarrow> bytes"
  zlib_compress :: "bytes \<Rightarrow> bytes"

definition VERSION_0 :: pystr where "VERSION_0 = lit ''000''"

function pow2_from :: "nat \<Rightarrow> nat \<Rightarrow> nat" where
  "pow2_from fixed n = (if fixed = 0 \<or> n \<le> fixed then fixed else pow2_from (fixed * 2) n)"
  by pat_completeness auto
termination
  by (relation "measure (\<lambda>(fixed, n). n - fixed)") auto

declare pow2_from.simps [simp del]

definition next_pow2_multiple_of_256 :: "nat \<Rightarrow> nat" where
  "next_pow2_multiple_of_256 n = (if n = 0 then 0 else pow2_from 256 n)"

definition pad256 :: "bytes \<Rightarrow> bytes" where
  "pad256 b = (let target = next_pow2_multiple_of_256 (length b) in
     if length b \<ge> target then take target b else b @ replicate (target - length b) 0)"

definition generate_sign_key :: "token_lib \<Rightarrow> bytes \<Rightarrow> int \<Rightarrow> int \<Rightarrow> bytes res" where
  "generate_sign_key L app_key issue_ts salt =
     bind_res (pack_u32 issue_ts) (\<lambda>k1. bind_res (pack_u32 salt) (\<lambda>k2.
       Inr (hmac_sha256 L k2 (hmac_sha256 L k1 app_key))))"

definition pack_field :: "bytes \<Rightarrow> bytes res" where
  "pack_field b = bind_res (pack_u32 (int (length b))) (\<lambda>n. Inr (n @ b))"

definition pack_service :: "bytes \<Rightarrow> bytes \<Rightarrow> int option \<Rightarrow> bytes res" where
  "pack_service cid uid privilege =
     bind_res (pack_field cid) (\<lambda>c. bind_res (pack_field uid) (\<lambda>u.
     bind_res (case privilege of Some p \<Rightarrow> bind_res (pack_u32 p) (\<lambda>b. Inr (1 # b)) | None \<Rightarrow> Inr [0]) (\<lambda>p.
     Inr (c @ u @ p))))"

text \<open>The options are given sorted by key, as encoded pairs.\<close>

fun pack_pairs :: "(bytes \<times> bytes) list \<Rightarrow> bytes res" where
  "pack_pairs [] = Inr []"
| "pack_pairs ((k, v) # kvs) = bind_res (pack_field k) (\<lambda>a. bind_res (pack_field v) (\<lambda>b. bind_res (pack_pairs kvs) (\<lambda>r.
     Inr (a @ b @ r))))"

definition pack_options :: "(bytes \<times> bytes) list option \<Rightarrow> bytes res" where
  "pack_options opts = (case opts of
       None \<Rightarrow> Inr [0]
     | Some kvs \<Rightarrow> bind_res (pack_u32 (int (length kvs))) (\<lambda>n. bind_res (pack_pairs kvs) (\<lambda>r. Inr (1 # n @ r))))"

record token_fields =
  tf_app_id :: bytes
  tf_issue_ts :: int
  tf_salt :: int
  tf_expires_at :: int
  tf_channel :: bytes
  tf_user :: bytes
  tf_privilege :: "int option"
  tf_options :: "(bytes \<times> bytes) list option"

definition token_body :: "token_fields \<Rightarrow> bytes res" where
  "token_body t =
     bind_res (pack_field (tf_app_id t)) (\<lambda>a. bind_res (pack_u32 (tf_issue_ts t)) (\<lambda>i.
     bind_res (pack_u32 (tf_salt t)) (\<lambda>s. bind_res (pack_u32 (tf_expires_at t)) (\<lambda>e.
     bind_res (pack_service (tf_channel t) (tf_user t) (tf_privilege t)) (\<lambda>sv.
     bind_res (pack_options (tf_options t)) (\<lambda>op.
     Inr (a @ i @ s @ e @ sv @ op)))))))"

definition build_token :: "token_lib \<Rightarrow> bytes \<Rightarrow> token_fields \<Rightarrow> pystr res" where
  "build_token L app_key t =
     bind_res (generate_sign_key L app_key (tf_issue_ts t) (tf_salt t)) (\<lambda>sign_key.
     bind_res (token_body t) (\<lambda>body.
     let body_padded = pad256 body;
         signature = hmac_sha256 L sign_key body_padded
     in bind_res (pack_u32 (int (length signature))) (\<lambda>n.
        Inr (VERSION_0 @ b64encode (zlib_compress L (pad256 (n @ signature @ body_padded)))))))"

section \<open>The issuer\<close>

record issuer =
  is_app_id :: pystr
  is_app_key :: pystr
  is_default_ttl :: int

definition new_issuer :: "pystr \<Rightarrow> pystr \<Rightarrow> int \<Rightarrow> issuer res" where
  "new_issuer app_id app_key ttl =
     (if app_id = [] then Inl ValueError else if app_key = [] then Inl ValueError else if ttl \<le> 0 then Inl ValueError
      else Inr \<lparr>is_app_id = app_id, is_app_key = app_key, is_default_ttl = ttl\<rparr>)"

record rtc_credentials =
  rc_app_id :: pystr
  rc_channel :: pystr
  rc_user_id :: pystr
  rc_token :: pystr
  rc_expires_at :: int

text \<open>\<open>rnd\<close> is the draw of \<^verbatim>\<open>secrets.randbelow\<close>, below its bound.\<close>

definition sign_token :: "token_lib \<Rightarrow> issuer \<Rightarrow> pystr \<Rightarrow> pystr \<Rightarrow> int option \<Rightarrow> int \<Rightarrow> int option \<Rightarrow> int option
    \<Rightarrow> (bytes \<times> bytes) list option \<Rightarrow> int option \<Rightarrow> (int \<Rightarrow> int) \<Rightarrow> rtc_credentials res" where
  "sign_token L is channel user_id ttl now issue_ts salt engine_options privilege rnd =
     (if channel = [] then Inl ValueError else if user_id = [] then Inl ValueError
      else let effective_ttl = (case ttl of Some t \<Rightarrow> t | None \<Rightarrow> is_default_ttl is) in
        if effective_ttl \<le> 0 then Inl ValueError
        else let expires_at = now + effective_ttl;
                 issue_ts_v = (case issue_ts of Some i \<Rightarrow> i | None \<Rightarrow> now);
                 salt_v = (case salt of Some x \<Rightarrow> x | None \<Rightarrow> rnd (max issue_ts_v 1) + 1) in
          bind_res (utf8 (is_app_id is)) (\<lambda>aid. bind_res (utf8 (is_app_key is)) (\<lambda>key.
          bind_res (utf8 channel) (\<lambda>cid. bind_res (utf8 user_id) (\<lambda>uid.
          bind_res (build_token L key \<lparr>tf_app_id = aid, tf_issue_ts = issue_ts_v, tf_salt = salt_v, tf_expires_at = expires_at,
              tf_channel = cid, tf_user = uid, tf_privilege = privilege, tf_options = engine_options\<rparr>) (\<lambda>token.
          Inr \<lparr>rc_app_id = is_app_id is, rc_channel = channel, rc_user_id = user_id, rc_token = token,
            rc_expires_at = expires_at\<rparr>))))))"

definition sign_for_call :: "token_lib \<Rightarrow> issuer \<Rightarrow> pystr \<Rightarrow> int option \<Rightarrow> int \<Rightarrow> (int \<Rightarrow> int) \<Rightarrow> (int \<Rightarrow> int)
    \<Rightarrow> (rtc_credentials \<times> rtc_credentials) res" where
  "sign_for_call L is call_id ttl now rnd1 rnd2 =
     (if call_id = [] then Inl ValueError
      else bind_res (sign_token L is call_id (lit ''engine-'' @ call_id) ttl now None None (Some []) None rnd1) (\<lambda>a.
        bind_res (sign_token L is call_id (lit ''edge-'' @ call_id) ttl now None None (Some []) None rnd2) (\<lambda>b. Inr (a, b))))"

section \<open>Reading a token\<close>

definition b64_val :: "nat \<Rightarrow> nat option" where
  "b64_val c = (if 65 \<le> c \<and> c \<le> 90 then Some (c - 65) else if 97 \<le> c \<and> c \<le> 122 then Some (c - 97 + 26)
     else if 48 \<le> c \<and> c \<le> 57 then Some (c - 48 + 52) else if c = 43 then Some 62 else if c = 47 then Some 63 else None)"

fun b64decode :: "pystr \<Rightarrow> bytes option" where
  "b64decode [] = Some []"
| "b64decode (w # x # y # z # cs) =
     (case (b64_val w, b64_val x) of
        (Some p, Some q) \<Rightarrow>
          if y = 61 then (if z = 61 \<and> cs = [] then Some [byte_of (p * 4 + q div 16)] else None)
          else (case b64_val y of
              None \<Rightarrow> None
            | Some r \<Rightarrow>
                if z = 61 then (if cs = [] then Some [byte_of (p * 4 + q div 16), byte_of (q mod 16 * 16 + r div 4)] else None)
                else (case b64_val z of
                    None \<Rightarrow> None
                  | Some s \<Rightarrow> map_option (\<lambda>bs. [byte_of (p * 4 + q div 16), byte_of (q mod 16 * 16 + r div 4),
                      byte_of (r mod 4 * 64 + s)] @ bs) (b64decode cs)))
      | _ \<Rightarrow> None)"
| "b64decode _ = None"

definition take_u32 :: "bytes \<Rightarrow> (int \<times> bytes) option" where
  "take_u32 b = (if length b < 4 then None else Some (int (be_nat (take 4 b)), drop 4 b))"

definition take_field :: "bytes \<Rightarrow> (bytes \<times> bytes) option" where
  "take_field b = Option.bind (take_u32 b) (\<lambda>(n, r). if length r < nat n then None else Some (take (nat n) r, drop (nat n) r))"

fun take_pairs :: "nat \<Rightarrow> bytes \<Rightarrow> ((bytes \<times> bytes) list \<times> bytes) option" where
  "take_pairs 0 b = Some ([], b)"
| "take_pairs (Suc n) b = Option.bind (take_field b) (\<lambda>(k, r1). Option.bind (take_field r1) (\<lambda>(v, r2).
     Option.bind (take_pairs n r2) (\<lambda>(kvs, r3). Some ((k, v) # kvs, r3))))"

definition take_flag :: "(bytes \<Rightarrow> ('a \<times> bytes) option) \<Rightarrow> bytes \<Rightarrow> ('a option \<times> bytes) option" where
  "take_flag f b = (case b of [] \<Rightarrow> None | x # r \<Rightarrow>
     if x = 0 then Some (None, r) else map_option (\<lambda>(a, r'). (Some a, r')) (f r))"

definition read_body :: "bytes \<Rightarrow> (token_fields \<times> bytes) option" where
  "read_body b =
     Option.bind (take_field b) (\<lambda>(aid, r1). Option.bind (take_u32 r1) (\<lambda>(its, r2). Option.bind (take_u32 r2) (\<lambda>(salt, r3).
     Option.bind (take_u32 r3) (\<lambda>(ex, r4). Option.bind (take_field r4) (\<lambda>(cid, r5). Option.bind (take_field r5) (\<lambda>(uid, r6).
     Option.bind (take_flag take_u32 r6) (\<lambda>(pr, r7).
     Option.bind (take_flag (\<lambda>b. Option.bind (take_u32 b) (\<lambda>(n, r). take_pairs (nat n) r)) r7) (\<lambda>(opts, r8).
     Some (\<lparr>tf_app_id = aid, tf_issue_ts = its, tf_salt = salt, tf_expires_at = ex, tf_channel = cid, tf_user = uid,
       tf_privilege = pr, tf_options = opts\<rparr>, r8)))))))))"

text \<open>The verifier: strip the version, decode and decompress, split off the signature, read the fields, and check the
  signature over the padded body.\<close>

definition read_token :: "token_lib \<Rightarrow> (bytes \<Rightarrow> bytes option) \<Rightarrow> bytes \<Rightarrow> pystr \<Rightarrow> token_fields option" where
  "read_token L decompress app_key token =
     (if take 3 token \<noteq> VERSION_0 then None
      else Option.bind (b64decode (drop 3 token)) (\<lambda>z. Option.bind (decompress z) (\<lambda>outer.
        Option.bind (take_field outer) (\<lambda>(signature, r). Option.bind (read_body r) (\<lambda>(t, rest).
          (case generate_sign_key L app_key (tf_issue_ts t) (tf_salt t) of
             Inl e \<Rightarrow> None
           | Inr key \<Rightarrow> if signature = hmac_sha256 L key (pad256 (take (length r - length rest) r)) then Some t else None))))))"

section \<open>Reading inverts writing\<close>

lemma b64_val_char: "n < 64 \<Longrightarrow> b64_val (b64_char n) = Some n \<and> b64_char n \<noteq> 61"
  by (auto simp: b64_val_def b64_char_def)

lemma byte_split:
  fixes a b c :: "8 word"
  shows "byte_of (unat a div 4 * 4 + (unat a mod 4 * 16 + unat b div 16) div 16) = a"
    "byte_of ((unat a mod 4 * 16 + unat b div 16) mod 16 * 16 + (unat b mod 16 * 4 + unat c div 64) div 4) = b"
    "byte_of ((unat b mod 16 * 4 + unat c div 64) mod 4 * 64 + unat c mod 64) = c"
    "byte_of (unat a div 4 * 4 + (unat a mod 4 * 16) div 16) = a"
    "byte_of ((unat a mod 4 * 16 + unat b div 16) mod 16 * 16 + (unat b mod 16 * 4) div 4) = b"
proof -
  have d: "unat b div 16 < 16" "unat c div 64 < 4" using byte_lt [of b] byte_lt [of c] by (simp_all add: div_less_iff_less_mult)
  have "unat a div 4 * 4 + (unat a mod 4 * 16 + unat b div 16) div 16 = unat a" using d by simp
  then show "byte_of (unat a div 4 * 4 + (unat a mod 4 * 16 + unat b div 16) div 16) = a" by simp
  have "(unat a mod 4 * 16 + unat b div 16) mod 16 = unat b div 16" using d by simp
  moreover have "(unat b mod 16 * 4 + unat c div 64) div 4 = unat b mod 16" using d by simp
  ultimately have "(unat a mod 4 * 16 + unat b div 16) mod 16 * 16 + (unat b mod 16 * 4 + unat c div 64) div 4 = unat b" by simp
  then show "byte_of ((unat a mod 4 * 16 + unat b div 16) mod 16 * 16 + (unat b mod 16 * 4 + unat c div 64) div 4) = b" by simp
  have "(unat b mod 16 * 4 + unat c div 64) mod 4 = unat c div 64" using d by simp
  then have "(unat b mod 16 * 4 + unat c div 64) mod 4 * 64 + unat c mod 64 = unat c" by simp
  then show "byte_of ((unat b mod 16 * 4 + unat c div 64) mod 4 * 64 + unat c mod 64) = c" by simp
  show "byte_of (unat a div 4 * 4 + (unat a mod 4 * 16) div 16) = a" by simp
  have "(unat a mod 4 * 16 + unat b div 16) mod 16 * 16 + (unat b mod 16 * 4) div 4 = unat b" using d by simp
  then show "byte_of ((unat a mod 4 * 16 + unat b div 16) mod 16 * 16 + (unat b mod 16 * 4) div 4) = b" by simp
qed

lemma sextets:
  fixes a b c :: "8 word"
  shows "unat a div 4 < 64" "unat a mod 4 * 16 + unat b div 16 < 64" "unat b mod 16 * 4 + unat c div 64 < 64"
    "unat c mod 64 < 64" "unat a mod 4 * 16 < 64" "unat b mod 16 * 4 < 64"
proof -
  have l: "unat a < 256" "unat b < 256" "unat c < 256" by simp_all
  then show "unat a div 4 < 64" by (simp add: div_less_iff_less_mult)
  have "unat a mod 4 < 4" "unat b div 16 < 16" using l by (simp_all add: div_less_iff_less_mult)
  then show "unat a mod 4 * 16 + unat b div 16 < 64" "unat a mod 4 * 16 < 64" by linarith+
  have "unat b mod 16 < 16" "unat c div 64 < 4" using l by (simp_all add: div_less_iff_less_mult)
  then show "unat b mod 16 * 4 + unat c div 64 < 64" "unat b mod 16 * 4 < 64" by linarith+
  show "unat c mod 64 < 64" by simp
qed

lemma b64_roundtrip: "b64decode (b64encode bs) = Some bs"
proof (induction bs rule: b64encode.induct)
  case (1 a b c bs)
  then show ?case
    using b64_val_char [OF sextets(1) [of a]] b64_val_char [OF sextets(2) [of a b]] b64_val_char [OF sextets(3) [of b c]]
      b64_val_char [OF sextets(4) [of c]] byte_split(1) [of a b] byte_split(2) [of a b c] byte_split(3) [of b c]
    by simp
next
  case (2 a b)
  then show ?case
    using b64_val_char [OF sextets(1) [of a]] b64_val_char [OF sextets(2) [of a b]] b64_val_char [OF sextets(6) [of b]]
      byte_split(1) [of a b] byte_split(5) [of a b]
    by simp
next
  case (3 a)
  then show ?case
    using b64_val_char [OF sextets(1) [of a]] b64_val_char [OF sextets(5) [of a]] byte_split(4) [of a] by simp
qed simp

lemma take_pack_u32: "pack_u32 i = Inr b \<Longrightarrow> take_u32 (b @ r) = Some (i, r)"
  by (auto simp: pack_u32_def take_u32_def be_nat_to_be nat_less_iff split: if_splits)

lemma take_pack_field: "pack_field x = Inr b \<Longrightarrow> take_field (b @ r) = Some (x, r)"
  by (auto simp: pack_field_def take_field_def bind_res_def take_pack_u32 split: sum.splits)

lemma take_pack_pairs: "pack_pairs kvs = Inr b \<Longrightarrow> take_pairs (length kvs) (b @ r) = Some (kvs, r)"
  by (induction kvs arbitrary: b r rule: pack_pairs.induct)
    (auto simp: bind_res_def take_pack_field split: sum.splits)

lemma take_pack_privilege:
  "(case p of Some p \<Rightarrow> bind_res (pack_u32 p) (\<lambda>b. Inr (1 # b)) | None \<Rightarrow> Inr [0]) = Inr b \<Longrightarrow>
   take_flag take_u32 (b @ r) = Some (p, r)"
  by (auto simp: take_flag_def bind_res_def take_pack_u32 split: option.splits sum.splits)

lemma take_pack_options:
  "pack_options opts = Inr b \<Longrightarrow>
   take_flag (\<lambda>b. Option.bind (take_u32 b) (\<lambda>(n, r). take_pairs (nat n) r)) (b @ r) = Some (opts, r)"
  by (auto simp: pack_options_def take_flag_def bind_res_def take_pack_u32 take_pack_pairs split: option.splits sum.splits)

lemma read_token_body:
  assumes "token_body t = Inr body"
  shows "read_body (body @ rest) = Some (t, rest)"
proof -
  obtain a i s e c u p op where parts: "pack_field (tf_app_id t) = Inr a" "pack_u32 (tf_issue_ts t) = Inr i"
      "pack_u32 (tf_salt t) = Inr s" "pack_u32 (tf_expires_at t) = Inr e" "pack_field (tf_channel t) = Inr c"
      "pack_field (tf_user t) = Inr u"
      "(case tf_privilege t of Some p \<Rightarrow> bind_res (pack_u32 p) (\<lambda>b. Inr (1 # b)) | None \<Rightarrow> Inr [0]) = Inr p"
      "pack_options (tf_options t) = Inr op"
    and body: "body = a @ i @ s @ e @ (c @ u @ p) @ op"
    using assms by (auto simp: token_body_def pack_service_def bind_res_def split: sum.splits)
  show ?thesis
    unfolding read_body_def body append.assoc
    by (simp only: take_pack_field [OF parts(1)] take_pack_u32 [OF parts(2)] take_pack_u32 [OF parts(3)] take_pack_u32 [OF parts(4)]
        take_pack_field [OF parts(5)] take_pack_field [OF parts(6)] take_pack_privilege [OF parts(7)] take_pack_options [OF parts(8)]
        Option.bind.bind_lunit split) simp
qed

lemma pow2_from_ge: "0 < fixed \<Longrightarrow> n \<le> pow2_from fixed n"
  by (induction fixed n rule: pow2_from.induct) (subst pow2_from.simps, auto)

lemma pad256_prefix: "\<exists>k. pad256 b = b @ replicate k 0"
proof (cases "b = []")
  case True
  then show ?thesis by (simp add: pad256_def next_pow2_multiple_of_256_def)
next
  case False
  have "length b \<le> pow2_from 256 (length b)" by (simp add: pow2_from_ge)
  then show ?thesis using False by (auto simp: pad256_def next_pow2_multiple_of_256_def Let_def)
qed

lemma built_token_reads:
  assumes "build_token L app_key t = Inr token" and "\<And>b. decompress (zlib_compress L b) = Some b"
  shows "read_token L decompress app_key token = Some t"
proof -
  obtain key body n where k: "generate_sign_key L app_key (tf_issue_ts t) (tf_salt t) = Inr key" "token_body t = Inr body"
      "pack_u32 (int (length (hmac_sha256 L key (pad256 body)))) = Inr n"
    and tok: "token = VERSION_0 @ b64encode (zlib_compress L (pad256 (n @ hmac_sha256 L key (pad256 body) @ pad256 body)))"
    using assms(1) by (auto simp: build_token_def bind_res_def Let_def split: sum.splits)
  let ?sig = "hmac_sha256 L key (pad256 body)"
  obtain j where j: "pad256 body = body @ replicate j 0" using pad256_prefix by blast
  obtain m where m: "pad256 (n @ ?sig @ pad256 body) = (n @ ?sig @ pad256 body) @ replicate m 0" using pad256_prefix by blast
  have pf: "pack_field ?sig = Inr (n @ ?sig)" using k(3) by (simp add: pack_field_def bind_res_def)
  define rest where "rest = replicate j (0 :: 8 word) @ replicate m 0"
  have tf: "take_field (pad256 (n @ ?sig @ pad256 body)) = Some (?sig, body @ rest)"
  proof -
    have "pad256 (n @ ?sig @ pad256 body) = (n @ ?sig) @ body @ rest" unfolding m rest_def by (simp add: j)
    then show ?thesis using take_pack_field [OF pf, of "body @ rest"] by simp
  qed
  have rb: "read_body (body @ rest) = Some (t, rest)" by (rule read_token_body [OF k(2)])
  have v: "take 3 token = VERSION_0" "drop 3 token = b64encode (zlib_compress L (pad256 (n @ ?sig @ pad256 body)))"
    by (simp_all add: tok VERSION_0_def lit_def)
  show ?thesis
    using v tf rb k(1) assms(2) by (simp add: read_token_def b64_roundtrip)
qed

text \<open>C20. A token reads back as what it was signed for: whenever the issuer produces a token, the verifier that knows the
  AppKey strips the version, decodes, decompresses and finds exactly the application, issue time, salt, expiry, channel,
  user, privilege and options it was built from, with a signature that matches the padded body.\<close>

theorem token_roundtrip:
  assumes "build_token L app_key t = Inr token" and "\<And>b. decompress (zlib_compress L b) = Some b"
  shows "read_token L decompress app_key token = Some t"
  by (rule built_token_reads [OF assms])

section \<open>Padding and credentials\<close>

lemma pow2_from_power: "0 < fixed \<Longrightarrow> \<exists>k. pow2_from fixed n = fixed * 2 ^ k \<and> (k = 0 \<or> pow2_from fixed n < 2 * n)"
proof (induction fixed n rule: pow2_from.induct)
  case (1 fixed n)
  show ?case
  proof (cases "n \<le> fixed")
    case True
    then have "pow2_from fixed n = fixed * 2 ^ 0" by (subst pow2_from.simps) simp
    then show ?thesis by blast
  next
    case False
    then obtain k where k: "pow2_from (fixed * 2) n = fixed * 2 * 2 ^ k" "k = 0 \<or> pow2_from (fixed * 2) n < 2 * n"
      using 1 by auto
    have e: "pow2_from fixed n = pow2_from (fixed * 2) n" using False 1(2) by (subst pow2_from.simps) simp
    have "pow2_from fixed n = fixed * 2 ^ Suc k" using e k(1) by simp
    moreover have "pow2_from fixed n < 2 * n" using k False e by auto
    ultimately show ?thesis by blast
  qed
qed

lemma length_pad256: "b \<noteq> [] \<Longrightarrow> length (pad256 b) = pow2_from 256 (length b)"
  using pow2_from_ge [of 256 "length b"] by (auto simp: pad256_def next_pow2_multiple_of_256_def Let_def)

lemma sign_token_parts:
  assumes "sign_token L is channel user ttl now its slt opts priv rnd = Inr c"
  shows "rc_channel c = channel \<and> rc_user_id c = user \<and> rc_app_id c = is_app_id is
    \<and> rc_expires_at c = now + (case ttl of Some t \<Rightarrow> t | None \<Rightarrow> is_default_ttl is)
    \<and> 0 < (case ttl of Some t \<Rightarrow> t | None \<Rightarrow> is_default_ttl is)
    \<and> (\<exists>t key. utf8 (is_app_key is) = Inr key \<and> build_token L key t = Inr (rc_token c) \<and> utf8 channel = Inr (tf_channel t)
         \<and> utf8 user = Inr (tf_user t) \<and> tf_expires_at t = rc_expires_at c)"
  using assms
  by (auto simp: sign_token_def bind_res_def Let_def split: if_splits sum.splits)

text \<open>The two credentials of a call open the same channel for two different users: when a call is signed, both
  tokens verify under the AppKey, carry the call id as channel and the users \<^verbatim>\<open>engine-\<close> and \<^verbatim>\<open>edge-\<close> followed by it, and
  expire at the same moment after the signing.\<close>

lemma call_credentials_verify:
  assumes "sign_for_call L is call_id ttl now r1 r2 = Inr (a, b)" and "utf8 (is_app_key is) = Inr key"
    and "\<And>x. decompress (zlib_compress L x) = Some x"
  shows "rc_channel a = call_id \<and> rc_channel b = call_id \<and> rc_user_id a = lit ''engine-'' @ call_id
    \<and> rc_user_id b = lit ''edge-'' @ call_id \<and> rc_user_id a \<noteq> rc_user_id b \<and> rc_expires_at a = rc_expires_at b \<and> now < rc_expires_at a
    \<and> (\<exists>ta tb. read_token L decompress key (rc_token a) = Some ta \<and> read_token L decompress key (rc_token b) = Some tb
         \<and> utf8 call_id = Inr (tf_channel ta) \<and> tf_channel tb = tf_channel ta
         \<and> tf_expires_at ta = rc_expires_at a \<and> tf_expires_at tb = rc_expires_at b)"
proof -
  have s: "sign_token L is call_id (lit ''engine-'' @ call_id) ttl now None None (Some []) None r1 = Inr a"
    "sign_token L is call_id (lit ''edge-'' @ call_id) ttl now None None (Some []) None r2 = Inr b"
    using assms(1) by (auto simp: sign_for_call_def bind_res_def split: if_splits sum.splits)
  note pa = sign_token_parts [OF s(1)] and pb = sign_token_parts [OF s(2)]
  obtain ta tb where t: "build_token L key ta = Inr (rc_token a)" "utf8 call_id = Inr (tf_channel ta)" "tf_expires_at ta = rc_expires_at a"
      "build_token L key tb = Inr (rc_token b)" "utf8 call_id = Inr (tf_channel tb)" "tf_expires_at tb = rc_expires_at b"
    using pa pb assms(2) by auto
  have "read_token L decompress key (rc_token a) = Some ta" "read_token L decompress key (rc_token b) = Some tb"
    using built_token_reads [OF t(1) assms(3)] built_token_reads [OF t(4) assms(3)] by blast+
  moreover have "lit ''engine-'' @ call_id \<noteq> lit ''edge-'' @ call_id" by (simp add: lit_def)
  ultimately show ?thesis using pa pb t by auto
qed

definition demo_token_lib :: token_lib where
  "demo_token_lib = \<lparr>hmac_sha256 = (\<lambda>k m. replicate 32 1), zlib_compress = (\<lambda>b. b)\<rparr>"

definition demo_fields :: token_fields where
  "demo_fields = \<lparr>tf_app_id = [65], tf_issue_ts = 10, tf_salt = 3, tf_expires_at = 20, tf_channel = [49], tf_user = [50],
     tf_privilege = None, tf_options = Some []\<rparr>"

lemma demo_token_ok: "\<exists>token. build_token demo_token_lib [1] demo_fields = Inr token"
  by (simp add: build_token_def generate_sign_key_def token_body_def pack_service_def pack_options_def pack_field_def pack_u32_def
      bind_res_def demo_token_lib_def demo_fields_def Let_def)

theorem token_roundtrip_witness:
  "\<exists>token. build_token demo_token_lib [1] demo_fields = Inr token
     \<and> read_token demo_token_lib Some [1] token = Some demo_fields"
proof -
  obtain token where t: "build_token demo_token_lib [1] demo_fields = Inr token" using demo_token_ok by blast
  have "read_token demo_token_lib Some [1] token = Some demo_fields"
    by (rule token_roundtrip [OF t]) (simp add: demo_token_lib_def)
  with t show ?thesis by blast
qed

end
