(* ===== verification/Rtc_Telephony.thy ===== *)
theory Rtc_Telephony
  imports Telephony Edge_Transport Rtc_Media Rtc_Token
begin

text \<open>
  Calls over the edge (\<^verbatim>\<open>realtime/rtc_telephony.py\<close>, the class \<^verbatim>\<open>RtcTelephonyClient\<close> and the event
  side of \<^verbatim>\<open>_CallState\<close>): dialling, hanging up, the handlers of call events and dial acknowledgements, and the
  closing of a call's iterators, on top of the server of \<open>Edge_Transport\<close>, the playback of \<open>Rtc_Media\<close> and the credentials of
  \<open>Rtc_Token\<close>.

  \<open>cs_events\<close> is everything put on a call's event queue, in order; its consumer sees it up to the first sentinel.
  \<open>rt_joined\<close> lists the channels whose RTC session is joined. A command that does not fit the edge's queue makes
  its sender wait; \<open>DialTimeout\<close> and \<open>HangupResume\<close> continue a call that waited. Leaving a channel and ending its pumps
  are taken as done at once. \<open>client_step\<close> interleaves the engine's calls, the messages of the edges, the other steps of the server and
  the steps of each call's playback.

  Shown: the table of calls and the dispatcher's registry always agree, so events of a dialled call reach it and those of a
  purged call do not; each call's consumer sees connects and then, once the call is closed, exactly one final event;
  a dial without an edge leaves its RTC session joined for good; a remote hangup during playback leaves the playback waiting.
\<close>

section \<open>State\<close>

record call_state =
  cs_sid :: pystr
  cs_edge_uid :: pystr
  cs_device_id :: int
  cs_edge_device_id :: pystr
  cs_events :: "event_item list"
  cs_closed :: bool
  cs_inbound :: bool
  cs_playout :: playout

record rtc_client =
  rt_legacy_edge :: pystr
  rt_calls :: "int \<rightharpoonup> call_state"
  rt_pending :: "int \<rightharpoonup> int"
  rt_server :: edge_server
  rt_joined :: "pystr list"
  rt_purged :: "int \<Rightarrow> event_item list"

definition EdgeNotConnected :: pyerr where "EdgeNotConnected = OtherErr (lit ''EdgeNotConnected'')"

definition new_call_state :: "pystr \<Rightarrow> pystr \<Rightarrow> int \<Rightarrow> pystr \<Rightarrow> call_state" where
  "new_call_state sid edge_uid dev edge = \<lparr>cs_sid = sid, cs_edge_uid = edge_uid, cs_device_id = dev, cs_edge_device_id = edge,
     cs_events = [], cs_closed = False, cs_inbound = True, cs_playout = new_playout\<rparr>"

section \<open>Events of a call\<close>

text \<open>\<open>codes\<close> are the numbers of the protocol's hangup causes in the order of the table.\<close>

definition HANGUP_CAUSE_DETAIL :: "int list \<Rightarrow> int \<Rightarrow> pystr" where
  "HANGUP_CAUSE_DETAIL codes cause = (case map_of (rev (zip codes
       [lit ''unspecified'', lit ''no_answer'', lit ''user_busy'', lit ''network_out_of_order'', lit ''normal_clearing'',
        lit ''call_rejected''])) cause of Some d \<Rightarrow> d | None \<Rightarrow> lit ''unspecified'')"

definition put_event :: "telephony_event \<Rightarrow> call_state \<Rightarrow> call_state" where
  "put_event e cs = cs\<lparr>cs_events := cs_events cs @ [TelEvent e]\<rparr>"

definition stop_pump :: "playout \<Rightarrow> playout" where
  "stop_pump P = (case playout_step StopPump P of Some P' \<Rightarrow> P' | None \<Rightarrow> P)"

definition close_iterators :: "call_state \<Rightarrow> call_state" where
  "close_iterators cs = (if cs_closed cs then cs
     else cs\<lparr>cs_closed := True, cs_events := cs_events cs @ [TelSentinel], cs_playout := stop_pump (cs_playout cs), cs_inbound := False\<rparr>)"

definition on_call_event :: "int list \<Rightarrow> call_event_kind \<Rightarrow> call_state \<Rightarrow> call_state" where
  "on_call_event codes kind cs = (case kind of
       call_event_kind.Connected \<Rightarrow> put_event TelConnected cs
     | RemoteHangup cause \<Rightarrow> close_iterators (put_event (TelRemoteHangup (Some (HANGUP_CAUSE_DETAIL codes cause))) cs)
     | DeviceError code \<Rightarrow> close_iterators (put_event (TelDeviceError code) cs)
     | Ringing \<Rightarrow> cs | UserSpeakingStarted \<Rightarrow> cs | UserSpeakingStopped \<Rightarrow> cs
     | UnknownKind \<Rightarrow> cs)"

definition on_dial_ack :: "bool \<Rightarrow> pystr \<Rightarrow> call_state \<Rightarrow> call_state" where
  "on_dial_ack acc why cs = (if acc then cs
     else close_iterators (put_event (TelRemoteHangup (Some (if why = [] then lit ''dial_rejected'' else why))) cs))"

section \<open>The client\<close>

text \<open>Whether a sender finds the stream open but its queue full, and so waits for a place or the timeout.\<close>

definition send_waits :: "pystr \<Rightarrow> cloud2edge \<Rightarrow> edge_server \<Rightarrow> bool" where
  "send_waits edge m S = (case bound S edge of
       None \<Rightarrow> False
     | Some k \<Rightarrow> \<not> ss_closed (streams S ! k) \<and> put_frame m (streams S ! k) = None)"

definition set_device_for_session :: "int \<Rightarrow> int \<Rightarrow> rtc_client \<Rightarrow> rtc_client" where
  "set_device_for_session call dev C = C\<lparr>rt_pending := (rt_pending C)(call \<mapsto> dev)\<rparr>"

definition leave_channel :: "pystr \<Rightarrow> rtc_client \<Rightarrow> rtc_client" where
  "leave_channel sid C = C\<lparr>rt_joined := removeAll sid (rt_joined C)\<rparr>"

definition purge_call :: "int \<Rightarrow> rtc_client \<Rightarrow> rtc_client" where
  "purge_call call C = (case rt_calls C call of
       None \<Rightarrow> C
     | Some cs \<Rightarrow> C\<lparr>rt_calls := (rt_calls C)(call := None), rt_purged := (rt_purged C)(call := cs_events cs),
         rt_server := (rt_server C)\<lparr>registry := disp_deregister (cs_sid cs) (registry (rt_server C))\<rparr>\<rparr>)"

definition close_call :: "int \<Rightarrow> call_state \<Rightarrow> rtc_client \<Rightarrow> rtc_client" where
  "close_call call cs C = leave_channel (cs_sid cs) (C\<lparr>rt_calls := (rt_calls C)(call \<mapsto> close_iterators cs)\<rparr>)"

definition target_edge :: "int \<Rightarrow> rtc_client \<Rightarrow> pystr option" where
  "target_edge dev C = (if rt_legacy_edge C \<noteq> [] then Some (rt_legacy_edge C) else resolve_edge_for_device dev (rt_server C))"

definition dial_cmd :: "pystr \<Rightarrow> int \<Rightarrow> pystr \<Rightarrow> rtc_credentials \<Rightarrow> rtc_credentials \<Rightarrow> cloud2edge" where
  "dial_cmd sid dev phone engine_creds edge_creds = DialCommand \<lparr>dc_call_id = sid, dc_device_id = dev, dc_number = phone,
     dc_rtc_channel = sid, dc_rtc_token = rc_token edge_creds, dc_uid_edge = rc_user_id edge_creds,
     dc_uid_engine = rc_user_id engine_creds\<rparr>"

text \<open>Unwinding a dial whose command could not be sent.\<close>

definition dial_unwind :: "int \<Rightarrow> rtc_client \<Rightarrow> rtc_client" where
  "dial_unwind call C = (case rt_calls C call of
       None \<Rightarrow> C
     | Some cs \<Rightarrow> purge_call call (close_call call (put_event (TelDeviceError (lit ''edge_disconnected'')) cs) C))"

text \<open>From the resolved edge on: enter the call, bind it, send the command. The result None is a sender that waits.\<close>

definition dial_edge :: "int \<Rightarrow> pystr \<Rightarrow> rtc_credentials \<Rightarrow> rtc_credentials \<Rightarrow> int \<Rightarrow> pystr \<Rightarrow> rtc_client
    \<Rightarrow> unit res option \<times> rtc_client" where
  "dial_edge call phone engine_creds edge_creds dev edge C =
     (let sid = show_int call;
          C1 = C\<lparr>rt_calls := (rt_calls C)(call \<mapsto> new_call_state sid (rc_user_id edge_creds) dev edge)\<rparr>
      in case disp_register sid edge True (registry (rt_server C1)) of
           Inl e \<Rightarrow> (Some (Inl e), C1)
         | Inr d \<Rightarrow>
             (let C2 = C1\<lparr>rt_server := (rt_server C1)\<lparr>registry := d\<rparr>\<rparr>;
                  m = dial_cmd sid dev phone engine_creds edge_creds
              in case send_to_edge edge m (rt_server C2) of
                   None \<Rightarrow> (Some (Inl EdgeNotConnected), dial_unwind call C2)
                 | Some S \<Rightarrow> (if send_waits edge m (rt_server C2) then None else Some (Inr ()), C2\<lparr>rt_server := S\<rparr>)))"

text \<open>\<open>join_error\<close> is what joining the channel raises, if anything; \<open>now\<close>, \<open>rnd1\<close> and \<open>rnd2\<close> are the clock and the draws
  for the two tokens.\<close>

definition dial :: "token_lib \<Rightarrow> issuer \<Rightarrow> int \<Rightarrow> (int \<Rightarrow> int) \<Rightarrow> (int \<Rightarrow> int) \<Rightarrow> pyerr option \<Rightarrow> int \<Rightarrow> pystr \<Rightarrow> rtc_client
    \<Rightarrow> unit res option \<times> rtc_client" where
  "dial L is now rnd1 rnd2 join_error call phone C =
     (if rt_calls C call \<noteq> None then (Some (Inl RuntimeError), C)
      else case sign_for_call L is (show_int call) None now rnd1 rnd2 of
        Inl e \<Rightarrow> (Some (Inl e), C)
      | Inr (engine_creds, edge_creds) \<Rightarrow>
          (case join_error of
             Some e \<Rightarrow> (Some (Inl e), C)
           | None \<Rightarrow>
               (let dev = (case rt_pending C call of Some d \<Rightarrow> d | None \<Rightarrow> 0);
                    C1 = C\<lparr>rt_joined := rt_joined C @ [show_int call], rt_pending := (rt_pending C)(call := None)\<rparr>
                in case target_edge dev C1 of
                     None \<Rightarrow> (Some (Inl EdgeNotConnected), C1)
                   | Some edge \<Rightarrow> dial_edge call phone engine_creds edge_creds dev edge C1)))"

text \<open>Hanging up; the flag says whether it waits for the cancel command to be taken.\<close>

definition hangup_finish :: "int \<Rightarrow> rtc_client \<Rightarrow> rtc_client" where
  "hangup_finish call C = (case rt_calls C call of
       None \<Rightarrow> C
     | Some cs \<Rightarrow> purge_call call (close_call call (put_event TelLocalHangup cs) C))"

definition hangup :: "int \<Rightarrow> rtc_client \<Rightarrow> bool \<times> rtc_client" where
  "hangup call C = (case rt_calls C call of
       None \<Rightarrow> (False, C)
     | Some cs \<Rightarrow>
         (let m = CancelCommand (cs_sid cs) (lit ''local hangup'')
          in case send_to_edge (cs_edge_device_id cs) m (rt_server C) of
               None \<Rightarrow> (False, hangup_finish call C)
             | Some S \<Rightarrow> if send_waits (cs_edge_device_id cs) m (rt_server C) then (True, C\<lparr>rt_server := S\<rparr>)
                 else (False, hangup_finish call (C\<lparr>rt_server := S\<rparr>))))"

definition require_state :: "int \<Rightarrow> rtc_client \<Rightarrow> call_state res" where
  "require_state call C = (case rt_calls C call of None \<Rightarrow> Inl RuntimeError | Some cs \<Rightarrow> Inr cs)"

text \<open>What a consumer of an iterator sees.\<close>

definition call_events :: "int \<Rightarrow> rtc_client \<Rightarrow> event_item list res" where
  "call_events call C = bind_res (require_state call C) (\<lambda>cs. Inr (yielded (cs_events cs)))"

definition set_barge_in_fadeout :: "int \<Rightarrow> int \<Rightarrow> rtc_client \<Rightarrow> rtc_client" where
  "set_barge_in_fadeout call ms C = (case rt_calls C call of
       None \<Rightarrow> C
     | Some cs \<Rightarrow> C\<lparr>rt_calls := (rt_calls C)(call \<mapsto> cs\<lparr>cs_playout := (cs_playout cs)\<lparr>po_fadeout_ms := ms\<rparr>\<rparr>)\<rparr>)"

definition configure_ambient :: "(pystr \<Rightarrow> bytes option) \<Rightarrow> int \<Rightarrow> pystr option \<Rightarrow> rat \<Rightarrow> rtc_client \<Rightarrow> rtc_client" where
  "configure_ambient loops call asset gain C = (case rt_calls C call of
       None \<Rightarrow> C
     | Some cs \<Rightarrow>
         (let P = start_outbound_pump (cs_playout cs);
              P' = (case asset of
                  None \<Rightarrow> P
                | Some a \<Rightarrow> if a = [] then P else (case loops a of None \<Rightarrow> P | Some l \<Rightarrow> enable_ambient l gain P))
          in C\<lparr>rt_calls := (rt_calls C)(call \<mapsto> cs\<lparr>cs_playout := P'\<rparr>)\<rparr>))"

text \<open>The callback that a delivery of the dispatcher invokes.\<close>

definition leave_if_closed :: "call_state \<Rightarrow> call_state \<Rightarrow> rtc_client \<Rightarrow> rtc_client" where
  "leave_if_closed cs cs' C = (if cs_closed cs' \<and> \<not> cs_closed cs then leave_channel (cs_sid cs) C else C)"

definition update_call :: "int \<Rightarrow> (call_state \<Rightarrow> call_state) \<Rightarrow> rtc_client \<Rightarrow> rtc_client" where
  "update_call call f C = (case rt_calls C call of
       None \<Rightarrow> C
     | Some cs \<Rightarrow> leave_if_closed cs (f cs) (C\<lparr>rt_calls := (rt_calls C)(call \<mapsto> f cs)\<rparr>))"

definition edge_message :: "int list \<Rightarrow> nat \<Rightarrow> int \<Rightarrow> edge2cloud \<Rightarrow> rtc_client \<Rightarrow> rtc_client" where
  "edge_message codes k call msg C =
     (let edge = ss_edge (streams (rt_server C) ! k);
          C1 = C\<lparr>rt_server := read_message k msg (rt_server C)\<rparr>
      in case handle_edge_message edge msg (registry (rt_server C)) of
           Some (ToCallEvent sid kind) \<Rightarrow> if sid = show_int call then update_call call (on_call_event codes kind) C1 else C1
         | Some (ToDialAck sid acc why) \<Rightarrow> if sid = show_int call then update_call call (on_dial_ack acc why) C1 else C1
         | _ \<Rightarrow> C1)"

datatype rtc_act = SetDevice int int | Dial int pystr "pyerr option" int "int \<Rightarrow> int" "int \<Rightarrow> int" | DialTimeout int nat nat | Hangup int
  | HangupResume int | EdgeMessage nat int edge2cloud | Server server_act | Play int playout_act
  | Fadeout int int | Ambient int "pystr option" rat

definition names_call :: "int \<Rightarrow> edge2cloud \<Rightarrow> bool" where
  "names_call call msg = (case msg of
       ECallEvent sid k \<Rightarrow> sid = show_int call | EDialAck sid acc why \<Rightarrow> sid = show_int call | _ \<Rightarrow> True)"

definition with_server :: "edge_server option \<Rightarrow> rtc_client \<Rightarrow> rtc_client option" where
  "with_server r C = map_option (\<lambda>S. C\<lparr>rt_server := S\<rparr>) r"

text \<open>The surroundings of the client: the token library and issuer, the codes of hangup causes and the ambient loops.\<close>

record rtc_env =
  re_lib :: token_lib
  re_issuer :: issuer
  re_causes :: "int list"
  re_loops :: "pystr \<Rightarrow> bytes option"

fun rtc_step :: "rtc_env \<Rightarrow> rtc_act \<Rightarrow> rtc_client \<Rightarrow> rtc_client option" where
  "rtc_step E (SetDevice call dev) C = Some (set_device_for_session call dev C)"
| "rtc_step E (Dial call phone err now rnd1 rnd2) C =
     Some (snd (dial (re_lib E) (re_issuer E) now rnd1 rnd2 err call phone C))"
| "rtc_step E (DialTimeout call k i) C = map_option (dial_unwind call) (with_server (server_step (SendTimeout k i) (rt_server C)) C)"
| "rtc_step E (Hangup call) C = Some (snd (hangup call C))"
| "rtc_step E (HangupResume call) C = Some (hangup_finish call C)"
| "rtc_step E (EdgeMessage k call msg) C =
     (if live k (rt_server C) \<and> names_call call msg then Some (edge_message (re_causes E) k call msg C) else None)"
| "rtc_step E (Server a) C = (case a of
       Read k m \<Rightarrow> None | Bind c e ack \<Rightarrow> None | Unbind c \<Rightarrow> None
     | _ \<Rightarrow> with_server (server_step a (rt_server C)) C)"
| "rtc_step E (Play call a) C = (case rt_calls C call of
       None \<Rightarrow> None
     | Some cs \<Rightarrow> map_option (\<lambda>P. C\<lparr>rt_calls := (rt_calls C)(call \<mapsto> cs\<lparr>cs_playout := P\<rparr>)\<rparr>) (playout_step a (cs_playout cs)))"
| "rtc_step E (Fadeout call ms) C = Some (set_barge_in_fadeout call ms C)"
| "rtc_step E (Ambient call asset gain) C = Some (configure_ambient (re_loops E) call asset gain C)"

definition new_client :: "pystr \<Rightarrow> rtc_client" where
  "new_client legacy = \<lparr>rt_legacy_edge = legacy, rt_calls = Map.empty, rt_pending = Map.empty, rt_server = new_server new_dispatcher,
     rt_joined = [], rt_purged = (\<lambda>_. [])\<rparr>"

section \<open>Events of one call\<close>

definition call_ok :: "int \<Rightarrow> call_state \<Rightarrow> bool" where
  "call_ok call cs \<longleftrightarrow> cs_sid cs = show_int call \<and> cs_closed cs = stream_ended (cs_events cs)"

lemma put_event_fields [simp]:
  "cs_sid (put_event e cs) = cs_sid cs" "cs_edge_device_id (put_event e cs) = cs_edge_device_id cs"
  "cs_closed (put_event e cs) = cs_closed cs"
  by (simp_all add: put_event_def)

lemma close_iterators_fields [simp]:
  "cs_sid (close_iterators cs) = cs_sid cs" "cs_edge_device_id (close_iterators cs) = cs_edge_device_id cs"
  "cs_closed (close_iterators cs)"
  by (simp_all add: close_iterators_def)

lemma connected_ok: "call_ok call cs \<Longrightarrow> call_ok call (put_event TelConnected cs)"
  by (simp add: call_ok_def put_event_def)

lemma final_ok: "call_ok call cs \<Longrightarrow> call_ok call (close_iterators (put_event t cs))"
  by (simp add: call_ok_def put_event_def close_iterators_def)

text \<open>What a handler appends to the queue.\<close>

lemma final_emits:
  assumes "call_ok call cs" and "final_event t"
  shows "emits (cs_events cs) (cs_events (close_iterators (put_event t cs)))"
  using assms by (auto simp: call_ok_def put_event_def close_iterators_def emits_def grows_def)

lemma connected_emits: "emits (cs_events cs) (cs_events (put_event TelConnected cs))"
  by (simp add: put_event_def emits_def grows_def)

lemma on_call_event_emits: "call_ok call cs \<Longrightarrow> emits (cs_events cs) (cs_events (on_call_event codes kind cs))"
  by (cases kind) (auto simp: on_call_event_def final_emits connected_emits final_event_def)

lemma on_dial_ack_emits: "call_ok call cs \<Longrightarrow> emits (cs_events cs) (cs_events (on_dial_ack acc why cs))"
  by (auto simp: on_dial_ack_def final_emits final_event_def)

lemma on_call_event_ok: "call_ok call cs \<Longrightarrow> call_ok call (on_call_event codes kind cs)"
  by (cases kind) (auto simp: on_call_event_def connected_ok final_ok)

lemma on_dial_ack_ok: "call_ok call cs \<Longrightarrow> call_ok call (on_dial_ack acc why cs)"
  by (auto simp: on_dial_ack_def final_ok)

lemma handlers_keep_edge [simp]:
  "cs_edge_device_id (on_call_event codes kind cs) = cs_edge_device_id cs"
  "cs_edge_device_id (on_dial_ack acc why cs) = cs_edge_device_id cs"
  by (auto simp: on_call_event_def on_dial_ack_def split: call_event_kind.split)

lemma new_call_ok [simp]: "call_ok call (new_call_state (show_int call) uid dev edge)"
  by (simp add: call_ok_def new_call_state_def)

lemma playout_ok: "call_ok call cs \<Longrightarrow> call_ok call (cs\<lparr>cs_playout := P\<rparr>)"
  by (simp add: call_ok_def)

section \<open>Calls and bindings\<close>

definition entry_of :: "call_state \<Rightarrow> session_entry" where
  "entry_of cs = \<lparr>entry_edge = cs_edge_device_id cs, entry_dial_ack = True\<rparr>"

definition client_inv :: "rtc_client \<Rightarrow> bool" where
  "client_inv C \<longleftrightarrow> (\<forall>call. bindings (registry (rt_server C)) (show_int call) = map_option entry_of (rt_calls C call))
     \<and> (\<forall>call cs. rt_calls C call = Some cs \<longrightarrow> call_ok call cs)"

lemma new_client_inv: "client_inv (new_client legacy)"
  by (simp add: client_inv_def new_client_def new_server_def new_dispatcher_def)

lemma client_inv_call: "client_inv C \<Longrightarrow> rt_calls C call = Some cs \<Longrightarrow> call_ok call cs"
  by (simp add: client_inv_def)

lemma client_inv_other [simp]:
  "client_inv (leave_channel sid C) = client_inv C" "client_inv (C\<lparr>rt_pending := p\<rparr>) = client_inv C"
  "client_inv (C\<lparr>rt_joined := js\<rparr>) = client_inv C" "client_inv (leave_if_closed cs cs' C) = client_inv C"
  by (simp_all add: client_inv_def leave_channel_def leave_if_closed_def)

lemma client_inv_server:
  "client_inv C \<Longrightarrow> registry S = registry (rt_server C) \<Longrightarrow> client_inv (C\<lparr>rt_server := S\<rparr>)"
  by (simp add: client_inv_def)

lemma client_inv_update:
  assumes "client_inv C" and "rt_calls C call = Some cs" and "cs_edge_device_id cs' = cs_edge_device_id cs" and "call_ok call cs'"
  shows "client_inv (C\<lparr>rt_calls := (rt_calls C)(call \<mapsto> cs')\<rparr>)"
  using assms by (auto simp: client_inv_def entry_of_def)

lemma purge_call_inv:
  assumes "client_inv C"
  shows "client_inv (purge_call call C)"
proof (cases "rt_calls C call")
  case None
  then show ?thesis using assms by (simp add: purge_call_def)
next
  case (Some cs)
  then have "cs_sid cs = show_int call" using client_inv_call [OF assms] by (simp add: call_ok_def)
  then show ?thesis using assms Some by (auto simp: purge_call_def client_inv_def disp_deregister_def)
qed

lemma close_purge_inv:
  assumes "client_inv C" and "rt_calls C call = Some cs"
  shows "client_inv (purge_call call (close_call call (put_event t cs) C))"
proof -
  have "call_ok call (close_iterators (put_event t cs))"
    using client_inv_call [OF assms] by (rule final_ok)
  then have "client_inv (C\<lparr>rt_calls := (rt_calls C)(call \<mapsto> close_iterators (put_event t cs))\<rparr>)"
    by (intro client_inv_update [OF assms]) simp_all
  then show ?thesis by (intro purge_call_inv) (simp add: close_call_def)
qed

lemma dial_unwind_inv: "client_inv C \<Longrightarrow> client_inv (dial_unwind call C)"
  by (auto simp: dial_unwind_def close_purge_inv split: option.split)

lemma hangup_finish_inv: "client_inv C \<Longrightarrow> client_inv (hangup_finish call C)"
  by (auto simp: hangup_finish_def close_purge_inv split: option.split)

lemma send_keeps_registry: "send_to_edge edge m S = Some S' \<Longrightarrow> registry S' = registry S"
  by (auto simp: send_to_edge_def update_stream_def split: option.splits)

lemma hangup_inv: "client_inv C \<Longrightarrow> client_inv (snd (hangup call C))"
  by (auto simp: hangup_def Let_def hangup_finish_inv client_inv_server send_keeps_registry split: option.split)

lemma dial_edge_inv:
  assumes "client_inv C" and "rt_calls C call = None"
  shows "client_inv (snd (dial_edge call phone c1 c2 dev edge C))"
proof -
  have n: "bindings (registry (rt_server C)) (show_int call) = None" using assms by (simp add: client_inv_def)
  define C2 where "C2 = C\<lparr>rt_calls := (rt_calls C)(call \<mapsto> new_call_state (show_int call) (rc_user_id c2) dev edge),
    rt_server := (rt_server C)\<lparr>registry := (registry (rt_server C))\<lparr>bindings :=
      (bindings (registry (rt_server C)))(show_int call \<mapsto> \<lparr>entry_edge = edge, entry_dial_ack = True\<rparr>)\<rparr>\<rparr>\<rparr>"
  have i: "client_inv C2" using assms by (auto simp: C2_def client_inv_def entry_of_def new_call_state_def [of _ _ _ edge])
      (simp flip: new_call_state_def)
  have "snd (dial_edge call phone c1 c2 dev edge C) = (case send_to_edge edge (dial_cmd (show_int call) dev phone c1 c2) (rt_server C2) of
      None \<Rightarrow> dial_unwind call C2 | Some S \<Rightarrow> C2\<lparr>rt_server := S\<rparr>)"
    using n by (simp add: dial_edge_def disp_register_def Let_def C2_def split: option.split)
  then show ?thesis using i by (auto simp: dial_unwind_inv client_inv_server send_keeps_registry split: option.split)
qed

lemma dial_inv: "client_inv C \<Longrightarrow> client_inv (snd (dial L is now rnd1 rnd2 err call phone C))"
  by (auto simp: dial_def Let_def dial_edge_inv split: sum.split option.split)

lemma server_step_registry:
  assumes "server_step a S = Some S'" and "\<And>c e ack. a \<noteq> Bind c e ack" and "\<And>c. a \<noteq> Unbind c"
  shows "registry S' = registry S"
  using assms
  by (cases a) (auto simp: register_stream_def update_stream_def finally_begin_def finally_end_def deregister_stream_def stop_server_def
      read_message_def Let_def send_keeps_registry split: if_splits option.splits)

lemma read_keeps_registry [simp]: "registry (read_message k msg S) = registry S"
  by (simp add: read_message_def Let_def split: option.split)

lemma update_call_inv:
  assumes "client_inv C" and "\<And>cs. call_ok call cs \<Longrightarrow> call_ok call (f cs)"
    and "\<And>cs. cs_edge_device_id (f cs) = cs_edge_device_id cs"
  shows "client_inv (update_call call f C)"
  using assms by (auto simp: update_call_def client_inv_update client_inv_call split: option.split)

lemma edge_message_inv: "client_inv C \<Longrightarrow> client_inv (edge_message codes k call msg C)"
  by (auto simp: edge_message_def Let_def client_inv_server update_call_inv on_call_event_ok on_dial_ack_ok
      split: option.split delivery.split)

lemma rtc_step_inv:
  assumes "client_inv C" and "rtc_step E a C = Some C'"
  shows "client_inv C'"
proof (cases a)
  case (Server b)
  then obtain S where "server_step b (rt_server C) = Some S" "C' = C\<lparr>rt_server := S\<rparr>"
      "\<And>c e ack. b \<noteq> Bind c e ack" "\<And>c. b \<noteq> Unbind c"
    using assms(2) by (cases b) (auto simp: with_server_def)
  then show ?thesis using client_inv_server [OF assms(1)] server_step_registry by simp
next
  case (DialTimeout call k i)
  then obtain S where "server_step (SendTimeout k i) (rt_server C) = Some S" "C' = dial_unwind call (C\<lparr>rt_server := S\<rparr>)"
    using assms(2) by (auto simp: with_server_def simp del: server_step.simps)
  then show ?thesis using client_inv_server [OF assms(1)] server_step_registry dial_unwind_inv by (simp del: server_step.simps)
next
  case (Play call b)
  then show ?thesis using assms by (auto simp: client_inv_update client_inv_call playout_ok split: option.splits)
next
  case (Ambient call asset gain)
  then show ?thesis using assms
    by (auto simp: configure_ambient_def Let_def client_inv_update client_inv_call playout_ok split: option.splits)
next
  case (Fadeout call ms)
  then show ?thesis using assms
    by (auto simp: set_barge_in_fadeout_def client_inv_update client_inv_call playout_ok split: option.splits)
qed (use assms in \<open>auto simp: set_device_for_session_def dial_inv hangup_inv hangup_finish_inv edge_message_inv split: if_splits\<close>)

section \<open>Event streams\<close>

text \<open>A call's stream: its queue, which a consumer keeps after the call is purged.\<close>

definition rtc_stream :: "int \<Rightarrow> rtc_client \<Rightarrow> event_item list" where
  "rtc_stream call C = (case rt_calls C call of Some cs \<Rightarrow> cs_events cs | None \<Rightarrow> rt_purged C call)"

lemma stream_server [simp]:
  "rtc_stream call (C\<lparr>rt_server := S\<rparr>) = rtc_stream call C" "rtc_stream call (C\<lparr>rt_pending := p\<rparr>) = rtc_stream call C"
  "rtc_stream call (C\<lparr>rt_joined := js\<rparr>) = rtc_stream call C"
  by (simp_all add: rtc_stream_def cong: option.case_cong)

lemma stream_update:
  "rtc_stream call (C\<lparr>rt_calls := (rt_calls C)(c \<mapsto> cs)\<rparr>) = (if call = c then cs_events cs else rtc_stream call C)"
  by (simp add: rtc_stream_def cong: option.case_cong)

lemma stream_update_same:
  "rt_calls C c = Some cs \<Longrightarrow> cs_events cs' = cs_events cs \<Longrightarrow>
     rtc_stream call (C\<lparr>rt_calls := (rt_calls C)(c \<mapsto> cs')\<rparr>) = rtc_stream call C"
  by (auto simp: stream_update) (simp add: rtc_stream_def)

lemma close_purge_emits:
  assumes "client_inv C" and "rt_calls C c = Some cs" and "final_event t"
  shows "emits (rtc_stream call C) (rtc_stream call (purge_call c (close_call c (put_event t cs) C)))"
  using final_emits [OF client_inv_call [OF assms(1,2)] assms(3)] assms(2)
  by (auto simp: rtc_stream_def purge_call_def close_call_def leave_channel_def cong: option.case_cong)

lemma finish_emits:
  assumes "client_inv C"
  shows "emits (rtc_stream call C) (rtc_stream call (dial_unwind c C))"
    and "emits (rtc_stream call C) (rtc_stream call (hangup_finish c C))"
  using close_purge_emits [OF assms] by (auto simp: dial_unwind_def hangup_finish_def final_event_def split: option.split)

lemma hangup_emits:
  assumes "client_inv C"
  shows "emits (rtc_stream call C) (rtc_stream call (snd (hangup c C)))"
proof -
  have "emits (rtc_stream call C) (rtc_stream call (hangup_finish c (C\<lparr>rt_server := S\<rparr>)))" if "registry S = registry (rt_server C)" for S
    using finish_emits(2) [OF client_inv_server [OF assms that]] by simp
  then show ?thesis using finish_emits(2) [OF assms]
    by (auto simp: hangup_def Let_def send_keeps_registry split: option.split)
qed

text \<open>A dial that fails at the edge leaves the new call's stream with its final event.\<close>

lemma dial_edge_stream:
  assumes "rt_calls C c = None"
  shows "if call = c then grows [] (rtc_stream call (snd (dial_edge c phone c1 c2 dev edge C)))
    else rtc_stream call (snd (dial_edge c phone c1 c2 dev edge C)) = rtc_stream call C"
  using assms
  by (auto simp: dial_edge_def Let_def rtc_stream_def dial_unwind_def purge_call_def close_call_def close_iterators_def put_event_def
      new_call_state_def leave_channel_def grows_def final_event_def cong: option.case_cong split: sum.split option.split)

lemma dial_emits: "emits (rtc_stream call C) (rtc_stream call (snd (dial L is now rnd1 rnd2 err c phone C)))"
proof -
  have "emits (rtc_stream call C) (rtc_stream call (snd (dial_edge c phone c1 c2 dev edge
      (C\<lparr>rt_joined := js, rt_pending := p\<rparr>))))" if "rt_calls C c = None" for c1 c2 dev edge js p
    using dial_edge_stream [of "C\<lparr>rt_joined := js, rt_pending := p\<rparr>" c call phone c1 c2 dev edge] that
    by (auto simp: emits_def split: if_splits)
  then show ?thesis by (auto simp: dial_def Let_def split: sum.split option.split)
qed

lemma update_call_emits:
  assumes "client_inv C" and "\<And>cs. call_ok c cs \<Longrightarrow> emits (cs_events cs) (cs_events (f cs))"
  shows "emits (rtc_stream call C) (rtc_stream call (update_call c f C))"
proof (cases "rt_calls C c")
  case (Some cs)
  then have "emits (cs_events cs) (cs_events (f cs))" using assms client_inv_call by blast
  with Some show ?thesis
    by (auto simp: update_call_def leave_if_closed_def leave_channel_def stream_update) (simp_all add: rtc_stream_def)
qed (simp add: update_call_def)

lemma edge_message_emits:
  assumes "client_inv C"
  shows "emits (rtc_stream call C) (rtc_stream call (edge_message codes k c msg C))"
proof -
  let ?C = "C\<lparr>rt_server := read_message k msg (rt_server C)\<rparr>"
  have i: "client_inv ?C" using client_inv_server [OF assms] by simp
  show ?thesis using update_call_emits [OF i on_call_event_emits] update_call_emits [OF i on_dial_ack_emits]
    by (auto simp: edge_message_def Let_def split: option.split delivery.split)
qed

lemma rtc_step_emits:
  assumes "client_inv C" and "rtc_step E a C = Some C'"
  shows "emits (rtc_stream call C) (rtc_stream call C')"
proof (cases a)
  case (Server b)
  then show ?thesis using assms(2) by (cases b) (auto simp: with_server_def simp del: server_step.simps)
next
  case (DialTimeout c k i)
  then obtain S where s: "server_step (SendTimeout k i) (rt_server C) = Some S" "C' = dial_unwind c (C\<lparr>rt_server := S\<rparr>)"
    using assms(2) by (auto simp: with_server_def simp del: server_step.simps)
  have "registry S = registry (rt_server C)" by (rule server_step_registry [OF s(1)]) simp_all
  then show ?thesis using s(2) finish_emits(1) [OF client_inv_server [OF assms(1)]] by simp
next
  case (Play c b)
  then show ?thesis using assms(2) by (auto simp: stream_update_same split: option.splits)
next
  case (Ambient c asset gain)
  then show ?thesis using assms(2) by (auto simp: stream_update_same configure_ambient_def Let_def split: option.splits)
next
  case (Fadeout c ms)
  then show ?thesis using assms(2) by (auto simp: stream_update_same set_barge_in_fadeout_def split: option.splits)
next
  case (SetDevice c dev)
  then show ?thesis using assms(2) by (auto simp: set_device_for_session_def)
qed (use assms hangup_emits [OF assms(1)] finish_emits(2) [OF assms(1)] edge_message_emits [OF assms(1)] dial_emits
    in \<open>auto split: if_splits\<close>)

interpretation rtc: telephony_stream "\<lambda>C. C = new_client legacy" "rtc_step E" client_inv rtc_stream for legacy E
proof
  show "client_inv C" if "C = new_client legacy" for C using that new_client_inv by simp
  show "client_inv C'" if "client_inv C" "rtc_step E a C = Some C'" for C a C' using rtc_step_inv that by blast
  show "rtc_stream call C = []" if "C = new_client legacy" for C call using that by (simp add: rtc_stream_def new_client_def)
  show "emits (rtc_stream call C) (rtc_stream call C')" if "client_inv C" "rtc_step E a C = Some C'" for C a C' call
    using rtc_step_emits that by blast
qed

section \<open>Routing, hanging up and a dial without an edge\<close>

lemma routed:
  assumes "client_inv C" and "rt_calls C call = Some cs"
  shows "rt_calls (edge_message codes k call (ECallEvent (show_int call) kind) C) call =
    Some (if ss_edge (streams (rt_server C) ! k) = cs_edge_device_id cs then on_call_event codes kind cs else cs)"
proof -
  have "bindings (registry (rt_server C)) (show_int call) = Some (entry_of cs)" using assms by (simp add: client_inv_def)
  then show ?thesis using assms(2)
    by (auto simp: edge_message_def handle_edge_message_def dispatch_call_event_def entry_of_def update_call_def leave_if_closed_def
        leave_channel_def Let_def)
qed

lemma hangup_forgets:
  assumes "client_inv C" and "rt_calls C call = Some cs" and "\<not> fst (hangup call C)"
  shows "rt_calls (snd (hangup call C)) call = None
    \<and> \<not> is_registered (show_int call) (registry (rt_server (snd (hangup call C))))
    \<and> show_int call \<notin> set (rt_joined (snd (hangup call C)))"
proof -
  have "cs_sid cs = show_int call" using client_inv_call [OF assms(1,2)] by (simp add: call_ok_def)
  then show ?thesis using assms(2,3)
    by (auto simp: hangup_def hangup_finish_def purge_call_def close_call_def leave_channel_def disp_deregister_def is_registered_def
        Let_def split: option.splits if_splits)
qed

lemma rtc_hangup_final:
  assumes "client_inv C" and "rt_calls C call \<noteq> None" and "\<not> stream_ended (rtc_stream call C)" and "\<not> fst (hangup call C)"
  shows "rtc_stream call (snd (hangup call C)) = rtc_stream call C @ [TelEvent TelLocalHangup, TelSentinel]"
proof -
  obtain cs where c: "rt_calls C call = Some cs" using assms(2) by auto
  have "\<not> cs_closed cs" using client_inv_call [OF assms(1) c] assms(3) c by (simp add: call_ok_def rtc_stream_def)
  then show ?thesis using assms(4) c
    by (auto simp: hangup_def hangup_finish_def purge_call_def close_call_def close_iterators_def put_event_def leave_channel_def
        rtc_stream_def Let_def cong: option.case_cong split: option.splits if_splits)
qed


text \<open>The leak: what no step but another dial of the same call changes.\<close>

definition leaked :: "int \<Rightarrow> rtc_client \<Rightarrow> bool" where
  "leaked call C \<longleftrightarrow> client_inv C \<and> rt_calls C call = None \<and> show_int call \<in> set (rt_joined C)"

definition redials :: "int \<Rightarrow> rtc_act \<Rightarrow> bool" where
  "redials call a = (case a of Dial c phone err now rnd1 rnd2 \<Rightarrow> c = call | _ \<Rightarrow> False)"

definition spares :: "int \<Rightarrow> rtc_client \<Rightarrow> rtc_client \<Rightarrow> bool" where
  "spares call C C' \<longleftrightarrow> rt_calls C' call = rt_calls C call \<and> (show_int call \<in> set (rt_joined C) \<longrightarrow> show_int call \<in> set (rt_joined C'))"

lemma close_purge_spares:
  assumes "client_inv C" and "rt_calls C c = Some cs" and "rt_calls C call = None"
  shows "spares call C (purge_call c (close_call c (put_event t cs) C))"
proof -
  have "cs_sid cs = show_int c" "c \<noteq> call" using client_inv_call [OF assms(1,2)] assms(2,3) by (auto simp: call_ok_def)
  then show ?thesis by (auto simp: spares_def purge_call_def close_call_def leave_channel_def split: option.split)
qed

lemma spares_server [simp]: "spares call (C\<lparr>rt_server := S\<rparr>) D = spares call C D" "spares call D (C\<lparr>rt_server := S\<rparr>) = spares call D C"
  by (simp_all add: spares_def)

lemma spares_refl [simp]: "spares call C C"
  by (simp add: spares_def)

lemma finish_spares:
  assumes "client_inv C" and "rt_calls C call = None"
  shows "spares call C (dial_unwind c C)" and "spares call C (hangup_finish c C)"
  using close_purge_spares [OF assms(1) _ assms(2)] by (auto simp: dial_unwind_def hangup_finish_def split: option.split)

lemma hangup_spares:
  assumes "client_inv C" and "rt_calls C call = None"
  shows "spares call C (snd (hangup c C))"
proof -
  have "spares call C (hangup_finish c (C\<lparr>rt_server := S\<rparr>))" if "registry S = registry (rt_server C)" for S
    using finish_spares(2) [of "C\<lparr>rt_server := S\<rparr>" call c] client_inv_server [OF assms(1) that] assms(2) by simp
  then show ?thesis using finish_spares(2) [OF assms]
    by (auto simp: hangup_def Let_def send_keeps_registry split: option.split)
qed

lemma dial_spares:
  assumes "client_inv C" and "rt_calls C call = None" and "c \<noteq> call"
  shows "spares call C (snd (dial L is now rnd1 rnd2 err c phone C))"
  using assms(3)
  by (auto simp: dial_def dial_edge_def Let_def spares_def dial_unwind_def purge_call_def close_call_def leave_channel_def
      new_call_state_def put_event_def split: sum.split option.split)

lemma update_call_spares:
  assumes "client_inv C" and "rt_calls C call = None"
  shows "spares call C (update_call c f C)"
proof (cases "rt_calls C c")
  case (Some cs)
  then have "cs_sid cs = show_int c" "c \<noteq> call" using client_inv_call [OF assms(1)] assms(2) by (auto simp: call_ok_def)
  with Some show ?thesis by (auto simp: spares_def update_call_def leave_if_closed_def leave_channel_def)
qed (simp add: update_call_def)

lemma edge_message_spares:
  assumes "client_inv C" and "rt_calls C call = None"
  shows "spares call C (edge_message codes k c msg C)"
proof -
  have "spares call C (update_call c f (C\<lparr>rt_server := read_message k msg (rt_server C)\<rparr>))" for f
    using update_call_spares [of "C\<lparr>rt_server := read_message k msg (rt_server C)\<rparr>" call c f] client_inv_server [OF assms(1)] assms(2)
    by simp
  then show ?thesis by (auto simp: edge_message_def Let_def split: option.split delivery.split)
qed

lemma rtc_step_spares:
  assumes "client_inv C" and "rt_calls C call = None" and "\<not> redials call a" and "rtc_step E a C = Some C'"
  shows "spares call C C'"
proof (cases a)
  case (Server b)
  then show ?thesis using assms(4) by (cases b) (auto simp: with_server_def simp del: server_step.simps)
next
  case (DialTimeout c k i)
  then obtain S where s: "server_step (SendTimeout k i) (rt_server C) = Some S" "C' = dial_unwind c (C\<lparr>rt_server := S\<rparr>)"
    using assms(4) by (auto simp: with_server_def simp del: server_step.simps)
  have "registry S = registry (rt_server C)" by (rule server_step_registry [OF s(1)]) simp_all
  then show ?thesis
    using s(2) finish_spares(1) [of "C\<lparr>rt_server := S\<rparr>" call c] client_inv_server [OF assms(1)] assms(2) by simp
next
  case (Play c b)
  then show ?thesis using assms(2,4) by (auto simp: spares_def split: option.splits)
next
  case (Ambient c asset gain)
  then show ?thesis using assms(2,4) by (auto simp: spares_def configure_ambient_def Let_def split: option.splits)
next
  case (Fadeout c ms)
  then show ?thesis using assms(2,4) by (auto simp: spares_def set_barge_in_fadeout_def split: option.splits)
next
  case (Dial c phone err now rnd1 rnd2)
  then show ?thesis using assms(3,4) dial_spares [OF assms(1,2)] by (auto simp: redials_def)
next
  case (SetDevice c dev)
  then show ?thesis using assms(4) by (auto simp: spares_def set_device_for_session_def)
qed (use assms hangup_spares [OF assms(1,2)] finish_spares(2) [OF assms(1,2)] edge_message_spares [OF assms(1,2)]
    in \<open>auto split: if_splits\<close>)

lemma leaked_run:
  "leaked call C \<Longrightarrow> list_all (\<lambda>a. \<not> redials call a) as \<Longrightarrow> run_acts (rtc_step E) as C = Some D \<Longrightarrow> leaked call D"
proof (induction as arbitrary: C)
  case (Cons a as)
  from Cons.prems(3) obtain C1 where c: "rtc_step E a C = Some C1" and r: "run_acts (rtc_step E) as C1 = Some D"
    by (auto split: option.splits)
  have l: "client_inv C" "rt_calls C call = None" "show_int call \<in> set (rt_joined C)"
    using Cons.prems(1) by (simp_all add: leaked_def)
  have "spares call C C1" using rtc_step_spares [OF l(1,2) _ c] Cons.prems(2) by simp
  then have "leaked call C1" using rtc_step_inv [OF l(1) c] l(2,3) by (simp add: leaked_def spares_def)
  then show ?case using Cons.IH [OF _ _ r] Cons.prems(2) by simp
qed simp

lemma legacy_parts [simp]:
  "rt_legacy_edge (purge_call c C) = rt_legacy_edge C" "rt_legacy_edge (close_call c cs C) = rt_legacy_edge C"
  "rt_legacy_edge (leave_channel sid C) = rt_legacy_edge C" "rt_legacy_edge (leave_if_closed cs cs' C) = rt_legacy_edge C"
  by (simp_all add: purge_call_def close_call_def leave_channel_def leave_if_closed_def split: option.split)

lemma legacy_finish [simp]:
  "rt_legacy_edge (dial_unwind c C) = rt_legacy_edge C" "rt_legacy_edge (hangup_finish c C) = rt_legacy_edge C"
  "rt_legacy_edge (update_call c f C) = rt_legacy_edge C"
  by (simp_all add: dial_unwind_def hangup_finish_def update_call_def split: option.split)

lemma legacy_ops [simp]:
  "rt_legacy_edge (snd (hangup c C)) = rt_legacy_edge C" "rt_legacy_edge (snd (dial L is now rnd1 rnd2 err c phone C)) = rt_legacy_edge C"
  "rt_legacy_edge (edge_message codes k c msg C) = rt_legacy_edge C" "rt_legacy_edge (set_barge_in_fadeout c ms C) = rt_legacy_edge C"
  "rt_legacy_edge (configure_ambient loops c asset gain C) = rt_legacy_edge C"
  "rt_legacy_edge (set_device_for_session c dev C) = rt_legacy_edge C"
  by (auto simp: hangup_def dial_def dial_edge_def edge_message_def set_barge_in_fadeout_def configure_ambient_def
      set_device_for_session_def Let_def split: option.split sum.split delivery.split)

lemma legacy_step: "rtc_step E a C = Some C' \<Longrightarrow> rt_legacy_edge C' = rt_legacy_edge C"
  by (cases a) (auto simp: with_server_def Let_def simp del: server_step.simps
      split: option.splits if_splits server_act.splits delivery.splits sum.splits)

lemma legacy_kept: "reach (\<lambda>C. C = new_client legacy) (rtc_step E) C \<Longrightarrow> rt_legacy_edge C = legacy"
  by (induction rule: reach.induct) (auto simp: new_client_def dest: legacy_step)

text \<open>C37. A dial whose device no edge serves joins the RTC channel, raises, and leaves the channel joined for good: the call
  never enters the table, so no later hangup, message or timeout leaves its channel.\<close>

theorem unserved_dial_leaks_channel:
  assumes "reach (\<lambda>C. C = new_client []) (rtc_step E) C" and "rt_calls C call = None"
    and "sign_for_call (re_lib E) (re_issuer E) (show_int call) None now rnd1 rnd2 = Inr creds"
    and "resolve_edge_for_device (case rt_pending C call of Some d \<Rightarrow> d | None \<Rightarrow> 0) (rt_server C) = None"
    and "dial (re_lib E) (re_issuer E) now rnd1 rnd2 None call phone C = (r, C')"
    and "list_all (\<lambda>a. \<not> redials call a) as" and "run_acts (rtc_step E) as C' = Some D"
  shows "r = Some (Inl EdgeNotConnected) \<and> rt_calls D call = None \<and> show_int call \<in> set (rt_joined D)"
proof -
  have i: "client_inv C" using assms(1) by (rule rtc.reach_inv)
  have l: "rt_legacy_edge C = []" using assms(1) by (rule legacy_kept)
  have d: "r = Some (Inl EdgeNotConnected)
    \<and> C' = C\<lparr>rt_joined := rt_joined C @ [show_int call], rt_pending := (rt_pending C)(call := None)\<rparr>"
    using assms(2-5) l by (cases creds) (auto simp: dial_def Let_def target_edge_def)
  then have "leaked call C'" using i assms(2) by (simp add: leaked_def client_inv_def)
  then have "leaked call D" using leaked_run assms(6,7) by blast
  with d show ?thesis by (simp add: leaked_def)
qed

section \<open>Examples\<close>

definition demo_rtc_env :: rtc_env where
  "demo_rtc_env = \<lparr>re_lib = demo_token_lib, re_issuer = \<lparr>is_app_id = [65], is_app_key = [66], is_default_ttl = 60\<rparr>,
     re_causes = [0, 1, 2, 3, 4, 5], re_loops = (\<lambda>_. None)\<rparr>"

lemma demo_signs: "\<exists>a b. sign_for_call demo_token_lib \<lparr>is_app_id = [65], is_app_key = [66], is_default_ttl = 60\<rparr> (show_int 7) None 10
    (\<lambda>_. 0) (\<lambda>_. 0) = Inr (a, b)"
  by (simp add: sign_for_call_def sign_token_def show_int_def show_nat.simps lit_def utf8_def utf8_char_def
      build_token_def generate_sign_key_def token_body_def pack_service_def pack_options_def pack_field_def pack_u32_def
      bind_res_def demo_token_lib_def Let_def)

lemma demo_dial:
  "\<exists>C cs. reach (\<lambda>C. C = new_client [69]) (rtc_step demo_rtc_env) C \<and> rt_calls C 7 = Some cs
     \<and> cs_edge_device_id cs = [69] \<and> live 0 (rt_server C) \<and> ss_edge (streams (rt_server C) ! 0) = [69]
     \<and> \<not> cs_closed cs \<and> cs_playout cs = new_playout"
proof -
  obtain a b where s: "sign_for_call demo_token_lib \<lparr>is_app_id = [65], is_app_key = [66], is_default_ttl = 60\<rparr> (show_int 7) None 10
      (\<lambda>_. 0) (\<lambda>_. 0) = Inr (a, b)" using demo_signs by blast
  let ?C1 = "new_client [69]\<lparr>rt_server := register_stream [69] (new_server new_dispatcher)\<rparr>"
  let ?C2 = "snd (dial demo_token_lib \<lparr>is_app_id = [65], is_app_key = [66], is_default_ttl = 60\<rparr> 10 (\<lambda>_. 0) (\<lambda>_. 0) None 7 [49] ?C1)"
  have r: "run_acts (rtc_step demo_rtc_env) [Server (Open [69]), Dial 7 [49] None 10 (\<lambda>_. 0) (\<lambda>_. 0)] (new_client [69]) = Some ?C2"
    by (simp add: with_server_def demo_rtc_env_def new_client_def)
  have "rt_calls ?C2 7 = Some (new_call_state (show_int 7) (rc_user_id b) 0 [69]) \<and> live 0 (rt_server ?C2)
      \<and> ss_edge (streams (rt_server ?C2) ! 0) = [69]"
    using s by (simp add: dial_def dial_edge_def new_client_def target_edge_def disp_register_def register_stream_def new_server_def
        new_dispatcher_def new_server_stream_def send_to_edge_def stream_send_def put_frame_def put_nowait_def qfull_def new_queue_def
        update_stream_def live_def Let_def)
  moreover have "reach (\<lambda>C. C = new_client [69]) (rtc_step demo_rtc_env) ?C2"
    using reach_run_acts [rotated, OF r] by (simp add: reach_init)
  ultimately show ?thesis by (intro exI [of _ ?C2] exI conjI) (auto simp: new_call_state_def)
qed


theorem unserved_dial_leaks_channel_witness:
  "\<exists>C'. dial demo_token_lib \<lparr>is_app_id = [65], is_app_key = [66], is_default_ttl = 60\<rparr> 10 (\<lambda>_. 0) (\<lambda>_. 0) None 7 [49] (new_client [])
       = (Some (Inl EdgeNotConnected), C')
     \<and> show_int 7 \<in> set (rt_joined (snd (hangup 7 C')))"
proof -
  let ?d = "dial (re_lib demo_rtc_env) (re_issuer demo_rtc_env) 10 (\<lambda>_. 0) (\<lambda>_. 0) None 7 [49] (new_client [])"
  obtain a b where s: "sign_for_call (re_lib demo_rtc_env) (re_issuer demo_rtc_env) (show_int 7) None 10 (\<lambda>_. 0) (\<lambda>_. 0) = Inr (a, b)"
    using demo_signs by (auto simp: demo_rtc_env_def)
  have "fst ?d = Some (Inl EdgeNotConnected) \<and> rt_calls (snd (hangup 7 (snd ?d))) 7 = None
      \<and> show_int 7 \<in> set (rt_joined (snd (hangup 7 (snd ?d))))"
    by (rule unserved_dial_leaks_channel [OF reach_init _ s, where as = "[Hangup 7]"])
      (simp_all add: new_client_def resolve_edge_for_device_def new_server_def redials_def)
  then show ?thesis by (cases ?d) (auto simp: demo_rtc_env_def)
qed

section \<open>A remote hangup during playback\<close>

text \<open>A call whose playback can only end by a cancellation.\<close>

definition silenced :: "int \<Rightarrow> rtc_client \<Rightarrow> bool" where
  "silenced call C \<longleftrightarrow> (\<forall>cs. rt_calls C call = Some cs \<longrightarrow> stalled (cs_playout cs))"

definition revives :: "int \<Rightarrow> rtc_act \<Rightarrow> bool" where
  "revives call a = (case a of
       Dial c ph er t0 r1 r2 \<Rightarrow> c = call | Ambient c asset gain \<Rightarrow> c = call
     | Play c b \<Rightarrow> c = call \<and> b = CancelFeed | _ \<Rightarrow> False)"

lemma stop_pump_stalled: "stalled P \<Longrightarrow> stalled (stop_pump P)"
  by (auto simp: stop_pump_def stalled_def)

lemma close_playout [simp]: "stalled (cs_playout cs) \<Longrightarrow> stalled (cs_playout (close_iterators cs))"
  by (simp add: close_iterators_def stop_pump_stalled)

lemma put_playout [simp]: "cs_playout (put_event e cs) = cs_playout cs"
  by (simp add: put_event_def)

lemma handlers_stalled:
  "stalled (cs_playout cs) \<Longrightarrow> stalled (cs_playout (on_call_event codes kind cs))"
  "stalled (cs_playout cs) \<Longrightarrow> stalled (cs_playout (on_dial_ack acc why cs))"
  by (auto simp: on_call_event_def on_dial_ack_def split: call_event_kind.split)

lemma silenced_server [simp]: "silenced call (C\<lparr>rt_server := S\<rparr>) = silenced call C"
  by (simp add: silenced_def)

lemma silenced_finish: "silenced call C \<Longrightarrow> silenced call (dial_unwind c C)" "silenced call C \<Longrightarrow> silenced call (hangup_finish c C)"
  by (auto simp: silenced_def dial_unwind_def hangup_finish_def purge_call_def close_call_def leave_channel_def
      split: option.splits if_splits)

lemma silenced_update:
  assumes "silenced call C" and "\<And>cs. stalled (cs_playout cs) \<Longrightarrow> stalled (cs_playout (f cs))"
  shows "silenced call (update_call c f C)"
  using assms by (auto simp: silenced_def update_call_def leave_if_closed_def leave_channel_def split: option.splits if_splits)

lemma silenced_message: "silenced call C \<Longrightarrow> silenced call (edge_message codes k c msg C)"
  by (auto simp: edge_message_def Let_def silenced_update handlers_stalled split: option.split delivery.split)

lemma silenced_hangup: "silenced call C \<Longrightarrow> silenced call (snd (hangup c C))"
  by (auto simp: hangup_def Let_def silenced_finish split: option.split)

lemma silenced_dial: "silenced call C \<Longrightarrow> c \<noteq> call \<Longrightarrow> silenced call (snd (dial L iss t0 r1 r2 er c ph C))"
  by (auto simp: dial_def dial_edge_def Let_def silenced_def dial_unwind_def purge_call_def close_call_def leave_channel_def
      split: sum.splits option.splits if_splits)

lemma silenced_step:
  assumes "silenced call C" and "\<not> revives call a" and "rtc_step R a C = Some C'"
  shows "silenced call C'"
proof (cases a)
  case (Server b)
  then show ?thesis using assms by (cases b) (auto simp: with_server_def simp del: server_step.simps)
next
  case (DialTimeout c k i)
  then show ?thesis using assms silenced_finish(1) by (auto simp: with_server_def simp del: server_step.simps)
next
  case (Play c b)
  then obtain cs P where p: "rt_calls C c = Some cs" "playout_step b (cs_playout cs) = Some P"
      "C' = C\<lparr>rt_calls := (rt_calls C)(c \<mapsto> cs\<lparr>cs_playout := P\<rparr>)\<rparr>"
    using assms(3) by (auto split: option.splits)
  have "stalled P" if "c = call"
  proof (rule stalled_step [OF _ p(2)])
    show "stalled (cs_playout cs)" using assms(1) p(1) that by (simp add: silenced_def)
    show "b \<noteq> CancelFeed" using assms(2) Play that by (simp add: revives_def)
  qed
  then show ?thesis using assms(1) p by (auto simp: silenced_def)
next
  case (Ambient c asset gain)
  then show ?thesis using assms by (auto simp: silenced_def revives_def configure_ambient_def Let_def split: option.splits)
next
  case (Fadeout c ms)
  then show ?thesis using assms
    by (auto simp: silenced_def set_barge_in_fadeout_def stalled_def split: option.splits if_splits)
next
  case (Dial c ph er t0 r1 r2)
  then show ?thesis using assms silenced_dial by (auto simp: revives_def)
next
  case (SetDevice c dev)
  then show ?thesis using assms by (auto simp: silenced_def set_device_for_session_def)
qed (use assms silenced_hangup silenced_finish silenced_message in \<open>auto split: if_splits\<close>)

lemma silenced_run:
  "silenced call C \<Longrightarrow> list_all (\<lambda>a. \<not> revives call a) as \<Longrightarrow> run_acts (rtc_step R) as C = Some D \<Longrightarrow> silenced call D"
  by (induction as arbitrary: C) (auto split: option.splits intro: silenced_step)

text \<open>C38. A remote hangup that arrives while the engine is speaking stops the pump but not the speaker: as long as nothing cancels
  the playback and the call is in the client's table, \<^verbatim>\<open>audio_out\<close> has not returned, whatever the edge, the
  server and the other calls do.\<close>

theorem remote_hangup_stalls_playback:
  assumes "reach (\<lambda>C. C = new_client legacy) (rtc_step R) C" and "rt_calls C call = Some cs" and "\<not> cs_closed cs"
    and "po_feed (cs_playout cs) = FeedPutting todo" and "todo \<noteq> [] \<or> 0 < unfinished (po_q (cs_playout cs))"
    and "ss_edge (streams (rt_server C) ! k) = cs_edge_device_id cs"
    and "run_acts (rtc_step R) as (edge_message (re_causes R) k call (ECallEvent (show_int call) (RemoteHangup cause)) C) = Some D"
    and "list_all (\<lambda>a. \<not> revives call a) as" and "rt_calls D call = Some ds"
  shows "po_feed (cs_playout ds) \<noteq> FeedIdle"
proof -
  let ?C = "edge_message (re_causes R) k call (ECallEvent (show_int call) (RemoteHangup cause)) C"
  have "rt_calls ?C call = Some (on_call_event (re_causes R) (RemoteHangup cause) cs)"
    using routed [OF rtc.reach_inv [OF assms(1)] assms(2)] assms(6) by simp
  moreover have "stalled (cs_playout (on_call_event (re_causes R) (RemoteHangup cause) cs))"
    using assms(3-5) by (auto simp: on_call_event_def close_iterators_def stop_pump_def stalled_def)
  ultimately have "silenced call ?C" by (simp add: silenced_def)
  then have "silenced call D" using silenced_run assms(7,8) by blast
  then show ?thesis using assms(9) by (simp add: silenced_def stalled_def)
qed

theorem remote_hangup_stalls_playback_witness:
  "\<exists>C D ds. reach (\<lambda>C. C = new_client [69]) (rtc_step demo_rtc_env) C
     \<and> D = edge_message (re_causes demo_rtc_env) 0 7 (ECallEvent (show_int 7) (RemoteHangup 4)) C
     \<and> rt_calls D 7 = Some ds \<and> cs_closed ds \<and> po_feed (cs_playout ds) \<noteq> FeedIdle"
proof -
  obtain C cs where c: "reach (\<lambda>C. C = new_client [69]) (rtc_step demo_rtc_env) C" "rt_calls C 7 = Some cs"
    and e: "cs_edge_device_id cs = [69]" "ss_edge (streams (rt_server C) ! 0) = [69]" "\<not> cs_closed cs" "cs_playout cs = new_playout"
    using demo_dial by blast
  let ?cs = "cs\<lparr>cs_playout := demo_playing\<rparr>"
  let ?C = "C\<lparr>rt_calls := (rt_calls C)(7 \<mapsto> ?cs)\<rparr>"
  obtain P where p: "playout_step (StartFeed [[1], [2]]) new_playout = Some P" "playout_step FeedPut P = Some demo_playing"
    using demo_playing_run by (auto split: option.splits)
  have "run_acts (rtc_step demo_rtc_env) [Play 7 (StartFeed [[1], [2]]), Play 7 FeedPut] C = Some ?C"
    using c(2) e(4) p by simp
  then have r: "reach (\<lambda>C. C = new_client [69]) (rtc_step demo_rtc_env) ?C" by (rule reach_run_acts [OF c(1)])
  let ?D = "edge_message (re_causes demo_rtc_env) 0 7 (ECallEvent (show_int 7) (RemoteHangup 4)) ?C"
  have d: "rt_calls ?D 7 = Some (on_call_event (re_causes demo_rtc_env) (RemoteHangup 4) ?cs)"
    using routed [OF rtc.reach_inv [OF r], of 7 ?cs] e by simp
  have "po_feed (cs_playout (on_call_event (re_causes demo_rtc_env) (RemoteHangup 4) ?cs)) \<noteq> FeedIdle"
    by (rule remote_hangup_stalls_playback [OF r, of 7 ?cs "[]" 0 "[]"]) (use e d in \<open>simp_all add: demo_playing_def\<close>)
  moreover have "cs_closed (on_call_event (re_causes demo_rtc_env) (RemoteHangup 4) ?cs)" by (simp add: on_call_event_def)
  ultimately show ?thesis using r d by blast
qed


end
