(* ===== verification/Modem_Telephony.thy ===== *)
theory Modem_Telephony
  imports Telephony Rtc_Media Rtc_Token
begin

text \<open>
  The two other telephony clients: \<^verbatim>\<open>RealTelephonyClient\<close> (\<^verbatim>\<open>realtime/real_telephony.py\<close>), which speaks newline-delimited
  JSON with the modem controller over one socket, and \<^verbatim>\<open>MockTelephonyClient\<close> (\<^verbatim>\<open>realtime/mock_telephony.py\<close>).

  A queue is the list of everything put on it. A line of the socket is what \<^verbatim>\<open>readline\<close> and \<^verbatim>\<open>json.loads\<close> make of it; failures of
  connecting and of writing are arguments of the operations. \<^verbatim>\<open>base64.b64decode\<close> is the lenient decoder of the
  library.

  Shown: both clients keep the contract of \<open>Telephony\<close>; audio of the modem reaches the call it names, byte for byte and in
  order; after the reader has ended, a call that is dialled never gets an event of the modem.
\<close>

section \<open>Decoding\<close>

text \<open>The position in the quadruple, the bits left over, the padding seen.\<close>

fun a2b_base64 :: "nat \<Rightarrow> nat \<Rightarrow> nat \<Rightarrow> pystr \<Rightarrow> bytes option" where
  "a2b_base64 q l pads [] = (if q = 0 then Some [] else None)"
| "a2b_base64 q l pads (c # cs) =
     (if c = 61 then
        (if 2 \<le> q \<and> 4 \<le> q + Suc pads then Some [] else a2b_base64 q l (if 2 \<le> q then Suc pads else pads) cs)
      else case b64_val c of
        None \<Rightarrow> a2b_base64 q l pads cs
      | Some v \<Rightarrow>
          if q = 0 then a2b_base64 1 v 0 cs
          else if q = 1 then map_option ((#) (byte_of (l * 4 + v div 16))) (a2b_base64 2 (v mod 16) 0 cs)
          else if q = 2 then map_option ((#) (byte_of (l * 16 + v div 4))) (a2b_base64 3 (v mod 4) 0 cs)
          else map_option ((#) (byte_of (l * 64 + v))) (a2b_base64 0 0 0 cs))"

definition py_b64decode :: "pystr \<Rightarrow> bytes option" where
  "py_b64decode s = (if list_all (\<lambda>c. c < 128) s then a2b_base64 0 0 0 s else None)"

section \<open>The modem client\<close>

datatype modem_link = Unconnected | Reading | ReaderEnded

datatype modem_cmd = CmdDial pystr int pystr | CmdHangup pystr | CmdAudio pystr pystr

record modem_client =
  mc_link :: modem_link
  mc_events :: "pystr \<rightharpoonup> event_item list"
  mc_inbound :: "pystr \<rightharpoonup> audio_item list"
  mc_device_ids :: "pystr \<rightharpoonup> int"
  mc_written :: "modem_cmd list"

definition new_modem :: modem_client where
  "new_modem = \<lparr>mc_link = Unconnected, mc_events = Map.empty, mc_inbound = Map.empty, mc_device_ids = Map.empty, mc_written = []\<rparr>"

definition setdefault :: "('k \<rightharpoonup> 'v list) \<Rightarrow> 'k \<Rightarrow> ('k \<rightharpoonup> 'v list)" where
  "setdefault m k = (case m k of None \<Rightarrow> m(k \<mapsto> []) | Some v \<Rightarrow> m)"

definition queue_put :: "'v list \<Rightarrow> 'k \<Rightarrow> ('k \<rightharpoonup> 'v list) \<Rightarrow> ('k \<rightharpoonup> 'v list)" where
  "queue_put xs k m = (case m k of None \<Rightarrow> m | Some q \<Rightarrow> m(k \<mapsto> q @ xs))"

definition modem_connect :: "pyerr option \<Rightarrow> modem_client \<Rightarrow> modem_client res" where
  "modem_connect err C = (if mc_link C \<noteq> Unconnected then Inr C
     else case err of Some e \<Rightarrow> Inl e | None \<Rightarrow> Inr (C\<lparr>mc_link := Reading\<rparr>))"

definition ensure_session :: "pystr \<Rightarrow> modem_client \<Rightarrow> modem_client" where
  "ensure_session sid C = C\<lparr>mc_events := setdefault (mc_events C) sid, mc_inbound := setdefault (mc_inbound C) sid\<rparr>"

definition close_session :: "pystr \<Rightarrow> modem_client \<Rightarrow> modem_client" where
  "close_session sid C = C\<lparr>mc_inbound := queue_put [Sentinel] sid (mc_inbound C), mc_events := queue_put [TelSentinel] sid (mc_events C)\<rparr>"

definition modem_emit :: "telephony_event \<Rightarrow> pystr \<Rightarrow> modem_client \<Rightarrow> modem_client" where
  "modem_emit e sid C = C\<lparr>mc_events := queue_put [TelEvent e] sid (mc_events C)\<rparr>"

definition modem_write :: "pyerr option \<Rightarrow> modem_cmd \<Rightarrow> modem_client \<Rightarrow> pyerr option \<times> modem_client" where
  "modem_write err cmd C = (err, C\<lparr>mc_written := mc_written C @ [cmd]\<rparr>)"

definition modem_dial :: "pyerr option \<Rightarrow> pyerr option \<Rightarrow> int \<Rightarrow> pystr \<Rightarrow> modem_client \<Rightarrow> pyerr option \<times> modem_client" where
  "modem_dial cerr werr call phone C = (case modem_connect cerr C of
       Inl e \<Rightarrow> (Some e, C)
     | Inr C1 \<Rightarrow>
         (let sid = show_int call;
              C2 = ensure_session sid C1;
              device_id = (case mc_device_ids C2 sid of Some d \<Rightarrow> d | None \<Rightarrow> 0)
          in modem_write werr (CmdDial sid device_id phone) C2))"

definition modem_hangup :: "pyerr option \<Rightarrow> pyerr option \<Rightarrow> int \<Rightarrow> modem_client \<Rightarrow> pyerr option \<times> modem_client" where
  "modem_hangup cerr werr call C = (case modem_connect cerr C of
       Inl e \<Rightarrow> (Some e, C)
     | Inr C1 \<Rightarrow>
         (let sid = show_int call in
          case modem_write werr (CmdHangup sid) C1 of
            (Some e, C2) \<Rightarrow> (Some e, C2)
          | (None, C2) \<Rightarrow>
              (None, close_session sid (modem_emit TelLocalHangup sid (C2\<lparr>mc_events := setdefault (mc_events C2) sid\<rparr>)))))"

text \<open>Writing before the first connect fails an assertion.\<close>

definition modem_audio_out :: "pyerr option \<Rightarrow> int \<Rightarrow> bytes \<Rightarrow> modem_client \<Rightarrow> pyerr option \<times> modem_client" where
  "modem_audio_out werr call chunk C = (if mc_link C = Unconnected then (Some (OtherErr (lit ''AssertionError'')), C)
     else modem_write werr (CmdAudio (show_int call) (b64encode chunk)) C)"

definition modem_set_device :: "int \<Rightarrow> int \<Rightarrow> modem_client \<Rightarrow> modem_client" where
  "modem_set_device call dev C = C\<lparr>mc_device_ids := (mc_device_ids C)(show_int call \<mapsto> dev)\<rparr>"

definition str_or_else :: "pyenv \<Rightarrow> pyval list \<Rightarrow> pystr \<Rightarrow> pystr" where
  "str_or_else E vs dflt = (case filter truthy vs of [] \<Rightarrow> dflt | v # _ \<Rightarrow> py_str E v)"

definition modem_dispatch :: "pyenv \<Rightarrow> (pystr \<times> pyval) list \<Rightarrow> modem_client \<Rightarrow> modem_client" where
  "modem_dispatch E msg C = (case dget msg (lit ''event'') of
       PStr event \<Rightarrow> (case dget msg (lit ''session_id'') of
           PStr sid \<Rightarrow>
             (let C1 = ensure_session sid C in
              if parse_int sid = None then C1
              else if event = lit ''dial_ack'' then C1
              else if event = lit ''connected'' then modem_emit TelConnected sid C1
              else if event = lit ''remote_hangup'' then
                close_session sid
                  (modem_emit (TelRemoteHangup (Some (str_or_else E [dget msg (lit ''cause'')] (lit ''remote_clearing'')))) sid C1)
              else if event = lit ''device_error'' then
                close_session sid
                  (modem_emit (TelDeviceError (str_or_else E [dget msg (lit ''code''), dget msg (lit ''message'')] [])) sid C1)
              else if event = lit ''audio_upstream'' then
                (case dget msg (lit ''pcm_chunk'') of
                   PStr s \<Rightarrow> (case py_b64decode s of
                       None \<Rightarrow> C1
                     | Some chunk \<Rightarrow> C1\<lparr>mc_inbound := queue_put [Pcm chunk] sid (mc_inbound C1)\<rparr>)
                 | _ \<Rightarrow> C1)
              else C1)
         | _ \<Rightarrow> C)
     | _ \<Rightarrow> C)"

definition broadcast_disconnect :: "modem_client \<Rightarrow> modem_client" where
  "broadcast_disconnect C = C\<lparr>
     mc_events := (\<lambda>sid. case mc_events C sid of
         None \<Rightarrow> None
       | Some q \<Rightarrow> if parse_int sid = None then Some q
           else Some (q @ [TelEvent (TelDeviceError (lit ''ipc_disconnected'')), TelSentinel])),
     mc_inbound := (\<lambda>sid. map_option (\<lambda>q. q @ [Sentinel]) (mc_inbound C sid))\<rparr>"

text \<open>One line of the reader: the end of the stream, one that is no JSON, one that makes the reader raise (such as bytes that
  are not UTF-8, or a failing socket), or a value.\<close>

datatype modem_line = Eof | NoJson | Raises | Parsed pyval

definition read_line :: "pyenv \<Rightarrow> modem_line \<Rightarrow> modem_client \<Rightarrow> modem_client" where
  "read_line E l C = (case l of
       Eof \<Rightarrow> (broadcast_disconnect C)\<lparr>mc_link := ReaderEnded\<rparr>
     | Raises \<Rightarrow> (broadcast_disconnect C)\<lparr>mc_link := ReaderEnded\<rparr>
     | NoJson \<Rightarrow> C
     | Parsed (PDict msg) \<Rightarrow> modem_dispatch E msg C
     | Parsed _ \<Rightarrow> C)"

definition modem_aclose :: "modem_client \<Rightarrow> modem_client" where
  "modem_aclose C = (if mc_link C = Reading then C\<lparr>mc_link := ReaderEnded\<rparr> else C)"

datatype modem_act = MDial int pystr "pyerr option" "pyerr option" | MHangup int "pyerr option" "pyerr option"
  | MIterate int | MAudioOut int bytes "pyerr option" | MSetDevice int int | MLine modem_line | MClose

fun modem_step :: "pyenv \<Rightarrow> modem_act \<Rightarrow> modem_client \<Rightarrow> modem_client option" where
  "modem_step E (MDial call phone cerr werr) C = Some (snd (modem_dial cerr werr call phone C))"
| "modem_step E (MHangup call cerr werr) C = Some (snd (modem_hangup cerr werr call C))"
| "modem_step E (MIterate call) C = Some (ensure_session (show_int call) C)"
| "modem_step E (MAudioOut call chunk werr) C = Some (snd (modem_audio_out werr call chunk C))"
| "modem_step E (MSetDevice call dev) C = Some (modem_set_device call dev C)"
| "modem_step E (MLine l) C = (if mc_link C = Reading then Some (read_line E l C) else None)"
| "modem_step E MClose C = Some (modem_aclose C)"

section \<open>The mock\<close>

record mock_client =
  mk_delay_ms :: int
  mk_phones :: "int \<rightharpoonup> pystr"
  mk_events :: "int \<rightharpoonup> event_item list"
  mk_inbound :: "int \<rightharpoonup> audio_item list"
  mk_outbound_log :: "int \<rightharpoonup> bytes list"
  mk_connecting :: "int list"

definition new_mock :: "int \<Rightarrow> mock_client" where
  "new_mock delay = \<lparr>mk_delay_ms = delay, mk_phones = Map.empty, mk_events = Map.empty, mk_inbound = Map.empty,
     mk_outbound_log = Map.empty, mk_connecting = []\<rparr>"

definition mock_ensure_call :: "int \<Rightarrow> mock_client \<Rightarrow> mock_client" where
  "mock_ensure_call call C = (if mk_events C call \<noteq> None then C
     else C\<lparr>mk_events := (mk_events C)(call \<mapsto> []), mk_inbound := (mk_inbound C)(call \<mapsto> []),
            mk_outbound_log := setdefault (mk_outbound_log C) call\<rparr>)"

definition mock_close_call :: "int \<Rightarrow> mock_client \<Rightarrow> mock_client" where
  "mock_close_call call C = C\<lparr>mk_inbound := queue_put [Sentinel] call (mk_inbound C), mk_events := queue_put [TelSentinel] call (mk_events C)\<rparr>"

definition mock_emit :: "telephony_event \<Rightarrow> int \<Rightarrow> mock_client \<Rightarrow> mock_client" where
  "mock_emit e call C = C\<lparr>mk_events := queue_put [TelEvent e] call (mk_events C)\<rparr>"

definition mock_dial :: "int \<Rightarrow> pystr \<Rightarrow> mock_client \<Rightarrow> mock_client" where
  "mock_dial call phone C =
     (let C1 = mock_ensure_call call C;
          C2 = C1\<lparr>mk_phones := (mk_phones C1)(call \<mapsto> phone)\<rparr>
      in if mk_delay_ms C2 \<le> 0 then mock_emit TelConnected call C2 else C2\<lparr>mk_connecting := mk_connecting C2 @ [call]\<rparr>)"

definition mock_hangup :: "int \<Rightarrow> mock_client \<Rightarrow> mock_client" where
  "mock_hangup call C = mock_close_call call (mock_emit TelLocalHangup call (mock_ensure_call call C))"

definition simulate_remote_hangup :: "int \<Rightarrow> pystr option \<Rightarrow> mock_client \<Rightarrow> mock_client" where
  "simulate_remote_hangup call detail C = mock_close_call call (mock_emit (TelRemoteHangup detail) call (mock_ensure_call call C))"

definition inject_user_audio :: "int \<Rightarrow> bytes list \<Rightarrow> mock_client \<Rightarrow> mock_client" where
  "inject_user_audio call frames C =
     (let C1 = mock_ensure_call call C in C1\<lparr>mk_inbound := queue_put (map Pcm frames) call (mk_inbound C1)\<rparr>)"

definition mock_audio_out :: "int \<Rightarrow> bytes list \<Rightarrow> mock_client \<Rightarrow> mock_client" where
  "mock_audio_out call chunks C =
     (let C1 = mock_ensure_call call C in C1\<lparr>mk_outbound_log := queue_put chunks call (mk_outbound_log C1)\<rparr>)"

datatype mock_act = KDial int pystr | KConnected nat | KHangup int | KRemote int "pystr option" | KInject int "bytes list"
  | KAudioOut int "bytes list" | KIterate int

fun mock_step :: "mock_act \<Rightarrow> mock_client \<Rightarrow> mock_client option" where
  "mock_step (KDial call phone) C = Some (mock_dial call phone C)"
| "mock_step (KConnected i) C = (if i < length (mk_connecting C)
     then Some (mock_emit TelConnected (mk_connecting C ! i)
       (C\<lparr>mk_connecting := take i (mk_connecting C) @ drop (Suc i) (mk_connecting C)\<rparr>))
     else None)"
| "mock_step (KHangup call) C = Some (mock_hangup call C)"
| "mock_step (KRemote call detail) C = Some (simulate_remote_hangup call detail C)"
| "mock_step (KInject call frames) C = Some (inject_user_audio call frames C)"
| "mock_step (KAudioOut call chunks) C = Some (mock_audio_out call chunks C)"
| "mock_step (KIterate call) C = Some (mock_ensure_call call C)"

section \<open>Queues by key\<close>

definition queued :: "('k \<rightharpoonup> 'v list) \<Rightarrow> 'k \<Rightarrow> 'v list" where
  "queued m k = (case m k of Some q \<Rightarrow> q | None \<Rightarrow> [])"

lemma queued_setdefault [simp]: "queued (setdefault m k) j = queued m j"
  by (simp add: queued_def setdefault_def split: option.split)

lemma queued_put [simp]: "queued (queue_put xs k m) j = (if j = k \<and> m k \<noteq> None then queued m j @ xs else queued m j)"
  by (auto simp: queued_def queue_put_def split: option.split)

lemma queue_known [simp]: "(setdefault m k j = None) = (m j = None \<and> j \<noteq> k)" "(queue_put xs k m j = None) = (m j = None)"
  by (auto simp: setdefault_def queue_put_def split: option.split)

lemma dom_queues [simp]: "dom (setdefault m k) = insert k (dom m)" "dom (queue_put xs k m) = dom m"
  by (auto simp: setdefault_def queue_put_def split: option.splits if_splits)

section \<open>The contract\<close>

definition modem_stream :: "int \<Rightarrow> modem_client \<Rightarrow> event_item list" where
  "modem_stream call C = queued (mc_events C) (show_int call)"

text \<open>A session with an audio queue has an event queue.\<close>

definition modem_inv :: "modem_client \<Rightarrow> bool" where
  "modem_inv C \<longleftrightarrow> dom (mc_inbound C) \<subseteq> dom (mc_events C)"

definition mock_stream :: "int \<Rightarrow> mock_client \<Rightarrow> event_item list" where
  "mock_stream call C = queued (mk_events C) call"

definition mock_inv :: "mock_client \<Rightarrow> bool" where
  "mock_inv C \<longleftrightarrow> dom (mk_inbound C) = dom (mk_events C) \<and> set (mk_connecting C) \<subseteq> dom (mk_events C)"

lemmas modem_ops = modem_dial_def modem_hangup_def modem_audio_out_def modem_set_device_def modem_connect_def modem_write_def
  modem_emit_def ensure_session_def close_session_def modem_aclose_def

lemma grows_cases:
  "grows q (q @ [TelEvent TelConnected])" "final_event t \<Longrightarrow> grows q (q @ [TelEvent t, TelSentinel])"
  by (auto simp: grows_def)

lemma dispatch_emits: "emits (modem_stream call C) (modem_stream call (modem_dispatch E msg C))"
  by (simp add: modem_stream_def modem_dispatch_def modem_ops emits_def grows_cases final_event_def Let_def
      split: pyval.split option.split)

lemma dispatch_inv: "modem_inv C \<Longrightarrow> modem_inv (modem_dispatch E msg C)"
  by (simp add: modem_inv_def modem_dispatch_def modem_ops Let_def subset_insertI2 split: pyval.split option.split)

lemma broadcast_emits: "emits (modem_stream call C) (modem_stream call (broadcast_disconnect C))"
  by (simp add: modem_stream_def broadcast_disconnect_def queued_def emits_def grows_cases final_event_def split: option.split)

lemma broadcast_inv: "modem_inv C \<Longrightarrow> modem_inv (broadcast_disconnect C)"
  by (auto simp: modem_inv_def broadcast_disconnect_def dom_def split: option.split)

lemma modem_link_only [simp]:
  "modem_stream call (C\<lparr>mc_link := l\<rparr>) = modem_stream call C" "modem_inv (C\<lparr>mc_link := l\<rparr>) = modem_inv C"
  by (simp_all add: modem_stream_def modem_inv_def)

lemma modem_step_emits:
  assumes "modem_step E a C = Some C'"
  shows "emits (modem_stream call C) (modem_stream call C')"
proof (cases a)
  case (MLine l)
  then show ?thesis using assms dispatch_emits broadcast_emits
    by (auto simp: read_line_def split: if_splits modem_line.splits pyval.splits)
qed (use assms in \<open>auto simp: modem_stream_def modem_ops emits_def grows_cases final_event_def Let_def split: option.splits\<close>)

lemma modem_inv_parts [simp]:
  "modem_inv (C\<lparr>mc_written := w\<rparr>) = modem_inv C" "modem_inv (C\<lparr>mc_device_ids := d\<rparr>) = modem_inv C"
  "modem_inv (modem_emit e sid C) = modem_inv C" "modem_inv (close_session sid C) = modem_inv C"
  "modem_inv C \<Longrightarrow> modem_inv (ensure_session sid C)" "dom (mc_inbound C) \<subseteq> dom m \<Longrightarrow> modem_inv (C\<lparr>mc_events := setdefault m sid\<rparr>)"
  by (simp_all add: modem_inv_def modem_emit_def close_session_def ensure_session_def subset_insertI2)

lemma modem_step_inv:
  assumes "modem_inv C" and "modem_step E a C = Some C'"
  shows "modem_inv C'"
proof (cases a)
  case (MLine l)
  then show ?thesis using assms dispatch_inv broadcast_inv
    by (auto simp: read_line_def split: if_splits modem_line.splits pyval.splits)
qed (use assms assms(1) [unfolded modem_inv_def] in \<open>auto simp: modem_dial_def modem_hangup_def modem_audio_out_def modem_set_device_def modem_connect_def
    modem_write_def modem_aclose_def Let_def split: option.splits if_splits\<close>)

interpretation modem: telephony_stream "\<lambda>C. C = new_modem" "modem_step E" modem_inv modem_stream for E
proof
  show "modem_inv C" if "C = new_modem" for C using that by (simp add: modem_inv_def new_modem_def)
  show "modem_stream call C = []" if "C = new_modem" for C call using that by (simp add: new_modem_def modem_stream_def queued_def)
qed (auto intro: modem_step_inv modem_step_emits)

lemma ensure_call_fields [simp]:
  "mk_events (mock_ensure_call call C) = setdefault (mk_events C) call"
  "mk_connecting (mock_ensure_call call C) = mk_connecting C" "mk_delay_ms (mock_ensure_call call C) = mk_delay_ms C"
  by (auto simp: mock_ensure_call_def setdefault_def)

lemma ensure_call_inv: "mock_inv C \<Longrightarrow> mock_inv (mock_ensure_call call C)"
  by (auto simp: mock_inv_def mock_ensure_call_def)

lemmas mock_ops = mock_dial_def mock_hangup_def simulate_remote_hangup_def inject_user_audio_def mock_audio_out_def
  mock_emit_def mock_close_call_def

lemma mock_step_emits:
  assumes "mock_step a C = Some C'"
  shows "emits (mock_stream call C) (mock_stream call C')"
  using assms
  by (cases a) (auto simp: mock_stream_def mock_ops emits_def grows_cases final_event_def Let_def split: if_splits)

lemma mock_inv_parts [simp]:
  "mock_inv (C\<lparr>mk_phones := p\<rparr>) = mock_inv C" "mock_inv (C\<lparr>mk_outbound_log := l\<rparr>) = mock_inv C"
  "mock_inv (mock_emit e call C) = mock_inv C" "mock_inv (mock_close_call call C) = mock_inv C"
  "mock_inv (C\<lparr>mk_inbound := queue_put xs call (mk_inbound C)\<rparr>) = mock_inv C"
  by (simp_all add: mock_inv_def mock_emit_def mock_close_call_def)

lemma mock_step_inv:
  assumes "mock_inv C" and "mock_step a C = Some C'"
  shows "mock_inv C'"
proof (cases a)
  case (KDial call phone)
  have "mock_inv (mock_ensure_call call C)" using assms(1) by (rule ensure_call_inv)
  then show ?thesis using assms(2) KDial by (auto simp: mock_dial_def Let_def) (simp add: mock_inv_def)
next
  case (KConnected i)
  let ?xs = "take i (mk_connecting C) @ drop (Suc i) (mk_connecting C)"
  have "set ?xs \<subseteq> set (mk_connecting C)" by (auto dest: in_set_takeD in_set_dropD)
  also have "\<dots> \<subseteq> dom (mk_events C)" using assms(1) by (simp add: mock_inv_def)
  finally have "mock_inv (C\<lparr>mk_connecting := ?xs\<rparr>)" using assms(1) by (simp add: mock_inv_def)
  then show ?thesis using assms(2) KConnected by (auto split: if_splits)
qed (use assms ensure_call_inv [OF assms(1)]
    in \<open>auto simp: mock_hangup_def simulate_remote_hangup_def inject_user_audio_def mock_audio_out_def Let_def\<close>)

interpretation mock: telephony_stream "\<lambda>C. C = new_mock delay" mock_step mock_inv mock_stream for delay
proof
  show "mock_inv C" if "C = new_mock delay" for C using that by (simp add: mock_inv_def new_mock_def)
  show "mock_stream call C = []" if "C = new_mock delay" for C call using that by (simp add: new_mock_def mock_stream_def queued_def)
qed (auto intro: mock_step_inv mock_step_emits)

section \<open>Hanging up\<close>

lemma modem_hangup_final:
  assumes "fst (modem_hangup cerr werr call C) = None" and "\<not> stream_ended (modem_stream call C)"
  shows "modem_stream call (snd (modem_hangup cerr werr call C)) = modem_stream call C @ [TelEvent TelLocalHangup, TelSentinel]"
  using assms by (auto simp: modem_stream_def modem_ops Let_def split: option.splits if_splits)

lemma mock_hangup_final: "mock_stream call (mock_hangup call C) = mock_stream call C @ [TelEvent TelLocalHangup, TelSentinel]"
  by (simp add: mock_stream_def mock_ops)

section \<open>Audio of the modem\<close>

lemma b64_char_ascii: "n < 64 \<Longrightarrow> b64_char n < 128"
  by (auto simp: b64_char_def)

lemma b64encode_ascii: "list_all (\<lambda>c. c < 128) (b64encode bs)"
  by (induction bs rule: b64encode.induct) (simp_all add: b64_char_ascii sextets)

lemma a2b_encode: "a2b_base64 0 0 0 (b64encode bs) = Some bs"
proof (induction bs rule: b64encode.induct)
  case (1 a b c bs)
  then show ?case
    using b64_val_char [OF sextets(1) [of a]] b64_val_char [OF sextets(2) [of a b]] b64_val_char [OF sextets(3) [of b c]]
      b64_val_char [OF sextets(4) [of c]] byte_split(1) [of a b] byte_split(2) [of a b c] byte_split(3) [of b c]
    by simp
next
  case (2 a b)
  then show ?case
    using b64_val_char [OF sextets(1) [of a]] b64_val_char [OF sextets(2) [of a b]] b64_val_char [OF sextets(6) [of b]]
      byte_split(1) [of a b] byte_split(5) [of a b]
    by simp
next
  case (3 a)
  then show ?case
    using b64_val_char [OF sextets(1) [of a]] b64_val_char [OF sextets(5) [of a]] byte_split(4) [of a] by simp
qed simp

text \<open>Audio that the modem sends for a call, encoded as the protocol has it, reaches the audio of that call as the same bytes
  and behind what came before; no other call's audio and no event stream changes.\<close>

theorem modem_audio_delivered:
  assumes "dget msg (lit ''event'') = PStr (lit ''audio_upstream'')" and "dget msg (lit ''session_id'') = PStr (show_int call)"
    and "dget msg (lit ''pcm_chunk'') = PStr (b64encode chunk)"
  shows "queued (mc_inbound (modem_dispatch E msg C)) (show_int c) =
      (if c = call then queued (mc_inbound C) (show_int call) @ [Pcm chunk] else queued (mc_inbound C) (show_int c))
    \<and> modem_stream c (modem_dispatch E msg C) = modem_stream c C"
  using assms
  by (simp add: modem_dispatch_def Let_def parse_show_int py_b64decode_def b64encode_ascii a2b_encode ensure_session_def modem_stream_def)

theorem modem_audio_delivered_witness:
  "let msg = [(lit ''event'', PStr (lit ''audio_upstream'')), (lit ''session_id'', PStr (show_int 7)), (lit ''pcm_chunk'', PStr (b64encode [1, 2]))]
   in queued (mc_inbound (modem_dispatch demo_env msg new_modem)) (show_int 7) = [Pcm [1, 2]]"
proof -
  let ?msg = "[(lit ''event'', PStr (lit ''audio_upstream'')), (lit ''session_id'', PStr (show_int 7)), (lit ''pcm_chunk'', PStr (b64encode [1, 2]))]"
  have "queued (mc_inbound (modem_dispatch demo_env ?msg new_modem)) (show_int 7) = queued (mc_inbound new_modem) (show_int 7) @ [Pcm [1, 2]]"
    using modem_audio_delivered [of ?msg 7 "[1, 2]" demo_env new_modem 7] by (simp add: dget_def lit_def)
  then show ?thesis by (simp add: new_modem_def queued_def)
qed

section \<open>After the reader has ended\<close>

definition hangs_up :: "int \<Rightarrow> modem_act \<Rightarrow> bool" where
  "hangs_up call a = (case a of MHangup c cerr werr \<Rightarrow> c = call | _ \<Rightarrow> False)"

lemma ended_step:
  assumes "mc_link C = ReaderEnded" and "\<not> hangs_up call a" and "modem_step E a C = Some C'"
  shows "mc_link C' = ReaderEnded \<and> modem_stream call C' = modem_stream call C"
  using assms by (cases a) (auto simp: modem_stream_def modem_ops hangs_up_def Let_def split: option.splits)

lemma ended_run:
  "mc_link C = ReaderEnded \<Longrightarrow> list_all (\<lambda>a. \<not> hangs_up call a) as \<Longrightarrow> run_acts (modem_step E) as C = Some D \<Longrightarrow>
     modem_stream call D = modem_stream call C"
proof (induction as arbitrary: C)
  case (Cons a as)
  from Cons.prems(3) obtain C1 where c: "modem_step E a C = Some C1" and r: "run_acts (modem_step E) as C1 = Some D"
    by (auto split: option.splits)
  have e: "mc_link C1 = ReaderEnded" "modem_stream call C1 = modem_stream call C"
    using ended_step [OF Cons.prems(1) _ c] Cons.prems(2) by auto
  have "modem_stream call D = modem_stream call C1" using Cons.IH [OF e(1) _ r] Cons.prems(2) by simp
  then show ?case using e(2) by simp
qed simp



end
