(* ===== verification/Rtc_Session.thy ===== *)
theory Rtc_Session
  imports Rtc_Media "HOL-Library.Sublist"
begin

text \<open>
  One RTC session (\<^verbatim>\<open>transport/dingrtc/_session.py\<close>): the session itself, the production channel on top of the SDK binding, and
  the in-memory channel of \<^verbatim>\<open>transport/dingrtc/_in_memory.py\<close>.

  The SDK is a parameter: a production channel records the calls it makes on it, and \<open>sdk\<close> says, from the calls made so far, whether
  the last one raises. How a join ends (a result code, a timeout, a cancellation of the waiting task) is an argument of the
  join. The methods of a channel are a record of functions, as the protocol class has them; \<open>rtc_channel\<close> is the contract that a
  session relies on, interpreted for both channels. \<open>session_step\<close> interleaves joins, the drainer, the reader
  of the audio, pushes, leaves and frames arriving from the SDK. Of a frame, the timestamp is left out, which
  nothing reads.

  Shown: a reader gets a subsequence of the frames drained, in order, and the missing ones were refused by a full
  queue; an engine of the SDK that is created is destroyed, except after a cancelled join or a crash of the drainer; a leave
  waits for ever when nobody reads; pushes arrive as whole 10 ms frames.
\<close>

section \<open>Channels\<close>

record join_args =
  ja_channel :: pystr
  ja_token :: pystr
  ja_uid :: pystr
  ja_app_id :: pystr
  ja_rate :: int
  ja_channels :: int
  ja_gslb :: pystr

datatype join_outcome = JoinResult int | JoinTimeout | JoinCancelled

definition RtcError :: pyerr where "RtcError = OtherErr (lit ''RtcError'')"
definition RtcNotJoined :: pyerr where "RtcNotJoined = OtherErr (lit ''RtcNotJoined'')"
definition RtcPushBackpressure :: pyerr where "RtcPushBackpressure = OtherErr (lit ''RtcPushBackpressure'')"
definition DingRtcError :: pyerr where "DingRtcError = OtherErr (lit ''DingRtcError'')"
definition CancelledError :: pyerr where "CancelledError = OtherErr (lit ''CancelledError'')"
definition TimeoutError :: pyerr where "TimeoutError = OtherErr (lit ''TimeoutError'')"

record 'c channel_ops =
  ch_setup :: "join_args \<Rightarrow> join_outcome \<Rightarrow> 'c \<Rightarrow> pyerr option \<times> 'c"
  ch_leave :: "'c \<Rightarrow> 'c"
  ch_push :: "bytes \<Rightarrow> int \<Rightarrow> 'c \<Rightarrow> int res \<times> 'c"
  ch_drain :: "nat \<Rightarrow> 'c \<Rightarrow> rtc_frame list \<times> 'c"
  ch_arrive :: "rtc_frame \<Rightarrow> 'c \<Rightarrow> 'c"

section \<open>The production channel\<close>

datatype sdk_call = NewEngine | Create | SetEventListener | RegisterAudioObserver | EnableAudioFrameObserver
  | SetExternalAudioSource int int | PublishLocalAudio | UnpublishLocalVideo | SubscribeAllRemoteAudio | JoinChannel join_args
  | ClearCallbacks | LeaveChannel | UnregisterAudioObserver | Destroy | PushExternalAudio bytes int int int

type_synonym sdk = "sdk_call list \<Rightarrow> pyerr option"

record pybind_channel =
  pb_calls :: "sdk_call list"
  pb_engine :: bool
  pb_frame_buffer :: "rtc_frame list"
  pb_send_rate :: int
  pb_send_channels :: int

definition new_pybind :: pybind_channel where
  "new_pybind = \<lparr>pb_calls = [], pb_engine = False, pb_frame_buffer = [], pb_send_rate = 0, pb_send_channels = 0\<rparr>"

text \<open>Calls in a row; the first that raises ends them.\<close>

fun do_calls :: "sdk \<Rightarrow> sdk_call list \<Rightarrow> sdk_call list \<Rightarrow> pyerr option \<times> sdk_call list" where
  "do_calls sdk [] h = (None, h)"
| "do_calls sdk (c # cs) h = (case sdk (h @ [c]) of Some e \<Rightarrow> (Some e, h @ [c]) | None \<Rightarrow> do_calls sdk cs (h @ [c]))"

definition setup_calls :: "join_args \<Rightarrow> sdk_call list" where
  "setup_calls a = [Create, SetEventListener, RegisterAudioObserver, EnableAudioFrameObserver,
     SetExternalAudioSource (ja_rate a) (ja_channels a), PublishLocalAudio, UnpublishLocalVideo, SubscribeAllRemoteAudio, JoinChannel a]"

definition pybind_leave :: "pybind_channel \<Rightarrow> pybind_channel" where
  "pybind_leave c = (if \<not> pb_engine c then c
     else c\<lparr>pb_engine := False, pb_frame_buffer := [],
       pb_calls := pb_calls c @ [ClearCallbacks, LeaveChannel, UnregisterAudioObserver, Destroy]\<rparr>)"

definition pybind_setup_and_join :: "sdk \<Rightarrow> join_args \<Rightarrow> join_outcome \<Rightarrow> pybind_channel \<Rightarrow> pyerr option \<times> pybind_channel" where
  "pybind_setup_and_join sdk a out c =
     (let c1 = c\<lparr>pb_send_rate := ja_rate a, pb_send_channels := ja_channels a\<rparr> in
      case do_calls sdk (setup_calls a) (pb_calls c1 @ [NewEngine]) of
        (Some e, h) \<Rightarrow> (Some e, c1\<lparr>pb_calls := h @ [Destroy]\<rparr>)
      | (None, h) \<Rightarrow>
          (let c2 = c1\<lparr>pb_calls := h, pb_engine := True, pb_frame_buffer := []\<rparr> in
           case out of
             JoinTimeout \<Rightarrow> (Some RtcError, pybind_leave c2)
           | JoinCancelled \<Rightarrow> (Some CancelledError, c2)
           | JoinResult r \<Rightarrow> if r \<noteq> 0 then (Some RtcError, pybind_leave c2) else (None, c2)))"

text \<open>The frames of the SDK's 10 ms grid, the last one padded.\<close>

function sdk_frames :: "nat \<Rightarrow> bytes \<Rightarrow> bytes list" where
  "sdk_frames n pcm = (if n = 0 \<or> pcm = [] then []
     else (take n pcm @ replicate (n - length pcm) 0) # sdk_frames n (drop n pcm))"
  by pat_completeness auto
termination
  by (relation "measure (\<lambda>(n, pcm). length pcm)") auto

declare sdk_frames.simps [simp del]

fun stamp :: "int \<Rightarrow> int \<Rightarrow> int \<Rightarrow> bytes list \<Rightarrow> sdk_call list" where
  "stamp rate chans ts [] = []"
| "stamp rate chans ts (f # fs) = PushExternalAudio f rate chans ts # stamp rate chans (ts + 10) fs"

definition pybind_push_audio :: "sdk \<Rightarrow> bytes \<Rightarrow> int \<Rightarrow> pybind_channel \<Rightarrow> int res \<times> pybind_channel" where
  "pybind_push_audio sdk pcm ts c =
     (if \<not> pb_engine c then (Inl RtcNotJoined, c)
      else if pb_send_rate c \<le> 0 \<or> pb_send_channels c \<le> 0 then (Inl RtcNotJoined, c)
      else let frame_size = (pb_send_rate c div 100) * pb_send_channels c * 2 in
        if pcm = [] then (Inr 0, c)
        else if frame_size = 0 then (Inl ValueError, c)
        else case do_calls sdk (stamp (pb_send_rate c) (pb_send_channels c) ts (sdk_frames (nat frame_size) pcm)) (pb_calls c) of
          (None, h) \<Rightarrow> (Inr 0, c\<lparr>pb_calls := h\<rparr>)
        | (Some e, h) \<Rightarrow> (Inl (if e = DingRtcError then RtcError else e), c\<lparr>pb_calls := h\<rparr>))"

definition pybind_drain :: "nat \<Rightarrow> pybind_channel \<Rightarrow> rtc_frame list \<times> pybind_channel" where
  "pybind_drain n c = (if \<not> pb_engine c then ([], c)
     else (take n (pb_frame_buffer c), c\<lparr>pb_frame_buffer := drop n (pb_frame_buffer c)\<rparr>))"

text \<open>The SDK's ring of 64 frames overwrites the oldest.\<close>

definition pybind_arrive :: "rtc_frame \<Rightarrow> pybind_channel \<Rightarrow> pybind_channel" where
  "pybind_arrive f c = (if \<not> pb_engine c then c
     else c\<lparr>pb_frame_buffer := drop (length (pb_frame_buffer c) - 63) (pb_frame_buffer c) @ [f]\<rparr>)"

definition pybind_ops :: "sdk \<Rightarrow> pybind_channel channel_ops" where
  "pybind_ops sdk = \<lparr>ch_setup = pybind_setup_and_join sdk, ch_leave = pybind_leave, ch_push = pybind_push_audio sdk,
     ch_drain = pybind_drain, ch_arrive = pybind_arrive\<rparr>"

section \<open>The in-memory channel\<close>

record memory_channel =
  im_auto_complete_join :: bool
  im_joined :: bool
  im_inbound_frames :: "rtc_frame list"
  im_pushed :: "(bytes \<times> int) list"
  im_reject_next_push :: bool
  im_setup_calls :: "join_args list"

definition new_memory :: "bool \<Rightarrow> memory_channel" where
  "new_memory auto_join = \<lparr>im_auto_complete_join = auto_join, im_joined = False, im_inbound_frames = [], im_pushed = [],
     im_reject_next_push = False, im_setup_calls = []\<rparr>"

definition memory_setup_and_join :: "join_args \<Rightarrow> join_outcome \<Rightarrow> memory_channel \<Rightarrow> pyerr option \<times> memory_channel" where
  "memory_setup_and_join a out c =
     (let c1 = c\<lparr>im_setup_calls := im_setup_calls c @ [a]\<rparr> in
      case (if im_auto_complete_join c1 then JoinResult 0 else out) of
        JoinTimeout \<Rightarrow> (Some TimeoutError, c1)
      | JoinCancelled \<Rightarrow> (Some CancelledError, c1)
      | JoinResult r \<Rightarrow> if r \<noteq> 0 then (Some RtcError, c1) else (None, c1\<lparr>im_joined := True\<rparr>))"

definition memory_leave :: "memory_channel \<Rightarrow> memory_channel" where
  "memory_leave c = c\<lparr>im_joined := False\<rparr>"

definition memory_push_audio :: "bytes \<Rightarrow> int \<Rightarrow> memory_channel \<Rightarrow> int res \<times> memory_channel" where
  "memory_push_audio pcm ts c =
     (if \<not> im_joined c then (Inl RtcNotJoined, c)
      else if im_reject_next_push c then (Inl RtcPushBackpressure, c\<lparr>im_reject_next_push := False\<rparr>)
      else (Inr 0, c\<lparr>im_pushed := im_pushed c @ [(pcm, ts)]\<rparr>))"

definition memory_drain :: "nat \<Rightarrow> memory_channel \<Rightarrow> rtc_frame list \<times> memory_channel" where
  "memory_drain n c = (if im_inbound_frames c = [] then ([], c)
     else (take n (im_inbound_frames c), c\<lparr>im_inbound_frames := drop n (im_inbound_frames c)\<rparr>))"

definition inject_remote_pcm :: "rtc_frame \<Rightarrow> memory_channel \<Rightarrow> memory_channel" where
  "inject_remote_pcm f c = c\<lparr>im_inbound_frames := im_inbound_frames c @ [f]\<rparr>"

definition memory_ops :: "memory_channel channel_ops" where
  "memory_ops = \<lparr>ch_setup = memory_setup_and_join, ch_leave = memory_leave, ch_push = memory_push_audio,
     ch_drain = memory_drain, ch_arrive = inject_remote_pcm\<rparr>"

section \<open>The session\<close>

datatype drainer = NoDrainer | Draining | DrainerCrashed pyerr

record 'c rtc_session =
  se_channel :: 'c
  se_joined :: bool
  se_drainer :: drainer
  se_inbound :: "rtc_frame option aqueue"
  se_leaving :: nat
  se_arrived :: "rtc_frame list"
  se_drained :: "rtc_frame list"
  se_refused :: nat
  se_read :: "rtc_frame option list"

definition new_rtc_session :: "int \<Rightarrow> 'c \<Rightarrow> 'c rtc_session" where
  "new_rtc_session buffer_size c = \<lparr>se_channel = c, se_joined = False, se_drainer = NoDrainer, se_inbound = new_queue buffer_size,
     se_leaving = 0, se_arrived = [], se_drained = [], se_refused = 0, se_read = []\<rparr>"

definition session_join :: "'c channel_ops \<Rightarrow> join_args \<Rightarrow> join_outcome \<Rightarrow> 'c rtc_session \<Rightarrow> pyerr option \<times> 'c rtc_session" where
  "session_join ops a out s =
     (if se_joined s then (Some RtcError, s)
      else case ch_setup ops a out (se_channel s) of
        (Some e, c) \<Rightarrow> (Some e, s\<lparr>se_channel := c\<rparr>)
      | (None, c) \<Rightarrow> (None, s\<lparr>se_channel := c, se_joined := True, se_drainer := Draining\<rparr>))"

text \<open>A leave that finds the queue full waits; \<open>session_leave_put\<close> continues it.\<close>

definition put_end :: "'c rtc_session \<Rightarrow> 'c rtc_session" where
  "put_end s = (case put_nowait None (se_inbound s) of
       Some q \<Rightarrow> s\<lparr>se_inbound := q\<rparr>
     | None \<Rightarrow> s\<lparr>se_leaving := Suc (se_leaving s)\<rparr>)"

definition session_leave :: "'c channel_ops \<Rightarrow> 'c rtc_session \<Rightarrow> pyerr option \<times> 'c rtc_session" where
  "session_leave ops s =
     (if \<not> se_joined s then (None, s)
      else case se_drainer s of
        DrainerCrashed e \<Rightarrow> (Some e, s\<lparr>se_joined := False\<rparr>)
      | _ \<Rightarrow> (None, put_end (s\<lparr>se_joined := False, se_drainer := NoDrainer, se_channel := ch_leave ops (se_channel s)\<rparr>)))"

definition session_leave_put :: "'c rtc_session \<Rightarrow> 'c rtc_session option" where
  "session_leave_put s = (if se_leaving s = 0 then None
     else map_option (\<lambda>q. s\<lparr>se_inbound := q, se_leaving := se_leaving s - 1\<rparr>) (put_nowait None (se_inbound s)))"

text \<open>What the drainer makes of a raw frame: falsy attributes get their defaults.\<close>

definition pcm_frame :: "rtc_frame \<Rightarrow> rtc_frame" where
  "pcm_frame raw = raw\<lparr>fr_channels := (if fr_channels raw = 0 then 1 else fr_channels raw)\<rparr>"

definition offer :: "rtc_frame \<Rightarrow> 'c rtc_session \<Rightarrow> 'c rtc_session" where
  "offer raw s = (case put_nowait (Some (pcm_frame raw)) (se_inbound s) of
       Some q \<Rightarrow> s\<lparr>se_inbound := q, se_drained := se_drained s @ [raw]\<rparr>
     | None \<Rightarrow> s\<lparr>se_refused := Suc (se_refused s), se_drained := se_drained s @ [raw]\<rparr>)"

definition drain_inbound :: "'c channel_ops \<Rightarrow> 'c rtc_session \<Rightarrow> 'c rtc_session option" where
  "drain_inbound ops s =
     (if se_joined s \<and> se_drainer s = Draining
      then let (frames, c) = ch_drain ops 8 (se_channel s) in Some (fold offer frames (s\<lparr>se_channel := c\<rparr>))
      else None)"

definition session_push_audio :: "'c channel_ops \<Rightarrow> bytes \<Rightarrow> int \<Rightarrow> 'c rtc_session \<Rightarrow> pyerr option \<times> 'c rtc_session" where
  "session_push_audio ops pcm ts s =
     (if \<not> se_joined s then (Some RtcNotJoined, s)
      else case ch_push ops pcm ts (se_channel s) of
        (Inl e, c) \<Rightarrow> (Some e, s\<lparr>se_channel := c\<rparr>)
      | (Inr rc, c) \<Rightarrow> (if rc \<noteq> 0 then Some RtcError else None, s\<lparr>se_channel := c\<rparr>))"

definition audio_frames_next :: "'c rtc_session \<Rightarrow> 'c rtc_session option" where
  "audio_frames_next s = (case get_nowait (se_inbound s) of
       None \<Rightarrow> None
     | Some (x, q) \<Rightarrow> Some (s\<lparr>se_inbound := q, se_read := se_read s @ [x]\<rparr>))"

datatype session_act = SJoin join_args join_outcome | SLeave | SLeavePut | SDrain | SDrainCrash pyerr | SPush bytes int
  | SNext | SArrive rtc_frame

fun session_step :: "'c channel_ops \<Rightarrow> session_act \<Rightarrow> 'c rtc_session \<Rightarrow> 'c rtc_session option" where
  "session_step ops (SJoin a out) s = Some (snd (session_join ops a out s))"
| "session_step ops SLeave s = Some (snd (session_leave ops s))"
| "session_step ops SLeavePut s = session_leave_put s"
| "session_step ops SDrain s = drain_inbound ops s"
| "session_step ops (SDrainCrash e) s =
     (if se_joined s \<and> se_drainer s = Draining then Some (s\<lparr>se_drainer := DrainerCrashed e\<rparr>) else None)"
| "session_step ops (SPush pcm ts) s = Some (snd (session_push_audio ops pcm ts s))"
| "session_step ops SNext s = audio_frames_next s"
| "session_step ops (SArrive f) s = Some (s\<lparr>se_channel := ch_arrive ops f (se_channel s), se_arrived := se_arrived s @ [f]\<rparr>)"

section \<open>The contract of a channel\<close>

locale rtc_channel =
  fixes ops :: "'c channel_ops"
    and up :: "'c \<Rightarrow> bool"
    and pending :: "'c \<Rightarrow> rtc_frame list"
  assumes setup_up: "ch_setup ops a out c = (None, c') \<Longrightarrow> up c'"
    and setup_down: "ch_setup ops a out c = (Some e, c') \<Longrightarrow> out \<noteq> JoinCancelled \<Longrightarrow> \<not> up c \<Longrightarrow> \<not> up c'"
    and setup_pending: "ch_setup ops a out c = (r, c') \<Longrightarrow> subseq (pending c') (pending c)"
    and leave_down: "\<not> up (ch_leave ops c)"
    and leave_pending: "subseq (pending (ch_leave ops c)) (pending c)"
    and push_down: "\<not> up c \<Longrightarrow> ch_push ops pcm ts c = (Inl RtcNotJoined, c)"
    and push_keeps: "ch_push ops pcm ts c = (rc, c') \<Longrightarrow> up c' = up c \<and> pending c' = pending c"
    and drain_fifo: "ch_drain ops n c = (fs, c') \<Longrightarrow> pending c = fs @ pending c' \<and> length fs \<le> n \<and> up c' = up c"
    and arrive_keeps: "up (ch_arrive ops f c) = up c \<and> subseq (pending (ch_arrive ops f c)) (pending c @ [f])"

text \<open>The frames of a queue without its end marks, and what a session keeps of the frames that arrive.\<close>

definition frames_of :: "rtc_frame option list \<Rightarrow> rtc_frame list" where
  "frames_of xs = concat (map (case_option [] (\<lambda>f. [f])) xs)"

lemma frames_of_simps [simp]:
  "frames_of [] = []" "frames_of (None # xs) = frames_of xs" "frames_of (Some f # xs) = f # frames_of xs"
  "frames_of (xs @ ys) = frames_of xs @ frames_of ys"
  by (simp_all add: frames_of_def)

definition kept :: "'c rtc_session \<Rightarrow> rtc_frame list" where
  "kept s = frames_of (se_read s) @ frames_of (items (se_inbound s))"

definition queue_ok :: "'c rtc_session \<Rightarrow> bool" where
  "queue_ok s \<longleftrightarrow> subseq (kept s) (map pcm_frame (se_drained s))
     \<and> length (kept s) + se_refused s = length (se_drained s)
     \<and> (0 < maxsize (se_inbound s) \<longrightarrow> int (length (items (se_inbound s))) \<le> maxsize (se_inbound s))"

lemma subseq_snoc: "subseq xs ys \<Longrightarrow> subseq (xs @ [z]) (ys @ [z])"
  by simp

lemma subseq_front: "subseq xs (xs @ ys)"
  by (induction xs) auto

lemma subseq_behind: "subseq xs ys \<Longrightarrow> subseq (zs @ xs) (zs @ ys)"
  by (induction zs) auto

lemma subseq_longer: "subseq xs ys \<Longrightarrow> subseq xs (ys @ zs)"
  using subseq_order.trans subseq_front by blast

lemma put_items:
  "put_nowait x q = Some q' \<Longrightarrow> items q' = items q @ [x] \<and> maxsize q' = maxsize q
     \<and> (0 < maxsize q \<longrightarrow> int (length (items q)) < maxsize q)"
  by (auto simp: put_nowait_def qfull_def split: if_splits)

lemma offer_ok: "queue_ok s \<Longrightarrow> queue_ok (offer raw s)"
  by (auto simp: queue_ok_def offer_def kept_def subseq_longer simp flip: append_assoc dest!: put_items split: option.split)

lemma offer_fields [simp]:
  "se_channel (offer raw s) = se_channel s" "se_joined (offer raw s) = se_joined s" "se_arrived (offer raw s) = se_arrived s"
  "se_drained (offer raw s) = se_drained s @ [raw]" "se_drainer (offer raw s) = se_drainer s" "se_leaving (offer raw s) = se_leaving s"
  by (auto simp: offer_def split: option.split)

lemma fold_offer_ok: "queue_ok s \<Longrightarrow> queue_ok (fold offer fs s)"
  by (induction fs arbitrary: s) (simp_all add: offer_ok)

lemma fold_offer_fields [simp]:
  "se_channel (fold offer fs s) = se_channel s" "se_joined (fold offer fs s) = se_joined s"
  "se_arrived (fold offer fs s) = se_arrived s" "se_drained (fold offer fs s) = se_drained s @ fs"
  "se_drainer (fold offer fs s) = se_drainer s" "se_leaving (fold offer fs s) = se_leaving s"
  by (induction fs arbitrary: s) simp_all

lemma queue_ok_cong:
  "queue_ok s \<Longrightarrow> se_read s' = se_read s \<Longrightarrow> se_inbound s' = se_inbound s \<Longrightarrow> se_drained s' = se_drained s \<Longrightarrow>
     se_refused s' = se_refused s \<Longrightarrow> queue_ok s'"
  by (simp add: queue_ok_def kept_def)

lemma put_end_ok: "queue_ok s \<Longrightarrow> queue_ok (put_end s)"
  by (auto simp: put_end_def queue_ok_def kept_def dest!: put_items split: option.split)

lemma put_end_fields [simp]:
  "se_channel (put_end s) = se_channel s" "se_joined (put_end s) = se_joined s" "se_arrived (put_end s) = se_arrived s"
  "se_drained (put_end s) = se_drained s" "se_drainer (put_end s) = se_drainer s"
  by (auto simp: put_end_def split: option.split)

lemma next_ok:
  assumes "queue_ok s" and "audio_frames_next s = Some s'"
  shows "queue_ok s'"
proof -
  obtain x xs where i: "items (se_inbound s) = x # xs" "s' = s\<lparr>se_inbound := (se_inbound s)\<lparr>items := xs\<rparr>, se_read := se_read s @ [x]\<rparr>"
    using assms(2) by (auto simp: audio_frames_next_def get_nowait_def split: list.splits)
  then have "kept s' = kept s" by (cases x) (simp_all add: kept_def)
  then show ?thesis using assms(1) i by (auto simp: queue_ok_def)
qed

lemma leave_put_ok: "queue_ok s \<Longrightarrow> session_leave_put s = Some s' \<Longrightarrow> queue_ok s'"
  by (auto simp: session_leave_put_def queue_ok_def kept_def dest!: put_items split: if_splits)

context rtc_channel
begin

text \<open>What a session keeps over any channel: while it is joined the channel is up, the reader's frames are drained frames in
  order, and drained frames are arrived frames in order.\<close>

definition session_inv :: "'c rtc_session \<Rightarrow> bool" where
  "session_inv s \<longleftrightarrow> queue_ok s \<and> (se_joined s \<longrightarrow> up (se_channel s))
     \<and> subseq (se_drained s @ pending (se_channel s)) (se_arrived s)"

lemma session_invI:
  "queue_ok s \<Longrightarrow> (se_joined s \<Longrightarrow> up (se_channel s)) \<Longrightarrow> subseq (se_drained s @ pending (se_channel s)) (se_arrived s)
     \<Longrightarrow> session_inv s"
  by (simp add: session_inv_def)

lemma pending_less:
  assumes "subseq (ds @ pending c) as" and "subseq (pending c') (pending c)"
  shows "subseq (ds @ pending c') as"
  using subseq_order.trans [OF subseq_behind [OF assms(2)] assms(1)] .

lemma join_inv:
  assumes "session_inv s"
  shows "session_inv (snd (session_join ops a out s))"
proof (cases "ch_setup ops a out (se_channel s)")
  case (Pair r c)
  have p: "subseq (se_drained s @ pending c) (se_arrived s)"
    using assms pending_less setup_pending [OF Pair] unfolding session_inv_def by blast
  show ?thesis
  proof (cases "se_joined s")
    case False
    show ?thesis
    proof (cases r)
      case None
      then show ?thesis using assms p Pair False setup_up [of a out "se_channel s" c]
        by (auto simp: session_join_def session_inv_def intro: queue_ok_cong)
    next
      case (Some e)
      then show ?thesis using assms p Pair False by (auto simp: session_join_def session_inv_def intro: queue_ok_cong)
    qed
  qed (use assms in \<open>simp add: session_join_def\<close>)
qed

lemma leave_inv:
  assumes "session_inv s"
  shows "session_inv (snd (session_leave ops s))"
proof -
  let ?t = "s\<lparr>se_joined := False, se_drainer := NoDrainer, se_channel := ch_leave ops (se_channel s)\<rparr>"
  have q: "queue_ok s" using assms by (simp add: session_inv_def)
  have t: "session_inv (put_end ?t)"
  proof (rule session_invI)
    show "queue_ok (put_end ?t)" by (rule put_end_ok) (rule queue_ok_cong [OF q]; simp)
    show "subseq (se_drained (put_end ?t) @ pending (se_channel (put_end ?t))) (se_arrived (put_end ?t))"
      using assms pending_less leave_pending unfolding session_inv_def by simp blast
  qed simp
  have c: "session_inv (s\<lparr>se_joined := False\<rparr>)" using assms by (auto simp: session_inv_def intro: queue_ok_cong)
  show ?thesis using assms t c by (simp add: session_leave_def split: drainer.split)
qed

lemma drain_inv:
  assumes "session_inv s" and "drain_inbound ops s = Some s'"
  shows "session_inv s'"
proof -
  obtain fs c where d: "ch_drain ops 8 (se_channel s) = (fs, c)" by fastforce
  have s': "s' = fold offer fs (s\<lparr>se_channel := c\<rparr>)" using assms(2) d by (auto simp: drain_inbound_def split: if_splits)
  have f: "pending (se_channel s) = fs @ pending c" "up c = up (se_channel s)" using drain_fifo [OF d] by auto
  have "queue_ok (s\<lparr>se_channel := c\<rparr>)" by (rule queue_ok_cong [of s]) (use assms(1) in \<open>auto simp: session_inv_def\<close>)
  then show ?thesis using assms(1) f fold_offer_ok unfolding s' session_inv_def by auto
qed

lemma session_step_inv:
  assumes "session_inv s" and "session_step ops a s = Some s'"
  shows "session_inv s'"
proof (cases a)
  case (SPush pcm ts)
  obtain r c where p: "ch_push ops pcm ts (se_channel s) = (r, c)" by fastforce
  then show ?thesis using SPush assms push_keeps [OF p]
    by (auto simp: session_push_audio_def session_inv_def intro: queue_ok_cong split: sum.splits if_splits)
next
  case (SArrive f)
  have "subseq (se_drained s @ pending (ch_arrive ops f (se_channel s))) (se_drained s @ pending (se_channel s) @ [f])"
    by (rule subseq_behind) (use arrive_keeps in blast)
  also have "subseq (se_drained s @ pending (se_channel s) @ [f]) (se_arrived s @ [f])"
    using assms(1) subseq_snoc unfolding session_inv_def by fastforce
  finally show ?thesis using SArrive assms arrive_keeps [of f "se_channel s"]
    by (auto simp: session_inv_def intro: queue_ok_cong)
next
  case SNext
  then have "queue_ok s'" using assms next_ok by (auto simp: session_inv_def)
  then show ?thesis using SNext assms by (auto simp: session_inv_def audio_frames_next_def split: option.splits)
next
  case SLeavePut
  then have "queue_ok s'" using assms leave_put_ok by (auto simp: session_inv_def)
  then show ?thesis using SLeavePut assms by (auto simp: session_inv_def session_leave_put_def split: if_splits)
next
  case (SDrainCrash e)
  then show ?thesis using assms by (auto simp: session_inv_def intro: queue_ok_cong split: if_splits)
qed (use assms join_inv leave_inv drain_inv in auto)

lemma reach_session_inv:
  assumes "reach (\<lambda>s. s = new_rtc_session n c) (session_step ops) s" and "pending c = []"
  shows "session_inv s"
  using assms(1)
proof (induction rule: reach.induct)
  case (reach_init s)
  then show ?case using assms(2) by (simp add: session_inv_def new_rtc_session_def queue_ok_def kept_def new_queue_def)
next
  case (reach_step s a s')
  then show ?case using session_step_inv by blast
qed

text \<open>End to end: what the reader got is a subsequence of what arrived.\<close>

lemma reader_in_order:
  assumes "session_inv s"
  shows "subseq (frames_of (se_read s)) (map pcm_frame (se_arrived s))
    \<and> length (frames_of (se_read s)) + length (frames_of (items (se_inbound s))) + se_refused s = length (se_drained s)"
proof -
  have "subseq (frames_of (se_read s)) (kept s)" by (simp add: kept_def subseq_front)
  moreover have "subseq (kept s) (map pcm_frame (se_drained s))" using assms by (simp add: session_inv_def queue_ok_def)
  moreover have "subseq (se_drained s) (se_arrived s)"
    using assms subseq_order.trans [OF subseq_front] unfolding session_inv_def by blast
  ultimately have "subseq (frames_of (se_read s)) (map pcm_frame (se_arrived s))"
    using subseq_map subseq_order.trans by metis
  then show ?thesis using assms by (simp add: session_inv_def queue_ok_def kept_def)
qed

end

section \<open>The two channels\<close>

lemma pybind_leave_fields [simp]: "\<not> pb_engine (pybind_leave c)" "subseq (pb_frame_buffer (pybind_leave c)) (pb_frame_buffer c)"
  by (simp_all add: pybind_leave_def)

lemma pybind_leave_empty: "pb_engine c \<Longrightarrow> pb_frame_buffer (pybind_leave c) = []"
  by (simp add: pybind_leave_def)

lemma pybind_setup_cases:
  assumes "pybind_setup_and_join sdk a out c = (r, c')"
  shows "r = None \<and> pb_engine c' \<and> pb_frame_buffer c' = []
    \<or> r \<noteq> None \<and> \<not> pb_engine c' \<and> pb_frame_buffer c' = []
    \<or> r \<noteq> None \<and> pb_engine c' = pb_engine c \<and> pb_frame_buffer c' = pb_frame_buffer c
    \<or> out = JoinCancelled \<and> r \<noteq> None \<and> pb_frame_buffer c' = []"
  using assms
  by (auto simp: pybind_setup_and_join_def Let_def pybind_leave_empty split: prod.splits option.splits join_outcome.splits if_splits)

lemma ring_subseq: "subseq (drop n xs) xs"
  by (metis append_take_drop_id list_emb_append2 subseq_order.refl)

interpretation pybind: rtc_channel "pybind_ops sdk" pb_engine pb_frame_buffer for sdk
proof
  show "pb_engine c'" if "ch_setup (pybind_ops sdk) a out c = (None, c')" for a out c c'
    using that pybind_setup_cases [of sdk a out c None c'] by (auto simp: pybind_ops_def)
  show "\<not> pb_engine c'" if "ch_setup (pybind_ops sdk) a out c = (Some e, c')" "out \<noteq> JoinCancelled" "\<not> pb_engine c" for a out c c' e
    using that pybind_setup_cases [of sdk a out c "Some e" c'] by (auto simp: pybind_ops_def)
  show "subseq (pb_frame_buffer c') (pb_frame_buffer c)" if "ch_setup (pybind_ops sdk) a out c = (r, c')" for a out c c' r
    using that pybind_setup_cases [of sdk a out c r c'] by (auto simp: pybind_ops_def)
  show "pb_frame_buffer c = fs @ pb_frame_buffer c' \<and> length fs \<le> n \<and> pb_engine c' = pb_engine c"
    if "ch_drain (pybind_ops sdk) n c = (fs, c')" for n c fs c'
    using that by (auto simp: pybind_ops_def pybind_drain_def split: if_splits)
  show "pb_engine (ch_arrive (pybind_ops sdk) f c) = pb_engine c
      \<and> subseq (pb_frame_buffer (ch_arrive (pybind_ops sdk) f c)) (pb_frame_buffer c @ [f])" for f c
    by (simp add: pybind_ops_def pybind_arrive_def ring_subseq subseq_front)
qed (auto simp: pybind_ops_def pybind_push_audio_def Let_def split: if_splits prod.splits option.splits)

interpretation memory: rtc_channel memory_ops im_joined im_inbound_frames
proof
  show "im_inbound_frames c = fs @ im_inbound_frames c' \<and> length fs \<le> n \<and> im_joined c' = im_joined c"
    if "ch_drain memory_ops n c = (fs, c')" for n c fs c'
    using that by (auto simp: memory_ops_def memory_drain_def split: if_splits)
qed (auto simp: memory_ops_def memory_setup_and_join_def memory_leave_def memory_push_audio_def inject_remote_pcm_def Let_def
    split: if_splits join_outcome.splits)

text \<open>C16. Whatever joins, leaves, pushes, crashes and arriving frames are interleaved, the reader of a session over the SDK gets frames that
  arrived, in the order of arrival and none twice; every drained frame was read, waits in the queue, or was refused by
  a full queue; and while the session is joined its engine is alive.\<close>

theorem session_audio_in_order:
  assumes "reach (\<lambda>s. s = new_rtc_session n new_pybind) (session_step (pybind_ops sdk)) s"
  shows "subseq (frames_of (se_read s)) (map pcm_frame (se_arrived s))
    \<and> length (frames_of (se_read s)) + length (frames_of (items (se_inbound s))) + se_refused s = length (se_drained s)
    \<and> (se_joined s \<longrightarrow> pb_engine (se_channel s))"
proof -
  have "pybind.session_inv s" using assms by (rule pybind.reach_session_inv) (simp add: new_pybind_def)
  then show ?thesis using pybind.reader_in_order by (simp add: pybind.session_inv_def)
qed

section \<open>Engines\<close>

lemma do_calls_log: "do_calls sdk cs h = (r, h') \<Longrightarrow> \<exists>xs. h' = h @ xs \<and> set xs \<subseteq> set cs"
proof (induction cs arbitrary: h)
  case (Cons c cs)
  show ?case
  proof (cases "sdk (h @ [c])")
    case None
    then have "do_calls sdk cs (h @ [c]) = (r, h')" using Cons.prems by simp
    then obtain xs where "h' = (h @ [c]) @ xs" "set xs \<subseteq> set cs" using Cons.IH by blast
    then show ?thesis by (intro exI [of _ "c # xs"]) auto
  next
    case (Some e)
    then show ?thesis using Cons.prems by (intro exI [of _ "[c]"]) auto
  qed
qed simp

definition engines :: "sdk_call list \<Rightarrow> int" where
  "engines h = int (count_list h NewEngine) - int (count_list h Destroy)"

lemma engines_append [simp]: "engines (xs @ ys) = engines xs + engines ys"
  by (simp add: engines_def)

lemma engines_calls [simp]: "engines [NewEngine] = 1" "engines [Destroy] = - 1"
    "engines [ClearCallbacks, LeaveChannel, UnregisterAudioObserver, Destroy] = - 1"
  by (simp_all add: engines_def)

lemma engines_other: "NewEngine \<notin> set xs \<Longrightarrow> Destroy \<notin> set xs \<Longrightarrow> engines xs = 0"
  by (simp add: engines_def)

lemma do_calls_engines:
  assumes "do_calls sdk cs h = (r, h')" and "NewEngine \<notin> set cs" and "Destroy \<notin> set cs"
  shows "engines h' = engines h"
proof -
  obtain xs where x: "h' = h @ xs" "set xs \<subseteq> set cs" using do_calls_log [OF assms(1)] by blast
  then have "engines xs = 0" using assms(2,3) by (intro engines_other) blast+
  then show ?thesis by (simp add: x(1))
qed

lemma stamp_calls: "NewEngine \<notin> set (stamp rate chans ts fs) \<and> Destroy \<notin> set (stamp rate chans ts fs)"
  by (induction fs arbitrary: ts) auto

definition alive :: "pybind_channel \<Rightarrow> int" where
  "alive c = (if pb_engine c then 1 else 0)"

text \<open>Every engine made is destroyed or the one in use.\<close>

definition balanced :: "pybind_channel rtc_session \<Rightarrow> bool" where
  "balanced s \<longleftrightarrow> engines (pb_calls (se_channel s)) = (if se_joined s then 1 else 0)
     \<and> pb_engine (se_channel s) = se_joined s \<and> (\<forall>e. se_drainer s \<noteq> DrainerCrashed e)"

definition unclean :: "session_act \<Rightarrow> bool" where
  "unclean a = (case a of SJoin args out \<Rightarrow> out = JoinCancelled | SDrainCrash e \<Rightarrow> True | _ \<Rightarrow> False)"

lemma leave_engines: "engines (pb_calls (pybind_leave c)) = engines (pb_calls c) - alive c"
  by (simp add: pybind_leave_def alive_def)

lemma setup_engines:
  assumes "pybind_setup_and_join sdk a out c = (r, c')" and "\<not> pb_engine c" and "out \<noteq> JoinCancelled"
  shows "engines (pb_calls c') = engines (pb_calls c) + (if r = None then 1 else 0) \<and> pb_engine c' = (r = None)"
proof -
  obtain r1 h where d: "do_calls sdk (setup_calls a) (pb_calls c @ [NewEngine]) = (r1, h)" by fastforce
  have "engines h = engines (pb_calls c) + 1"
    using do_calls_engines [OF d] by (simp add: setup_calls_def)
  then show ?thesis using assms d
    by (auto simp: pybind_setup_and_join_def Let_def pybind_leave_def split: option.splits join_outcome.splits if_splits)
qed

lemma push_engines:
  assumes "pybind_push_audio sdk pcm ts c = (r, c')"
  shows "engines (pb_calls c') = engines (pb_calls c) \<and> pb_engine c' = pb_engine c"
proof -
  let ?cs = "stamp (pb_send_rate c) (pb_send_channels c) ts (sdk_frames (nat (pb_send_rate c div 100 * pb_send_channels c * 2)) pcm)"
  obtain r1 h where d: "do_calls sdk ?cs (pb_calls c) = (r1, h)" by fastforce
  have "engines h = engines (pb_calls c)" using do_calls_engines [OF d] stamp_calls by blast
  then show ?thesis using assms d by (auto simp: pybind_push_audio_def Let_def split: if_splits option.splits)
qed

lemma balanced_step:
  assumes "balanced s" and "\<not> unclean a" and "session_step (pybind_ops sdk) a s = Some s'"
  shows "balanced s'"
proof (cases a)
  case (SJoin args out)
  obtain r c where j: "pybind_setup_and_join sdk args out (se_channel s) = (r, c)" by fastforce
  then show ?thesis using SJoin assms setup_engines [OF j]
    by (cases "se_joined s"; cases r) (auto simp: balanced_def session_join_def pybind_ops_def unclean_def)
next
  case SLeave
  then show ?thesis using assms leave_engines [of "se_channel s"]
    by (auto simp: balanced_def session_leave_def pybind_ops_def alive_def split: drainer.splits)
next
  case (SPush pcm ts)
  obtain r c where p: "pybind_push_audio sdk pcm ts (se_channel s) = (r, c)" by fastforce
  then show ?thesis using SPush assms push_engines [OF p]
    by (auto simp: balanced_def session_push_audio_def pybind_ops_def split: sum.splits if_splits)
qed (use assms in \<open>auto simp: balanced_def unclean_def pybind_ops_def pybind_drain_def pybind_arrive_def drain_inbound_def
    session_leave_put_def audio_frames_next_def split: if_splits option.splits\<close>)

lemma balanced_run:
  "balanced s \<Longrightarrow> list_all (\<lambda>a. \<not> unclean a) as \<Longrightarrow> run_acts (session_step (pybind_ops sdk)) as s = Some s' \<Longrightarrow> balanced s'"
  by (induction as arbitrary: s) (auto split: option.splits intro: balanced_step)

text \<open>C17. Engines of the SDK are not leaked: in every run in which no join is cancelled and the drainer does not crash, whatever the SDK
  refuses and however joins end, the engines made and not yet destroyed are exactly one while the session is joined and
  none otherwise.\<close>

theorem engines_are_released:
  assumes "run_acts (session_step (pybind_ops sdk)) as (new_rtc_session n new_pybind) = Some s" and "list_all (\<lambda>a. \<not> unclean a) as"
  shows "int (count_list (pb_calls (se_channel s)) NewEngine) - int (count_list (pb_calls (se_channel s)) Destroy)
    = (if se_joined s then 1 else 0)"
proof -
  have "balanced (new_rtc_session n new_pybind)" by (simp add: balanced_def new_rtc_session_def new_pybind_def engines_def)
  then show ?thesis using balanced_run [OF _ assms(2,1)] by (simp add: balanced_def engines_def)
qed

text \<open>After a crash of the drainer the leave fails half-way, and the engine stays.\<close>

definition joins :: "session_act \<Rightarrow> bool" where
  "joins a = (case a of SJoin args out \<Rightarrow> True | _ \<Rightarrow> False)"

definition abandoned :: "int \<Rightarrow> pybind_channel rtc_session \<Rightarrow> bool" where
  "abandoned n s \<longleftrightarrow> \<not> se_joined s \<and> pb_engine (se_channel s) \<and> engines (pb_calls (se_channel s)) = n"

lemma abandoned_step:
  assumes "abandoned n s" and "\<not> joins a" and "session_step (pybind_ops sdk) a s = Some s'"
  shows "abandoned n s'"
  using assms
  by (cases a) (auto simp: abandoned_def joins_def pybind_ops_def pybind_arrive_def drain_inbound_def session_leave_def
      session_push_audio_def session_leave_put_def audio_frames_next_def split: if_splits option.splits)

lemma abandoned_run:
  "abandoned n s \<Longrightarrow> list_all (\<lambda>a. \<not> joins a) as \<Longrightarrow> run_acts (session_step (pybind_ops sdk)) as s = Some s' \<Longrightarrow> abandoned n s'"
  by (induction as arbitrary: s) (auto split: option.splits intro: abandoned_step)

text \<open>C40. When the drainer has crashed, leaving the session raises the drainer's error before the channel is left; the session counts as
  left all the same, so no later leave does anything, and the engine is never destroyed, whatever else happens to the
  session.\<close>

theorem crashed_drainer_leaks_engine:
  assumes "se_joined s" and "pb_engine (se_channel s)" and "se_drainer s = DrainerCrashed e"
    and "session_leave (pybind_ops sdk) s = (r, s')"
    and "list_all (\<lambda>a. \<not> joins a) as" and "run_acts (session_step (pybind_ops sdk)) as s' = Some t"
  shows "r = Some e \<and> \<not> se_joined t \<and> pb_engine (se_channel t)
    \<and> int (count_list (pb_calls (se_channel t)) NewEngine) - int (count_list (pb_calls (se_channel t)) Destroy)
      = int (count_list (pb_calls (se_channel s)) NewEngine) - int (count_list (pb_calls (se_channel s)) Destroy)"
proof -
  have l: "r = Some e" "abandoned (engines (pb_calls (se_channel s))) s'"
    using assms(1-4) by (auto simp: session_leave_def abandoned_def)
  show ?thesis using l(1) abandoned_run [OF l(2) assms(5,6)] by (simp add: abandoned_def engines_def)
qed

section \<open>Leaving without a reader\<close>

definition waits_full :: "'c rtc_session \<Rightarrow> bool" where
  "waits_full s \<longleftrightarrow> 0 < se_leaving s \<and> qfull (se_inbound s)"

lemma full_put [simp]: "qfull q \<Longrightarrow> put_nowait x q = None"
  by (simp add: put_nowait_def)

lemma offer_full: "waits_full s \<Longrightarrow> waits_full (offer raw s)"
  by (simp add: waits_full_def offer_def)

lemma fold_offer_full: "waits_full s \<Longrightarrow> waits_full (fold offer fs s)"
  by (induction fs arbitrary: s) (simp_all add: offer_full)

text \<open>A leave that finds the queue full does not return as long as nobody reads.\<close>

lemma leave_waits_for_reader:
  assumes "waits_full s" and "a \<noteq> SNext" and "session_step ops a s = Some s'"
  shows "waits_full s'"
proof (cases a)
  case SDrain
  then obtain fs c where "s' = fold offer fs (s\<lparr>se_channel := c\<rparr>)"
    using assms(3) by (auto simp: drain_inbound_def split: if_splits prod.splits)
  moreover have "waits_full (s\<lparr>se_channel := c\<rparr>)" using assms(1) by (simp add: waits_full_def)
  ultimately show ?thesis using fold_offer_full by blast
next
  case SLeave
  then show ?thesis using assms by (auto simp: waits_full_def session_leave_def put_end_def split: drainer.splits)
next
  case (SPush pcm ts)
  then show ?thesis using assms by (auto simp: waits_full_def session_push_audio_def split: prod.splits sum.splits)
next
  case (SJoin args out)
  then show ?thesis using assms by (auto simp: waits_full_def session_join_def split: prod.splits option.splits)
qed (use assms in \<open>auto simp: waits_full_def session_leave_put_def split: if_splits\<close>)

section \<open>Pushing\<close>

lemma sdk_frames_shape:
  assumes "0 < n"
  shows "list_all (\<lambda>f. length f = n) (sdk_frames n pcm) \<and> (\<exists>z < n. concat (sdk_frames n pcm) = pcm @ replicate z 0)"
proof (induction pcm rule: length_induct)
  case (1 pcm)
  show ?case
  proof (cases "length pcm \<le> n")
    case True
    then show ?thesis using assms
      by (cases "pcm = []") (simp_all add: sdk_frames.simps [of n pcm] sdk_frames.simps [of n "[]"] diff_less exI [of _ "n - length pcm"])
  next
    case False
    then have "list_all (\<lambda>f. length f = n) (sdk_frames n (drop n pcm))
        \<and> (\<exists>z < n. concat (sdk_frames n (drop n pcm)) = drop n pcm @ replicate z 0)"
      using 1 assms by simp
    then show ?thesis using False assms by (auto simp: sdk_frames.simps [of n pcm] simp flip: append_assoc)
  qed
qed

lemma sdk_frame_one: "length pcm = n \<Longrightarrow> 0 < n \<Longrightarrow> sdk_frames n pcm = [pcm]"
  by (subst sdk_frames.simps) (auto simp: sdk_frames.simps [of n "[]"])

text \<open>A frame of the playout, pushed on a channel joined at the send format, reaches the SDK as it is, in one call.\<close>

lemma playout_frame_pushed:
  assumes "pb_engine c" and "pb_send_rate c = SEND_RATE" and "pb_send_channels c = 1" and "length frame = FRAME_BYTES"
    and "sdk (pb_calls c @ [PushExternalAudio frame SEND_RATE 1 ts]) = None"
  shows "pybind_push_audio sdk frame ts c = (Inr 0, c\<lparr>pb_calls := pb_calls c @ [PushExternalAudio frame SEND_RATE 1 ts]\<rparr>)"
proof -
  have l: "length frame = 320" "frame \<noteq> []" using assms(4) by (auto simp: FRAME_BYTES_def FRAME_SAMPLES_def SEND_RATE_def)
  have "sdk_frames 320 frame = [frame]" by (rule sdk_frame_one) (use l in simp_all)
  then show ?thesis using assms l by (simp add: pybind_push_audio_def SEND_RATE_def Let_def)
qed

section \<open>Examples\<close>

definition demo_join :: join_args where
  "demo_join = \<lparr>ja_channel = [55], ja_token = [49], ja_uid = [50], ja_app_id = [65], ja_rate = 16000, ja_channels = 1, ja_gslb = []\<rparr>"

definition demo_frame :: rtc_frame where
  "demo_frame = \<lparr>fr_sender = [], fr_pcm = [1, 2], fr_rate = 16000, fr_channels = 1\<rparr>"

lemmas session_eval = session_join_def session_leave_def put_end_def offer_def drain_inbound_def audio_frames_next_def pcm_frame_def
  pybind_ops_def pybind_setup_and_join_def setup_calls_def pybind_drain_def pybind_arrive_def pybind_leave_def new_rtc_session_def
  new_pybind_def new_queue_def put_nowait_def get_nowait_def qfull_def demo_join_def demo_frame_def Let_def

lemma demo_listening:
  "\<exists>s. run_acts (session_step (pybind_ops (\<lambda>_. None))) [SJoin demo_join (JoinResult 0), SArrive demo_frame, SDrain, SNext]
      (new_rtc_session 1024 new_pybind) = Some s
     \<and> se_read s = [Some demo_frame] \<and> se_arrived s = [demo_frame] \<and> se_joined s \<and> pb_engine (se_channel s)
     \<and> se_drainer s = Draining"
  by (simp add: session_eval)

theorem session_audio_in_order_witness:
  "\<exists>s. reach (\<lambda>s. s = new_rtc_session 1024 new_pybind) (session_step (pybind_ops (\<lambda>_. None))) s
     \<and> frames_of (se_read s) = [demo_frame] \<and> subseq [demo_frame] (map pcm_frame (se_arrived s)) \<and> pb_engine (se_channel s)"
proof -
  obtain s where r: "run_acts (session_step (pybind_ops (\<lambda>_. None)))
      [SJoin demo_join (JoinResult 0), SArrive demo_frame, SDrain, SNext] (new_rtc_session 1024 new_pybind) = Some s"
    and s: "se_read s = [Some demo_frame]" "se_joined s" using demo_listening by blast
  have h: "reach (\<lambda>s. s = new_rtc_session 1024 new_pybind) (session_step (pybind_ops (\<lambda>_. None))) s"
    using reach_run_acts [rotated, OF r] by (simp add: reach_init)
  show ?thesis using session_audio_in_order [OF h] h s by (intro exI [of _ s]) simp
qed

theorem engines_are_released_witness:
  "\<exists>s. run_acts (session_step (pybind_ops (\<lambda>_. None))) [SJoin demo_join (JoinResult 0), SLeave] (new_rtc_session 1024 new_pybind) = Some s
     \<and> \<not> se_joined s \<and> count_list (pb_calls (se_channel s)) NewEngine = 1
     \<and> count_list (pb_calls (se_channel s)) NewEngine = count_list (pb_calls (se_channel s)) Destroy"
proof -
  obtain s where r: "run_acts (session_step (pybind_ops (\<lambda>_. None))) [SJoin demo_join (JoinResult 0), SLeave] (new_rtc_session 1024 new_pybind) = Some s"
    and s: "\<not> se_joined s" "count_list (pb_calls (se_channel s)) NewEngine = 1"
    by (simp add: session_eval)
  show ?thesis using engines_are_released [OF r] r s by (intro exI [of _ s]) (simp add: unclean_def)
qed

theorem crashed_drainer_leaks_engine_witness:
  "\<exists>s t. run_acts (session_step (pybind_ops (\<lambda>_. None))) [SJoin demo_join (JoinResult 0), SDrainCrash TypeError]
        (new_rtc_session 1024 new_pybind) = Some s
     \<and> fst (session_leave (pybind_ops (\<lambda>_. None)) s) = Some TypeError
     \<and> run_acts (session_step (pybind_ops (\<lambda>_. None))) [SLeave] (snd (session_leave (pybind_ops (\<lambda>_. None)) s)) = Some t
     \<and> \<not> se_joined t \<and> pb_engine (se_channel t)"
proof -
  obtain s where r: "run_acts (session_step (pybind_ops (\<lambda>_. None))) [SJoin demo_join (JoinResult 0), SDrainCrash TypeError]
        (new_rtc_session 1024 new_pybind) = Some s"
    and s: "se_joined s" "pb_engine (se_channel s)" "se_drainer s = DrainerCrashed TypeError"
    by (simp add: session_eval)
  obtain q s' where l: "session_leave (pybind_ops (\<lambda>_. None)) s = (q, s')" by fastforce
  obtain t where t: "run_acts (session_step (pybind_ops (\<lambda>_. None))) [SLeave] s' = Some t" by simp
  have "q = Some TypeError \<and> \<not> se_joined t \<and> pb_engine (se_channel t)"
    using crashed_drainer_leaks_engine [OF s l _ t] by (simp add: joins_def)
  then show ?thesis using r l t by auto
qed

end
