(* ===== verification/Asr_Client.thy ===== *)
theory Asr_Client
  imports Py_Bytes
begin

text \<open>
  The streaming speech recogniser (\<^verbatim>\<open>providers/asr_volcengine.py\<close>): the binary frames of the vendor's
  protocol, the batching of the caller's audio into 100 ms packets, the receive loop with its error frames, bad
  frames and duplicate finals, the reading of a response into results, and the reconnecting stream.

  A connection is a script: whether it opens, the messages it delivers, how it ends, how many audio chunks the push
  task takes from the line meanwhile and whether it is inside \<^verbatim>\<open>ws.send\<close> when the end cancels it. The line is an
  asynchronous generator: cancelling the task that waits in it finishes it. JSON and gzip are parameters, floats are
  rationals, and the clock's fallback timestamp is given per response.

  Shown: frames round-trip; the packets of a connection are the audio cut every 100 ms, however it was
  chunked; equal consecutive finals are delivered once; a run of disconnections without a result ends with an error
  after as many retries as configured; after a reconnect that interrupted the waiting push task no audio is sent any
  more.
\<close>

unbundle bit_operations_syntax

section \<open>Frames\<close>

definition PROTO_VERSION :: nat where "PROTO_VERSION = 1"
definition HEADER_SIZE_UNITS :: nat where "HEADER_SIZE_UNITS = 1"
definition MSG_FULL_CLIENT_REQUEST :: nat where "MSG_FULL_CLIENT_REQUEST = 1"
definition MSG_AUDIO_ONLY_REQUEST :: nat where "MSG_AUDIO_ONLY_REQUEST = 2"
definition MSG_FULL_SERVER_RESPONSE :: nat where "MSG_FULL_SERVER_RESPONSE = 9"
definition MSG_ERROR_RESPONSE :: nat where "MSG_ERROR_RESPONSE = 15"
definition FLAGS_NO_SEQ :: nat where "FLAGS_NO_SEQ = 0"
definition FLAGS_POS_SEQ :: nat where "FLAGS_POS_SEQ = 1"
definition FLAGS_NEG_SEQ_LAST_PACKET :: nat where "FLAGS_NEG_SEQ_LAST_PACKET = 3"
definition SERIALIZATION_RAW :: nat where "SERIALIZATION_RAW = 0"
definition SERIALIZATION_JSON :: nat where "SERIALIZATION_JSON = 1"
definition COMPRESSION_NONE :: nat where "COMPRESSION_NONE = 0"
definition COMPRESSION_GZIP :: nat where "COMPRESSION_GZIP = 1"

text \<open>\<^verbatim>\<open>bytes([n])\<close>.\<close>

definition one_byte :: "nat \<Rightarrow> 8 word res" where
  "one_byte n = (if n < 256 then Inr (byte_of n) else Inl ValueError)"

definition nibbles :: "nat \<Rightarrow> nat \<Rightarrow> nat" where
  "nibbles hi lo = push_bit 4 hi OR lo"

definition frame_header :: "nat \<Rightarrow> nat \<Rightarrow> nat \<Rightarrow> nat \<Rightarrow> bytes res" where
  "frame_header msg_type flags serialization compression =
     map_res one_byte [nibbles PROTO_VERSION HEADER_SIZE_UNITS, nibbles msg_type flags, nibbles serialization compression, 0]"

definition encode_frame :: "nat \<Rightarrow> nat \<Rightarrow> nat \<Rightarrow> nat \<Rightarrow> bytes \<Rightarrow> int option \<Rightarrow> bytes res" where
  "encode_frame msg_type flags serialization compression payload sequence =
     bind_res (frame_header msg_type flags serialization compression) (\<lambda>header.
     bind_res (case sequence of Some s \<Rightarrow> pack_i32 s | None \<Rightarrow> Inr []) (\<lambda>sq.
     bind_res (pack_u32 (int (length payload))) (\<lambda>size.
     Inr (header @ sq @ size @ payload))))"

record asr_frame =
  af_msg_type :: nat
  af_flags :: nat
  af_serialization :: nat
  af_compression :: nat
  af_sequence :: "int option"
  af_error_code :: "int option"
  af_payload :: bytes

definition slice4 :: "nat \<Rightarrow> bytes \<Rightarrow> bytes" where
  "slice4 cursor raw = take 4 (drop cursor raw)"

definition frame_fields :: "nat \<Rightarrow> nat \<Rightarrow> nat \<Rightarrow> bytes \<Rightarrow> (int option \<times> int option \<times> nat) res" where
  "frame_fields msg_type flags cursor raw =
     (if msg_type = MSG_ERROR_RESPONSE then
        bind_res (unpack_i32 (slice4 cursor raw)) (\<lambda>c. Inr (None, Some c, cursor + 4))
      else if flags \<in> {FLAGS_POS_SEQ, FLAGS_NEG_SEQ_LAST_PACKET} then
        bind_res (unpack_i32 (slice4 cursor raw)) (\<lambda>s. Inr (Some s, None, cursor + 4))
      else Inr (None, None, cursor))"

definition decode_frame :: "(bytes \<Rightarrow> bytes option) \<Rightarrow> bytes \<Rightarrow> asr_frame res" where
  "decode_frame gunzip raw = (case raw of
       b0 # b1 # b2 # b3 # rest \<Rightarrow>
         (let msg_type = drop_bit 4 (unat b1); flags = unat b1 AND 15;
              serialization = drop_bit 4 (unat b2); compression = unat b2 AND 15;
              cursor = (unat b0 AND 15) * 4
          in bind_res (frame_fields msg_type flags cursor raw) (\<lambda>(sequence, error_code, cursor).
             bind_res (unpack_u32 (slice4 cursor raw)) (\<lambda>size.
             let payload = take size (drop (cursor + 4) raw);
                 payload = (if compression = COMPRESSION_GZIP \<and> payload \<noteq> [] then
                     (case gunzip payload of Some p \<Rightarrow> p | None \<Rightarrow> payload) else payload)
             in Inr \<lparr>af_msg_type = msg_type, af_flags = flags, af_serialization = serialization, af_compression = compression,
                  af_sequence = sequence, af_error_code = error_code, af_payload = payload\<rparr>)))
     | _ \<Rightarrow> Inl ValueError)"

section \<open>Responses\<close>

record asr_result =
  ar_text :: pystr
  ar_final :: bool
  ar_timestamp_ms :: int

definition end_time_ms :: "int \<Rightarrow> pyval \<Rightarrow> int" where
  "end_time_ms elapsed v = (case v of PInt i \<Rightarrow> i | PBool b \<Rightarrow> of_bool b | PFloat r \<Rightarrow> trunc_rat r | _ \<Rightarrow> elapsed)"

definition parse_utterance :: "int \<Rightarrow> pyval \<Rightarrow> asr_result list" where
  "parse_utterance elapsed utt = (case utt of
       PDict d \<Rightarrow> (case dget d (lit ''text'') of
           PStr (c # cs) \<Rightarrow> [\<lparr>ar_text = c # cs,
             ar_final = truthy (dget d (lit ''definite'')),
             ar_timestamp_ms = end_time_ms elapsed (dget d (lit ''end_time''))\<rparr>]
         | _ \<Rightarrow> [])
     | _ \<Rightarrow> [])"

definition parse_v3_response :: "int \<Rightarrow> pyval \<Rightarrow> asr_result list" where
  "parse_v3_response elapsed data = (case data of
       PDict d \<Rightarrow> (case dget d (lit ''result'') of
           PDict result \<Rightarrow> (case dget result (lit ''utterances'') of
               PList (u # us) \<Rightarrow> concat (map (parse_utterance elapsed) (u # us))
             | _ \<Rightarrow> (case dget result (lit ''text'') of
                 PStr (c # cs) \<Rightarrow> [\<lparr>ar_text = c # cs, ar_final = False, ar_timestamp_ms = elapsed\<rparr>]
               | _ \<Rightarrow> []))
         | _ \<Rightarrow> [])
     | _ \<Rightarrow> [])"

section \<open>Pushing audio\<close>

definition sample_rate :: int where "sample_rate = 16000"

definition target_bytes :: nat where
  "target_bytes = nat (trunc_rat (of_int sample_rate * (1 / 10)) * 2)"

lemma target_bytes_value [simp]: "target_bytes = 3200"
  by (simp add: target_bytes_def sample_rate_def trunc_rat_def)

function cut_packets :: "bytes \<Rightarrow> bytes list \<times> bytes" where
  "cut_packets buf =
     (if length buf < target_bytes then ([], buf)
      else let (ps, rest) = cut_packets (drop target_bytes buf) in (take target_bytes buf # ps, rest))"
  by pat_completeness auto
termination
  by (relation "measure length") auto

declare cut_packets.simps [simp del]

definition audio_frame :: "bytes \<Rightarrow> bytes res" where
  "audio_frame payload = encode_frame MSG_AUDIO_ONLY_REQUEST FLAGS_NO_SEQ SERIALIZATION_RAW COMPRESSION_NONE payload None"

text \<open>The payloads sent for the chunks taken from the line.\<close>

fun push_audio :: "bytes list \<Rightarrow> bytes \<Rightarrow> bytes list" where
  "push_audio [] buf = []"
| "push_audio (c # cs) buf =
     (if c = [] then push_audio cs buf
      else let (ps, rest) = cut_packets (buf @ c) in ps @ push_audio cs rest)"

section \<open>One connection\<close>

record asr_lib =
  lib_gunzip :: "bytes \<Rightarrow> bytes option"
  lib_loads :: "bytes \<Rightarrow> pyval option"

datatype ws_msg = WsText | WsBinary bytes int

datatype conn_exc = ConnectionClosed | ProviderInvalidRequest "int option" | OtherException pyerr

type_synonym final_sig = "(pystr \<times> int) option"

fun dedup_finals :: "asr_result list \<Rightarrow> final_sig \<Rightarrow> asr_result list \<times> final_sig" where
  "dedup_finals [] sig = ([], sig)"
| "dedup_finals (r # rs) sig =
     (if ar_final r then
        if Some (ar_text r, ar_timestamp_ms r) = sig then dedup_finals rs sig
        else let (out, sig') = dedup_finals rs (Some (ar_text r, ar_timestamp_ms r)) in (r # out, sig')
      else let (out, sig') = dedup_finals rs sig in (r # out, sig'))"

definition recv_frame :: "asr_lib \<Rightarrow> bytes \<Rightarrow> int \<Rightarrow> final_sig \<Rightarrow> conn_exc + (asr_result list \<times> final_sig)" where
  "recv_frame L raw elapsed sig = (case decode_frame (lib_gunzip L) raw of
       Inl e \<Rightarrow> if e = ValueError then Inr ([], sig) else Inl (OtherException e)
     | Inr d \<Rightarrow>
         if af_msg_type d = MSG_ERROR_RESPONSE then Inl (ProviderInvalidRequest (af_error_code d))
         else if af_msg_type d \<noteq> MSG_FULL_SERVER_RESPONSE \<or> af_payload d = [] then Inr ([], sig)
         else case lib_loads L (af_payload d) of
           None \<Rightarrow> Inr ([], sig)
         | Some data \<Rightarrow> Inr (dedup_finals (parse_v3_response elapsed data) sig))"

fun recv_loop :: "asr_lib \<Rightarrow> ws_msg list \<Rightarrow> final_sig \<Rightarrow> asr_result list \<times> conn_exc option" where
  "recv_loop L [] sig = ([], None)"
| "recv_loop L (WsText # ms) sig = recv_loop L ms sig"
| "recv_loop L (WsBinary raw elapsed # ms) sig = (case recv_frame L raw elapsed sig of
       Inl e \<Rightarrow> ([], Some e)
     | Inr (out, sig') \<Rightarrow> (let (outs, e) = recv_loop L ms sig' in (out @ outs, e)))"

record line =
  ln_chunks :: "bytes list"
  ln_finished :: bool

datatype ws_end = EndOk | EndClosed | EndRaised pyerr

record connection =
  cn_opens :: "conn_exc option"
  cn_msgs :: "ws_msg list"
  cn_end :: ws_end
  cn_taken :: nat
  cn_in_send :: bool

definition end_exc :: "ws_end \<Rightarrow> conn_exc option" where
  "end_exc e = (case e of EndOk \<Rightarrow> None | EndClosed \<Rightarrow> Some ConnectionClosed | EndRaised x \<Rightarrow> Some (OtherException x))"

text \<open>What the push task takes, and the line after the task is cancelled: a task that waits in the generator
  finishes it, one that is sending leaves it suspended.\<close>

definition line_taken :: "connection \<Rightarrow> line \<Rightarrow> bytes list" where
  "line_taken c l = (if ln_finished l then [] else take (cn_taken c) (ln_chunks l))"

definition line_after :: "connection \<Rightarrow> line \<Rightarrow> line" where
  "line_after c l = (if ln_finished l then l
     else \<lparr>ln_chunks = drop (cn_taken c) (ln_chunks l), ln_finished = (\<not> cn_in_send c)\<rparr>)"

record conn_log =
  cl_packets :: "bytes list"
  cl_results :: "asr_result list"
  cl_exc :: "conn_exc option"

definition stream_one_connection :: "asr_lib \<Rightarrow> connection \<Rightarrow> line \<Rightarrow> conn_log \<times> line" where
  "stream_one_connection L c l = (case cn_opens c of
       Some e \<Rightarrow> (\<lparr>cl_packets = [], cl_results = [], cl_exc = Some e\<rparr>, l)
     | None \<Rightarrow>
         (let (rs, e) = recv_loop L (cn_msgs c) None
          in (\<lparr>cl_packets = push_audio (line_taken c l) [], cl_results = rs,
                cl_exc = (case e of Some x \<Rightarrow> Some x | None \<Rightarrow> end_exc (cn_end c))\<rparr>, line_after c l)))"

section \<open>The reconnecting stream\<close>

datatype stream_end = Listening | Returned | ProviderServerError

definition DEFAULT_RECONNECT_BACKOFFS_S :: "rat list" where
  "DEFAULT_RECONNECT_BACKOFFS_S = [1 / 5, 2 / 5, 4 / 5]"

fun stream_recognize :: "asr_lib \<Rightarrow> rat list \<Rightarrow> connection list \<Rightarrow> nat \<Rightarrow> line \<Rightarrow> conn_log list \<times> stream_end" where
  "stream_recognize L backoffs [] attempt l = ([], Listening)"
| "stream_recognize L backoffs (c # cs) attempt l =
     (let (lg, l') = stream_one_connection L c l;
          attempt = (if cl_results lg \<noteq> [] then 0 else attempt)
      in case cl_exc lg of
           None \<Rightarrow> ([lg], Returned)
         | Some ConnectionClosed \<Rightarrow>
             if attempt \<ge> length backoffs then ([lg], ProviderServerError)
             else let (logs, e) = stream_recognize L backoffs cs (Suc attempt) l' in (lg # logs, e)
         | Some _ \<Rightarrow> ([lg], ProviderServerError))"

definition headers :: "pystr option \<Rightarrow> pystr option \<Rightarrow> pystr option \<Rightarrow> pystr \<Rightarrow> pystr \<Rightarrow> (pystr \<times> pystr) list" where
  "headers api_key app_key access_key resource_id uuid =
     (let common = [(lit ''X-Api-Resource-Id'', resource_id), (lit ''X-Api-Request-Id'', uuid), (lit ''X-Api-Sequence'', lit ''-1'')];
          str = (\<lambda>k. case k of Some s \<Rightarrow> s | None \<Rightarrow> [])
      in if str api_key \<noteq> [] then (lit ''X-Api-Key'', str api_key) # common
         else [(lit ''X-Api-App-Key'', str app_key), (lit ''X-Api-Access-Key'', str access_key)] @ common)"

definition end_window_ms :: "rat \<Rightarrow> int" where
  "end_window_ms partial_stable_s = max 200 (trunc_rat (partial_stable_s * 1000))"

section \<open>Frames round-trip\<close>

lemma nibbles_parts:
  assumes "hi < 16" "lo < 16"
  shows "drop_bit 4 (nibbles hi lo) = hi" "nibbles hi lo AND 15 = lo" "nibbles hi lo < 256"
proof -
  have t: "take_bit 4 lo = lo" using assms(2) by (simp add: take_bit_nat_eq_self)
  have d: "drop_bit 4 lo = 0" using assms(2) by (simp add: drop_bit_eq_div)
  show "drop_bit 4 (nibbles hi lo) = hi"
    using d by (simp add: nibbles_def drop_bit_or) (simp add: drop_bit_eq_div push_bit_eq_mult)
  have "nibbles hi lo AND 15 = take_bit 4 (nibbles hi lo)"
    by (simp add: take_bit_eq_mask mask_eq_exp_minus_1)
  also have "\<dots> = lo" by (simp add: nibbles_def take_bit_or take_bit_push_bit t)
  finally show "nibbles hi lo AND 15 = lo" .
  have "nibbles hi lo div 16 = hi" using \<open>drop_bit 4 (nibbles hi lo) = hi\<close> by (simp add: drop_bit_eq_div)
  then show "nibbles hi lo < 256" using assms(1) by linarith
qed

lemma frame_header_bytes:
  assumes "m < 16" "f < 16" "s < 16" "c < 16"
  shows "frame_header m f s c = Inr [byte_of 17, byte_of (nibbles m f), byte_of (nibbles s c), byte_of 0]"
proof -
  have "nibbles 1 1 = 17" by (simp add: nibbles_def push_bit_eq_mult)
  then show ?thesis
    using nibbles_parts(3) [OF assms(1,2)] nibbles_parts(3) [OF assms(3,4)]
    by (simp add: frame_header_def one_byte_def PROTO_VERSION_def HEADER_SIZE_UNITS_def)
qed

lemma slice4_at: "raw = a @ b @ c \<Longrightarrow> length a = n \<Longrightarrow> length b = 4 \<Longrightarrow> slice4 n raw = b"
  by (auto simp: slice4_def)

text \<open>C21. The vendor's binary frames round-trip: whatever the four header fields, the payload and the sequence
  number, what \<^verbatim>\<open>_encode_frame\<close> produces \<^verbatim>\<open>_decode_frame\<close> reads back, for frames other than errors whose flags
  announce a sequence number exactly when there is one, and which are not compressed.\<close>

theorem asr_frame_roundtrip:
  assumes "encode_frame m f s c payload sq = Inr raw" and "m < 15" "f < 16" "s < 16" "c < 16" "c \<noteq> COMPRESSION_GZIP"
    and "(sq \<noteq> None) = (f \<in> {FLAGS_POS_SEQ, FLAGS_NEG_SEQ_LAST_PACKET})"
  shows "decode_frame gunzip raw = Inr \<lparr>af_msg_type = m, af_flags = f, af_serialization = s, af_compression = c,
     af_sequence = sq, af_error_code = None, af_payload = payload\<rparr>"
proof -
  let ?h = "[byte_of 17, byte_of (nibbles m f), byte_of (nibbles s c), byte_of 0]"
  have h: "frame_header m f s c = Inr ?h" using assms(2-5) by (intro frame_header_bytes) auto
  obtain sb size where sb: "(case sq of Some s \<Rightarrow> pack_i32 s | None \<Rightarrow> Inr []) = Inr sb"
      and size: "pack_u32 (int (length payload)) = Inr size" and raw: "raw = ?h @ sb @ size @ payload"
    using assms(1) h by (auto simp: encode_frame_def bind_res_def split: sum.splits)
  have z: "length size = 4" "unpack_u32 size = Inr (length payload)" using unpack_pack_u32 [OF size] by auto
  have mf: "drop_bit 4 (unat (byte_of (nibbles m f))) = m" "unat (byte_of (nibbles m f)) AND 15 = f"
    using nibbles_parts [of m f] assms(2,3) by auto
  have sc: "drop_bit 4 (unat (byte_of (nibbles s c))) = s" "unat (byte_of (nibbles s c)) AND 15 = c"
    using nibbles_parts [of s c] assms(4,5) by auto
  have b0: "(unat (byte_of 17) AND 15) * 4 = 4" using nibbles_parts(2) [of 1 1] by (simp add: nibbles_def push_bit_eq_mult)
  have ff: "frame_fields m f 4 raw = Inr (sq, None, 4 + length sb)"
  proof (cases sq)
    case None
    then show ?thesis using sb assms(2,7) by (auto simp: frame_fields_def MSG_ERROR_RESPONSE_def)
  next
    case (Some i)
    have l: "length sb = 4" "unpack_i32 sb = Inr i" using unpack_pack_i32 sb Some by auto
    have "slice4 4 raw = sb" by (rule slice4_at [OF raw _ l(1)]) simp
    then show ?thesis using Some l assms(2,7) by (auto simp: frame_fields_def MSG_ERROR_RESPONSE_def bind_res_def)
  qed
  have sl: "slice4 (4 + length sb) raw = size" by (rule slice4_at [of _ "?h @ sb" _ payload, OF _ _ z(1)]) (simp_all add: raw)
  have pl: "drop (4 + length sb + 4) raw = payload"
  proof -
    have "raw = (?h @ sb @ size) @ payload" by (simp add: raw)
    moreover have "length (?h @ sb @ size) = 4 + length sb + 4" by (simp add: z(1))
    ultimately show ?thesis by (metis append_eq_conv_conj)
  qed
  obtain b1 b2 where rw: "raw = byte_of 17 # b1 # b2 # byte_of 0 # (sb @ size @ payload)"
      "b1 = byte_of (nibbles m f)" "b2 = byte_of (nibbles s c)" using raw by simp
  have "decode_frame gunzip raw = bind_res (frame_fields m f 4 raw) (\<lambda>(sequence, error_code, cursor).
      bind_res (unpack_u32 (slice4 cursor raw)) (\<lambda>size.
        let payload = take size (drop (cursor + 4) raw);
            payload = (if c = COMPRESSION_GZIP \<and> payload \<noteq> [] then
                (case gunzip payload of Some p \<Rightarrow> p | None \<Rightarrow> payload) else payload)
        in Inr \<lparr>af_msg_type = m, af_flags = f, af_serialization = s, af_compression = c,
             af_sequence = sequence, af_error_code = error_code, af_payload = payload\<rparr>))"
    unfolding decode_frame_def rw(1) using mf sc b0 rw(2,3) by (simp add: Let_def del: unat_byte_of)
  also have "\<dots> = Inr \<lparr>af_msg_type = m, af_flags = f, af_serialization = s, af_compression = c,
     af_sequence = sq, af_error_code = None, af_payload = payload\<rparr>"
    using ff sl z(2) pl assms(6) by (simp add: bind_res_def Let_def)
  finally show ?thesis .
qed

theorem asr_frame_roundtrip_witness:
  "\<exists>raw. encode_frame 9 1 1 0 [7] (Some (- 1)) = Inr raw \<and> decode_frame (\<lambda>_. None) raw = Inr \<lparr>af_msg_type = 9, af_flags = 1,
     af_serialization = 1, af_compression = 0, af_sequence = Some (- 1), af_error_code = None, af_payload = [7]\<rparr>"
proof -
  obtain raw where r: "encode_frame 9 1 1 0 [7] (Some (- 1)) = Inr raw"
    using frame_header_bytes [of 9 1 1 0] by (simp add: encode_frame_def pack_i32_def pack_u32_def bind_res_def)
  from asr_frame_roundtrip [OF r, of "\<lambda>_. None"] r show ?thesis
    by (simp add: COMPRESSION_GZIP_def FLAGS_POS_SEQ_def)
qed

section \<open>Packets\<close>

lemma cut_short: "length buf < 3200 \<Longrightarrow> cut_packets buf = ([], buf)"
  by (simp add: cut_packets.simps [of buf])

lemma cut_long:
  "3200 \<le> length buf \<Longrightarrow>
   cut_packets buf = (take 3200 buf # fst (cut_packets (drop 3200 buf)), snd (cut_packets (drop 3200 buf)))"
  by (simp add: cut_packets.simps [of buf] split_beta)

lemma cut_append:
  "cut_packets (a @ b) = (fst (cut_packets a) @ fst (cut_packets (snd (cut_packets a) @ b)), snd (cut_packets (snd (cut_packets a) @ b)))"
proof (induction a rule: cut_packets.induct)
  case (1 a)
  then show ?case
    by (cases "length a < 3200") (use cut_short [of a] cut_long [of a] cut_long [of "a @ b"] in simp_all)
qed

lemma cut_rest: "length (snd (cut_packets buf)) < 3200"
proof (induction buf rule: cut_packets.induct)
  case (1 buf)
  then show ?case by (cases "length buf < 3200") (simp_all add: cut_short cut_long)
qed

lemma push_audio_packets: "length buf < 3200 \<Longrightarrow> push_audio cs buf = fst (cut_packets (buf @ concat cs))"
proof (induction cs arbitrary: buf)
  case (Cons c cs)
  show ?case
  proof (cases "c = []")
    case True
    with Cons show ?thesis by simp
  next
    case False
    with Cons.IH [OF cut_rest] cut_append [of "buf @ c" "concat cs"] show ?thesis by (simp add: split_beta)
  qed
qed (simp add: cut_short)

section \<open>Retries\<close>

definition useful :: "conn_log list \<Rightarrow> nat" where
  "useful logs = length (filter (\<lambda>lg. cl_results lg \<noteq> []) logs)"

lemma retries_bounded:
  "stream_recognize L backoffs cs attempt l = (logs, e) \<Longrightarrow> attempt \<le> length backoffs \<Longrightarrow>
   length logs + attempt \<le> Suc (length backoffs) * Suc (useful logs)"
proof (induction L backoffs cs attempt l arbitrary: logs e rule: stream_recognize.induct)
  case (2 L backoffs c cs attempt l)
  obtain lg l' where o: "stream_one_connection L c l = (lg, l')" by fastforce
  define a where "a = (if cl_results lg \<noteq> [] then 0 else attempt)"
  have a: "a \<le> length backoffs" using 2(3) by (simp add: a_def)
  show ?case
  proof (cases "cl_exc lg = Some ConnectionClosed \<and> a < length backoffs")
    case True
    obtain ls e' where r: "stream_recognize L backoffs cs (Suc a) l' = (ls, e')" by fastforce
    have logs: "logs = lg # ls" using 2(2) o True r by (auto simp: a_def Let_def split: if_splits)
    have ih: "length ls + Suc a \<le> Suc (length backoffs) * Suc (useful ls)"
      using 2(1) [OF o [symmetric] _ _ _ _ _ r] True a_def by auto
    show ?thesis
    proof (cases "cl_results lg = []")
      case True
      with ih logs show ?thesis by (simp add: useful_def a_def)
    next
      case False
      with ih logs 2(3) show ?thesis by (simp add: useful_def a_def)
    qed
  next
    case False
    then have "logs = [lg]"
      using 2(2) o a by (auto simp: a_def Let_def split: if_splits option.splits conn_exc.splits)
    then show ?thesis using 2(3) by (simp add: useful_def)
  qed
qed (simp add: useful_def)


definition deaf :: "conn_log list \<Rightarrow> bool" where
  "deaf logs \<longleftrightarrow> list_all (\<lambda>lg. cl_packets lg = []) logs"

lemma finished_line_silent:
  "ln_finished l \<Longrightarrow> cl_packets (fst (stream_one_connection L c l)) = [] \<and> ln_finished (snd (stream_one_connection L c l))"
  by (auto simp: stream_one_connection_def line_taken_def line_after_def split_beta split: option.splits)

lemma finished_stream_deaf:
  "ln_finished l \<Longrightarrow> stream_recognize L backoffs cs attempt l = (logs, e) \<Longrightarrow> deaf logs"
proof (induction L backoffs cs attempt l arbitrary: logs e rule: stream_recognize.induct)
  case (2 L backoffs c cs attempt l)
  obtain lg l' where o: "stream_one_connection L c l = (lg, l')" by fastforce
  have s: "cl_packets lg = []" "ln_finished l'" using finished_line_silent [OF 2(2), of L c] o by auto
  define a where "a = (if cl_results lg \<noteq> [] then 0 else attempt)"
  show ?case
  proof (cases "cl_exc lg = Some ConnectionClosed \<and> a < length backoffs")
    case True
    obtain ls e' where r: "stream_recognize L backoffs cs (Suc a) l' = (ls, e')" by fastforce
    have "logs = lg # ls" using 2(3) o True r by (auto simp: a_def Let_def split: if_splits)
    moreover have "deaf ls" using 2(1) [OF o [symmetric] refl a_def _ refl _ s(2) r] True by auto
    ultimately show ?thesis using s(1) by (simp add: deaf_def)
  next
    case False
    then have "logs = [lg]"
      using 2(3) o by (auto simp: a_def Let_def split: if_splits option.splits conn_exc.splits)
    then show ?thesis using s(1) by (simp add: deaf_def)
  qed
qed (simp add: deaf_def)

text \<open>C35. A reconnect makes the recogniser deaf: when a connection is lost while the push task waits for the next
  chunk of the line, cancelling that task finishes the line's generator, and no later connection of the call sends
  a single packet of audio, whatever the caller says.\<close>

theorem asr_deaf_after_reconnect:
  assumes "cn_opens c = None" and "\<not> cn_in_send c" and "stream_recognize L backoffs (c # cs) attempt l = (lg # logs, e)"
  shows "deaf logs"
proof -
  obtain lg' l' where o: "stream_one_connection L c l = (lg', l')" by fastforce
  have f: "ln_finished l'" using o assms(1,2) by (auto simp: stream_one_connection_def line_after_def split_beta)
  define a where "a = (if cl_results lg' \<noteq> [] then 0 else attempt)"
  show ?thesis
  proof (cases "cl_exc lg' = Some ConnectionClosed \<and> a < length backoffs")
    case True
    obtain ls e' where r: "stream_recognize L backoffs cs (Suc a) l' = (ls, e')" by fastforce
    have "logs = ls" using assms(3) o True r by (auto simp: a_def Let_def split: if_splits)
    with finished_stream_deaf [OF f r] show ?thesis by simp
  next
    case False
    then have "logs = []"
      using assms(3) o by (auto simp: a_def Let_def split: if_splits option.splits conn_exc.splits)
    then show ?thesis by (simp add: deaf_def)
  qed
qed

definition demo_lost :: connection where
  "demo_lost = \<lparr>cn_opens = None, cn_msgs = [], cn_end = EndClosed, cn_taken = 1, cn_in_send = False\<rparr>"

definition demo_asr_line :: line where
  "demo_asr_line = \<lparr>ln_chunks = [replicate 3200 1, replicate 3200 2], ln_finished = False\<rparr>"

definition no_lib :: asr_lib where
  "no_lib = \<lparr>lib_gunzip = (\<lambda>_. None), lib_loads = (\<lambda>_. None)\<rparr>"

lemma demo_stream:
  "stream_recognize no_lib DEFAULT_RECONNECT_BACKOFFS_S [demo_lost, demo_lost] 0 demo_asr_line
     = ([\<lparr>cl_packets = [replicate 3200 1], cl_results = [], cl_exc = Some ConnectionClosed\<rparr>,
         \<lparr>cl_packets = [], cl_results = [], cl_exc = Some ConnectionClosed\<rparr>], Listening)"
proof -
  have "push_audio [replicate 3200 1] [] = [replicate 3200 (1 :: 8 word)]"
    by (simp add: cut_long cut_short)
  then show ?thesis
    by (simp add: DEFAULT_RECONNECT_BACKOFFS_S_def stream_one_connection_def demo_lost_def demo_asr_line_def line_taken_def
        line_after_def end_exc_def)
qed


theorem asr_deaf_after_reconnect_witness:
  "\<exists>lg logs. stream_recognize no_lib DEFAULT_RECONNECT_BACKOFFS_S [demo_lost, demo_lost] 0 demo_asr_line = (lg # logs, Listening)
     \<and> cl_packets lg \<noteq> [] \<and> logs \<noteq> [] \<and> deaf logs"
  using asr_deaf_after_reconnect [OF _ _ demo_stream] demo_stream by (simp add: demo_lost_def)

end
