(* ===== verification/Spec2Isabelle.thy ===== *)
theory Spec2Isabelle
  imports Call_Lifecycle Tts_Cache Llm_Client Edge_Transport Rtc_Telephony Modem_Telephony Rtc_Session Asr_Client
begin

text \<open>
  Verification of isales-engine, the real-time engine that dials customers and holds the conversation. File names below are
  relative to \<^verbatim>\<open>src/isales_engine\<close>.

  \<^bold>\<open>The program.\<close> The scheduler puts dial messages on a Redis list. The dial consumer turns each into a call: it loads the campaign's
  configuration, registers a session and runs it. The run loop of a session dials over a telephony client, listens through the
  recogniser and the voice-activity monitor, lets referees and the main model work on each utterance, picks one route, speaks
  the reply sentence by sentence, and lets the customer interrupt. Silence, wrap-up and handoff rules end the call, after which
  its transcript and outcome are stored. Telephony is a modem, a mock, or an edge device: then commands travel over a gRPC
  stream per edge and audio over an RTC session with a signed token.

  \<^bold>\<open>Representation.\<close> A coroutine is either an explicit function of the state and of what happens at its suspension points, or,
  where the interleaving matters, a step function \<^verbatim>\<open>act => state => state option\<close> whose runs are all schedules: one step is what
  the event loop executes between two suspensions. \<^verbatim>\<open>reach\<close> and \<^verbatim>\<open>run_acts\<close> of \<open>Py_Async\<close> are reachability and finite runs. An exception is
  the left side of \<open>'a res\<close> or an outcome of its own. Strings are lists of code points, bytes are 8-bit words, Python's integers
  are \<open>int\<close>. A float is an exact rational: rounding of binary floating point is not modelled. Clocks and random draws are
  arguments. What is not part of the repository (the vendors, HTTP, sockets, Redis, the database, the SDK, HMAC, zlib,
  the regular expression engine, \<^verbatim>\<open>isales_common\<close>) is an argument of the definitions that use it.

  \<^bold>\<open>Prelude.\<close>
  \<^item> \<open>Py_Base\<close>: strings, values, exceptions and numbers of Python. \<open>Py_Bytes\<close>: byte strings, 16-bit samples and the fields of \<^verbatim>\<open>struct\<close>.
    \<open>Py_Async\<close>: the queue of \<^verbatim>\<open>asyncio\<close>, reachability, the locales \<open>fifo_lane\<close> and \<open>invariant_of\<close>.

  \<^bold>\<open>The call.\<close>
  \<^item> \<open>Event_Bus\<close> (\<^verbatim>\<open>events.py\<close>, \<^verbatim>\<open>eventbus.py\<close>): the two lanes, their dispatchers and the closing of the bus. Nothing lossless is lost in any schedule.
  \<^item> \<open>Call_State\<close> (\<^verbatim>\<open>call_session.py\<close>, \<^verbatim>\<open>state_machine.py\<close>, the writer of \<^verbatim>\<open>transcript_recorder.py\<close>): the session and its advisory state machine.
  \<^item> \<open>Interruption\<close> (\<^verbatim>\<open>realtime/interruption_rules.py\<close>, \<^verbatim>\<open>realtime/interruption_detector.py\<close>): compiled rule trees, the monitors; one interruption per
    signal.
  \<^item> \<open>Turn_Policy\<close> (\<^verbatim>\<open>realtime/silence_detector.py\<close>, \<^verbatim>\<open>realtime/filler_manager.py\<close>, \<^verbatim>\<open>wrapup/manager.py\<close>, \<^verbatim>\<open>transfer/manager.py\<close>): what is decided between turns.
  \<^item> \<open>Sentence_Splitter\<close> (\<^verbatim>\<open>streaming\<close>): no readable character is lost and the result does not depend on how the text is cut into tokens.
  \<^item> \<open>Pipeline_Config\<close>, \<open>Gate_Decider\<close> (\<^verbatim>\<open>pipeline/prompt_builder.py\<close>, \<^verbatim>\<open>pipeline/greeting.py\<close>, \<^verbatim>\<open>referee.py\<close>, \<^verbatim>\<open>pipeline/decider.py\<close>): prompts,
    referees, and the first rule that matches.
  \<^item> \<open>Reply_Stream\<close> (\<^verbatim>\<open>pipeline/orchestrator.py\<close>): a reply is never silent; the eager buffer replays in order.
  \<^item> \<open>Runtime_Config\<close> (\<^verbatim>\<open>runtime_config.py\<close>): a configuration that loads is well formed.
  \<^item> \<open>Call_World\<close>, \<open>Playback\<close>, \<open>Gated_Turn\<close>, \<open>Run_Loop\<close> (\<^verbatim>\<open>run_loop.py\<close>): the state of the loop with the calculus \<open>keeps\<close> of what actions preserve, the
    synthesis pipeline, one turn, and the whole call. A call ends closed with one cause; silence and wrap-up are bounded.
  \<^item> \<open>Call_Lifecycle\<close> (\<^verbatim>\<open>dial_consumer.py\<close>, \<^verbatim>\<open>session_manager.py\<close>, \<^verbatim>\<open>call_lifecycle.py\<close>, \<^verbatim>\<open>event_consumer.py\<close>): from the message to the stored row, under
    failures of every remote operation.

  \<^bold>\<open>Providers.\<close>
  \<^item> \<open>Tts_Cache\<close> (\<^verbatim>\<open>providers/tts_cache.py\<close>): the LRU store refines a map within two limits; replays are complete.
  \<^item> \<open>Llm_Client\<close> (\<^verbatim>\<open>providers/llm_openai_compatible.py\<close>, \<^verbatim>\<open>providers/llm_registry.py\<close>, \<^verbatim>\<open>providers/factory.py\<close>): server-sent events round-trip; clients are shared.
  \<^item> \<open>Asr_Client\<close> (\<^verbatim>\<open>providers/asr_volcengine.py\<close>): binary frames round-trip; packets of 100 ms; bounded reconnects, which are deaf.

  \<^bold>\<open>Transport and telephony.\<close>
  \<^item> \<open>Edge_Transport\<close> (\<^verbatim>\<open>transport/grpc_server.py\<close>, \<^verbatim>\<open>transport/session_dispatcher.py\<close>, \<^verbatim>\<open>transport/jwt_token_verifier.py\<close> and the two handlers): streams of edges
    under reconnects; calls hear only their edge.
  \<^item> \<open>Audio_Dsp\<close> (\<^verbatim>\<open>realtime/ambient.py\<close>): saturating mix, fades, loops. \<open>Rtc_Media\<close> (\<^verbatim>\<open>realtime/rtc_telephony.py\<close>, \<^verbatim>\<open>_CallState\<close>): the two inbound lanes and
    the playout with its pump; what returns has been heard.
  \<^item> \<open>Rtc_Token\<close> (\<^verbatim>\<open>transport/rtc_token.py\<close>): a token reads back as what it was signed for.
  \<^item> \<open>Rtc_Session\<close> (\<^verbatim>\<open>transport/dingrtc\<close>): the session over the SDK; the locale \<open>rtc_channel\<close> is interpreted for the production and the in-memory
    channel; frames in order, engines released.
  \<^item> \<open>Telephony\<close> (\<^verbatim>\<open>realtime/telephony_client.py\<close>): the contract of an event stream as the locale \<open>telephony_stream\<close>; interpreted in \<open>Rtc_Telephony\<close>
    (\<^verbatim>\<open>RtcTelephonyClient\<close>, on top of \<open>Edge_Transport\<close>, \<open>Rtc_Media\<close> and \<open>Rtc_Token\<close>) and \<open>Modem_Telephony\<close> (\<^verbatim>\<open>realtime/real_telephony.py\<close>,
    \<^verbatim>\<open>realtime/mock_telephony.py\<close>).
  \<^item> This theory: the contract for the three clients together.

  \<^bold>\<open>Bounds.\<close> No fuel is used. \<open>main_turn_loop\<close> recurses over the script of what the environment does in each round, and \<open>Running\<close> is
  its value when the script ends before the call; that the call ends is proved as a bound on the length of the script. Loops over
  data are structural or have a termination proof. Bounds of queues and retries are those of the code (64 commands per
  edge, 300 frames of playout, 1024 frames of inbound audio, three reconnects).

  \<^bold>\<open>Not modelled.\<close> The publication of events to Redis (\<^verbatim>\<open>event_publisher.py\<close>), settings and connection factories (\<^verbatim>\<open>settings.py\<close>, \<^verbatim>\<open>db.py\<close>,
  \<^verbatim>\<open>redis_client.py\<close>), the command line tool and the probe scripts: input and output only. The wiring in \<^verbatim>\<open>main.py\<close>, apart from
  the handlers of control messages: it starts and stops the parts. The scripted doubles of the providers, since providers are
  arguments. Logging and the diagnostic counters of the inbound loop. Of the RTC session, the callbacks from SDK threads, whose only
  effect is the result of a join, which is an argument. The pacing of audio by the wall clock: steps are ordered, not timed.
\<close>

section \<open>The telephony contract\<close>

text \<open>C5. All three telephony clients keep the contract that the run loop relies on, in every reachable state and for every call: the
  consumer of the call's events sees connects, then at most one final event, and the stream ends exactly with that final
  event; and a local hangup of a call whose stream is open makes the stream end with \<^verbatim>\<open>local_hangup\<close>.\<close>

theorem telephony_contract:
  assumes "reach (\<lambda>C. C = new_client legacy) (rtc_step R) C" and "reach (\<lambda>M. M = new_modem) (modem_step E) M"
    and "reach (\<lambda>K. K = new_mock delay) mock_step K"
  shows "stream_shape (rtc_stream call C) \<and> stream_shape (modem_stream call M) \<and> stream_shape (mock_stream call K)
    \<and> (rt_calls C call \<noteq> None \<longrightarrow> \<not> stream_ended (rtc_stream call C) \<longrightarrow> \<not> fst (hangup call C) \<longrightarrow>
         yielded (rtc_stream call (snd (hangup call C))) = rtc_stream call C @ [TelEvent TelLocalHangup])
    \<and> (\<not> stream_ended (modem_stream call M) \<longrightarrow> fst (modem_hangup cerr werr call M) = None \<longrightarrow>
         yielded (modem_stream call (snd (modem_hangup cerr werr call M))) = modem_stream call M @ [TelEvent TelLocalHangup])
    \<and> (\<not> stream_ended (mock_stream call K) \<longrightarrow>
         yielded (mock_stream call (mock_hangup call K)) = mock_stream call K @ [TelEvent TelLocalHangup])"
proof (intro conjI impI)
  show "stream_shape (rtc_stream call C)" using assms(1) by (rule rtc.reach_shape)
  show "stream_shape (modem_stream call M)" using assms(2) by (rule modem.reach_shape)
  show "stream_shape (mock_stream call K)" using assms(3) by (rule mock.reach_shape)
  show "yielded (rtc_stream call (snd (hangup call C))) = rtc_stream call C @ [TelEvent TelLocalHangup]"
    if "rt_calls C call \<noteq> None" "\<not> stream_ended (rtc_stream call C)" "\<not> fst (hangup call C)"
    using rtc_hangup_final [OF rtc.reach_inv [OF assms(1)] that] that(2) by (simp add: yielded_closing)
  show "yielded (modem_stream call (snd (modem_hangup cerr werr call M))) = modem_stream call M @ [TelEvent TelLocalHangup]"
    if "\<not> stream_ended (modem_stream call M)" "fst (modem_hangup cerr werr call M) = None"
    using modem_hangup_final [OF that(2,1)] that(1) by (simp add: yielded_closing)
  show "yielded (mock_stream call (mock_hangup call K)) = mock_stream call K @ [TelEvent TelLocalHangup]"
    if "\<not> stream_ended (mock_stream call K)"
    using mock_hangup_final [of call K] that by (simp add: yielded_closing)
qed

theorem telephony_contract_witness:
  "yielded (mock_stream 1 (mock_hangup 1 (mock_dial 1 [49] (new_mock 0)))) = [TelEvent TelConnected, TelEvent TelLocalHangup]
     \<and> stream_shape (rtc_stream 1 (new_client [])) \<and> stream_shape (modem_stream 1 (snd (modem_dial None None 1 [49] new_modem)))"
proof -
  have r: "reach (\<lambda>C. C = new_client []) (rtc_step demo_rtc_env) (new_client [])" by (simp add: reach_init)
  have m: "reach (\<lambda>M. M = new_modem) (modem_step demo_env) (snd (modem_dial None None 1 [49] new_modem))"
    by (rule reach_step [where s = new_modem and a = "MDial 1 [49] None None"]) (simp_all add: reach_init)
  have k: "reach (\<lambda>K. K = new_mock 0) mock_step (mock_dial 1 [49] (new_mock 0))"
    by (rule reach_step [where s = "new_mock 0" and a = "KDial 1 [49]"]) (simp_all add: reach_init)
  have "mock_stream 1 (mock_dial 1 [49] (new_mock 0)) = [TelEvent TelConnected]"
    by (simp add: mock_dial_def mock_emit_def mock_stream_def new_mock_def queued_def queue_put_def setdefault_def Let_def)
  then show ?thesis using telephony_contract [OF r m k, of 1] by simp
qed

end
